(* ===== verification/Msgbus_Prelude.thy ===== *)
theory Msgbus_Prelude
  imports Main "HOL-Library.Word" "HOL-Library.Char_ord" "HOL-Library.List_Lexorder"
    "HOL-Library.Product_Lexorder" "HOL-Library.Sublist" "HOL-Library.Finite_Map"
begin

text \<open>
  Shared vocabulary of the msgbus development: Rust's machine integers and their saturating
  arithmetic, the error sum with \<open>and_then\<close> standing for the \<open>?\<close> operator, loops that collect a
  vector or stop at the first error, splitting and blank tests on UTF-8 byte strings, the
  zero-padded decimals of \<open>format!("{:020}")\<close>, and the facts about the byte-wise lexicographic
  order that ordered tables are scanned in.

  A Rust \<open>String\<close> is modelled by the list of its UTF-8 bytes (\<open>string\<close>, whose characters are the
  256 byte values), so that equality, ordering and prefix tests are those of \<open>str\<close>.
\<close>

named_theorems result_simps \<open>equations of the error sum\<close>
named_theorems sat_simps \<open>saturating arithmetic read through unat\<close>

type_synonym u8 = "8 word"
type_synonym u32 = "32 word"
type_synonym u64 = "64 word"
type_synonym bytes = "u8 list"

section \<open>The error sum\<close>

definition and_then :: "'e + 'a \<Rightarrow> ('a \<Rightarrow> 'e + 'b) \<Rightarrow> 'e + 'b" where
  "and_then r f = (case r of Inl e \<Rightarrow> Inl e | Inr a \<Rightarrow> f a)"

definition map_err :: "('e \<Rightarrow> 'f) \<Rightarrow> 'e + 'a \<Rightarrow> 'f + 'a" where
  "map_err f r = (case r of Inl e \<Rightarrow> Inl (f e) | Inr a \<Rightarrow> Inr a)"

definition ok_or :: "'e \<Rightarrow> 'a option \<Rightarrow> 'e + 'a" where
  "ok_or e x = (case x of None \<Rightarrow> Inl e | Some a \<Rightarrow> Inr a)"

definition transpose_opt :: "('e + 'a) option \<Rightarrow> 'e + 'a option" where
  "transpose_opt x = (case x of None \<Rightarrow> Inr None | Some r \<Rightarrow> and_then r (\<lambda>a. Inr (Some a)))"

definition ok :: "'e + 'a \<Rightarrow> 'a option" where
  "ok r = (case r of Inl e \<Rightarrow> None | Inr a \<Rightarrow> Some a)"

fun try_map :: "('a \<Rightarrow> 'e + 'b) \<Rightarrow> 'a list \<Rightarrow> 'e + 'b list" where
  "try_map f [] = Inr []"
| "try_map f (x # xs) =
     and_then (f x) (\<lambda>y. and_then (try_map f xs) (\<lambda>ys. Inr (y # ys)))"

lemma and_then_simps [simp, result_simps]:
  "and_then (Inl e) f = Inl e" "and_then (Inr a) f = f a"
  by (simp_all add: and_then_def)

lemma map_err_simps [simp, result_simps]:
  "map_err f (Inl e) = Inl (f e)" "map_err f (Inr a) = Inr a"
  by (simp_all add: map_err_def)

lemma ok_or_simps [simp, result_simps]:
  "ok_or e None = Inl e" "ok_or e (Some a) = Inr a"
  by (simp_all add: ok_or_def)

lemma transpose_opt_simps [simp, result_simps]:
  "transpose_opt None = Inr None"
  "transpose_opt (Some (Inl e)) = Inl e"
  "transpose_opt (Some (Inr a)) = Inr (Some a)"
  by (simp_all add: transpose_opt_def)

lemma ok_simps [simp, result_simps]: "ok (Inl e) = None" "ok (Inr a) = Some a"
  by (simp_all add: ok_def)

lemma ok_eq_Some [simp]: "ok r = Some a \<longleftrightarrow> r = Inr a"
  by (cases r) auto

lemma transpose_opt_eq_Inr:
  "transpose_opt x = Inr y \<longleftrightarrow>
     (case x of None \<Rightarrow> y = None | Some r \<Rightarrow> (\<exists>a. r = Inr a \<and> y = Some a))"
  by (cases x; cases "the x") auto

lemma and_then_eq_Inr:
  "and_then r f = Inr b \<longleftrightarrow> (\<exists>a. r = Inr a \<and> f a = Inr b)"
  by (cases r) auto

lemma and_then_eq_Inl:
  "and_then r f = Inl e \<longleftrightarrow> r = Inl e \<or> (\<exists>a. r = Inr a \<and> f a = Inl e)"
  by (cases r) auto

lemma map_err_eq_Inr [simp]: "map_err f r = Inr a \<longleftrightarrow> r = Inr a"
  by (cases r) auto

lemma ok_or_eq_Inr [simp]: "ok_or e x = Inr a \<longleftrightarrow> x = Some a"
  by (cases x) auto

lemma try_map_Inr_all:
  "(\<And>x. x \<in> set xs \<Longrightarrow> f x = Inr (g x)) \<Longrightarrow> try_map f xs = Inr (map g xs)"
  by (induction xs) auto

lemma try_map_cong [fundef_cong]:
  "xs = ys \<Longrightarrow> (\<And>x. x \<in> set ys \<Longrightarrow> f x = g x) \<Longrightarrow> try_map f xs = try_map g ys"
proof (induction ys arbitrary: xs)
  case (Cons y ys)
  then show ?case by auto
qed simp

lemma try_map_length: "try_map f xs = Inr ys \<Longrightarrow> length ys = length xs"
  by (induction xs arbitrary: ys) (auto simp: and_then_eq_Inr)

section \<open>Saturating arithmetic\<close>

definition saturating_add :: "'w::len word \<Rightarrow> 'w word \<Rightarrow> 'w word" where
  "saturating_add a b = (if a + b < a then - 1 else a + b)"

definition saturating_sub :: "'w::len word \<Rightarrow> 'w word \<Rightarrow> 'w word" where
  "saturating_sub a b = (if a < b then 0 else a - b)"

lemma unat_plus_one:
  fixes a :: "'w::len word"
  assumes "a \<noteq> - 1"
  shows "unat (a + 1) = Suc (unat a)"
proof -
  have "1 + a \<noteq> 0" using assms by (metis add_eq_0_iff)
  then show ?thesis by (metis unatSuc add.commute)
qed

lemma word_less_plus_one: "a \<noteq> - 1 \<Longrightarrow> a < a + (1 :: 'w::len word)"
  by (simp add: word_less_nat_alt unat_plus_one)

lemma saturating_add_1:
  "saturating_add a 1 = (if a = - 1 then - 1 else a + 1)"
  using word_less_plus_one [of a] by (auto simp: saturating_add_def not_less)

lemma unat_saturating_add_1 [sat_simps]:
  "a \<noteq> - 1 \<Longrightarrow> unat (saturating_add a 1) = Suc (unat a)"
  by (simp add: saturating_add_1 unat_plus_one)

lemma saturating_add_1_le: "a \<le> saturating_add a (1 :: 'w::len word)"
  using word_less_plus_one [of a] by (auto simp: saturating_add_1)

lemma saturating_add_1_neq_0 [simp]: "saturating_add a (1 :: 'w::len word) \<noteq> 0"
  by (auto simp: saturating_add_1 add_eq_0_iff2)

lemma saturating_add_1_pos [simp]: "0 < saturating_add a (1 :: 'w::len word)"
  by (simp add: word_neq_0_conv [symmetric])

lemma le_saturating_add_1_iff:
  fixes a h :: "'w::len word"
  assumes "a \<noteq> - 1"
  shows "h \<le> saturating_add a 1 \<longleftrightarrow> h \<le> a \<or> h = saturating_add a 1"
proof -
  have "unat (saturating_add a 1) = Suc (unat a)" using assms by (rule unat_saturating_add_1)
  then show ?thesis by (auto simp: word_le_nat_alt le_Suc_eq word_unat_eq_iff)
qed

lemma less_saturating_add_1_iff:
  fixes a h :: "'w::len word"
  assumes "a \<noteq> - 1"
  shows "h < saturating_add a 1 \<longleftrightarrow> h \<le> a"
  using unat_saturating_add_1 [OF assms] by (simp add: word_le_nat_alt word_less_nat_alt less_Suc_eq_le)

lemma saturating_add_1_less: "a \<noteq> - 1 \<Longrightarrow> a < saturating_add a (1 :: 'w::len word)"
  by (simp add: less_saturating_add_1_iff)

section \<open>Byte strings\<close>

text \<open>
  The UTF-8 encodings of the code points with the Unicode property \<open>White_Space\<close>, which is what
  \<open>str::trim\<close> removes. A string whose trim is empty consists of such characters only.
\<close>

definition white_space_seqs :: "nat list list" where
  "white_space_seqs =
     [[9], [10], [11], [12], [13], [32], [0xC2, 0x85], [0xC2, 0xA0], [0xE1, 0x9A, 0x80]]
     @ map (\<lambda>n. [0xE2, 0x80, n]) [0x80 ..< 0x8B]
     @ [[0xE2, 0x80, 0xA8], [0xE2, 0x80, 0xA9], [0xE2, 0x80, 0xAF], [0xE2, 0x81, 0x9F],
        [0xE3, 0x80, 0x80]]"

definition white_len :: "string \<Rightarrow> nat" where
  "white_len s =
     (case find (\<lambda>q. take (length q) (map of_char s) = q) white_space_seqs of
        None \<Rightarrow> 0 | Some q \<Rightarrow> length q)"

fun blank :: "string \<Rightarrow> bool" where
  "blank [] = True"
| "blank (c # cs) = (case white_len (c # cs) of 0 \<Rightarrow> False | Suc n \<Rightarrow> blank (drop n cs))"

fun split_on :: "char \<Rightarrow> string \<Rightarrow> string list" where
  "split_on c [] = [[]]"
| "split_on c (x # xs) =
     (if x = c then [] # split_on c xs
      else (case split_on c xs of [] \<Rightarrow> [[x]] | p # ps \<Rightarrow> (x # p) # ps))"

lemma split_on_nonempty [simp]: "split_on c s \<noteq> []"
  by (induction s) (auto split: list.splits)

lemma split_on_no_sep [simp]: "c \<notin> set s \<Longrightarrow> split_on c s = [s]"
  by (induction s) auto

lemma split_on_sep [simp]: "c \<notin> set a \<Longrightarrow> split_on c (a @ c # b) = a # split_on c b"
  by (induction a) auto

lemma split_on_parts: "p \<in> set (split_on c s) \<Longrightarrow> c \<notin> set p"
  by (induction s arbitrary: p) (auto split: if_splits list.splits)

lemma sep_append_eq:
  "c \<notin> set a \<Longrightarrow> c \<notin> set b \<Longrightarrow> a @ c # x = b @ c # y \<longleftrightarrow> a = b \<and> x = y"
proof (induction a arbitrary: b)
  case Nil
  then show ?case by (cases b) auto
next
  case (Cons z a)
  then show ?case by (cases b) auto
qed

section \<open>Zero-padded decimals\<close>

definition dec_digit :: "nat \<Rightarrow> char" where
  "dec_digit d = char_of (48 + d)"

fun dec_string :: "nat \<Rightarrow> string" where
  "dec_string n = (if n < 10 then [dec_digit n] else dec_string (n div 10) @ [dec_digit (n mod 10)])"

declare dec_string.simps [simp del]

definition pad_zeros :: "nat \<Rightarrow> string \<Rightarrow> string" where
  "pad_zeros k s = replicate (k - length s) CHR ''0'' @ s"

definition format_020 :: "u64 \<Rightarrow> string" where
  "format_020 n = pad_zeros 20 (dec_string (unat n))"

text \<open>The fixed-width reading of the same digits, which the ordering argument recurses on.\<close>

fun dec_fixed :: "nat \<Rightarrow> nat \<Rightarrow> string" where
  "dec_fixed 0 n = []"
| "dec_fixed (Suc k) n = dec_fixed k (n div 10) @ [dec_digit (n mod 10)]"

lemma length_dec_fixed [simp]: "length (dec_fixed k n) = k"
  by (induction k arbitrary: n) auto

lemma of_char_dec_digit: "d < 10 \<Longrightarrow> of_char (dec_digit d) = 48 + d"
  by (simp add: dec_digit_def)

lemma dec_digit_less: "a < 10 \<Longrightarrow> b < 10 \<Longrightarrow> dec_digit a < dec_digit b \<longleftrightarrow> a < b"
  by (simp add: less_char_def of_char_dec_digit)

lemma dec_digit_0: "dec_digit 0 = CHR ''0''"
  by code_simp

lemma dec_fixed_0: "dec_fixed k 0 = replicate k CHR ''0''"
  by (induction k) (simp_all add: dec_digit_0 replicate_append_same)

lemma dec_string_nonempty: "dec_string n \<noteq> []"
  by (subst dec_string.simps) simp

lemma pad_zeros_dec_string:
  "n < 10 ^ Suc k \<Longrightarrow> pad_zeros (Suc k) (dec_string n) = dec_fixed (Suc k) n"
proof (induction k arbitrary: n)
  case 0
  then show ?case by (simp add: dec_string.simps [of n] pad_zeros_def)
next
  case (Suc k)
  show ?case
  proof (cases "n < 10")
    case True
    then show ?thesis
      by (simp add: dec_string.simps [of n] pad_zeros_def dec_fixed_0 dec_digit_0
          replicate_app_Cons_same)
  next
    case False
    have "n div 10 < 10 ^ Suc k" using Suc.prems by simp
    then have "pad_zeros (Suc k) (dec_string (n div 10)) = dec_fixed (Suc k) (n div 10)"
      by (rule Suc.IH)
    with False show ?thesis
      by (simp add: dec_string.simps [of n] pad_zeros_def)
  qed
qed

lemma unat_less_10_20: "unat (h :: u64) < 10 ^ 20"
proof -
  have "unat h < 2 ^ 64" using unsigned_less [of h] by simp
  then show ?thesis by (rule less_le_trans) simp
qed

lemma format_020_fixed: "format_020 h = dec_fixed 20 (unat h)"
proof -
  have "Suc 19 = 20" by simp
  with pad_zeros_dec_string [of "unat h" 19] unat_less_10_20 [of h] show ?thesis
    unfolding format_020_def by metis
qed

section \<open>The byte-wise lexicographic order\<close>

lemma lex_append_same [simp]:
  "(p @ xs :: 'a::linorder list) < p @ ys \<longleftrightarrow> xs < ys"
  "(p @ xs :: 'a::linorder list) \<le> p @ ys \<longleftrightarrow> xs \<le> ys"
  by (induction p) auto

lemma lex_snoc_less:
  fixes xs ys :: "'a::linorder list"
  assumes "length xs = length ys"
  shows "xs @ [x] < ys @ [y] \<longleftrightarrow> xs < ys \<or> xs = ys \<and> x < y"
  using assms by (induction xs ys rule: list_induct2) auto

lemma base10_less:
  fixes q q' r r' :: nat
  assumes "r < 10" "r' < 10"
  shows "q * 10 + r < q' * 10 + r' \<longleftrightarrow> q < q' \<or> q = q' \<and> r < r'"
  using assms by (cases q q' rule: linorder_cases) auto

lemma dec_fixed_less:
  "a < 10 ^ k \<Longrightarrow> b < 10 ^ k \<Longrightarrow> dec_fixed k a < dec_fixed k b \<longleftrightarrow> a < b"
proof (induction k arbitrary: a b)
  case (Suc k)
  have ab: "a div 10 < 10 ^ k" "b div 10 < 10 ^ k" using Suc.prems by simp_all
  have lt: "dec_fixed k (a div 10) < dec_fixed k (b div 10) \<longleftrightarrow> a div 10 < b div 10"
    using Suc.IH [OF ab] .
  have gt: "dec_fixed k (b div 10) < dec_fixed k (a div 10) \<longleftrightarrow> b div 10 < a div 10"
    using Suc.IH [OF ab(2) ab(1)] .
  have eq: "dec_fixed k (a div 10) = dec_fixed k (b div 10) \<longleftrightarrow> a div 10 = b div 10"
    using lt gt by (metis less_irrefl linorder_neqE_nat)
  have "a < b \<longleftrightarrow> a div 10 < b div 10 \<or> a div 10 = b div 10 \<and> a mod 10 < b mod 10"
    using base10_less [of "a mod 10" "b mod 10" "a div 10" "b div 10"] by (simp add: div_mult_mod_eq)
  with lt eq show ?case by (simp add: lex_snoc_less dec_digit_less)
qed simp

lemma format_020_less [simp]: "format_020 a < format_020 b \<longleftrightarrow> a < b"
  by (simp only: format_020_fixed dec_fixed_less [OF unat_less_10_20 unat_less_10_20] word_less_nat_alt)

lemma format_020_eq [simp]: "format_020 a = format_020 b \<longleftrightarrow> a = b"
  by (metis format_020_less less_irrefl linorder_neqE)

lemma format_020_le [simp]: "format_020 a \<le> format_020 b \<longleftrightarrow> a \<le> b"
  by (simp add: le_less)

lemma length_format_020 [simp]: "length (format_020 a) = 20"
  by (simp add: format_020_fixed)

text \<open>The strings with a common prefix form an interval, so a scan may stop at the first miss.\<close>

lemma prefix_interval:
  fixes a b c p :: "'a::linorder list"
  assumes "prefix p a" "prefix p c" "a \<le> b" "b \<le> c"
  shows "prefix p b"
  using assms
proof (induction p arbitrary: a b c)
  case (Cons x p)
  from Cons.prems(1) obtain a' where a: "a = x # a'" "prefix p a'" by (cases a) auto
  from Cons.prems(2) obtain c' where c: "c = x # c'" "prefix p c'" by (cases c) auto
  from Cons.prems(3,4) a c obtain b' where "b = x # b'" "a' \<le> b'" "b' \<le> c'"
    by (cases b) (auto dest: leD)
  with a c Cons.IH [of a' c' b'] show ?case by simp
qed simp

lemma prefix_le: "prefix p k \<Longrightarrow> p \<le> (k :: 'a::linorder list)"
  using lex_append_same(2) [of p "[]"] by (auto simp: prefix_def)

lemma takeWhile_prefix_filter:
  fixes ks :: "('k::linorder list \<times> 'v) list"
  assumes "sorted (map fst ks)" "\<forall>kv \<in> set ks. start \<le> fst kv" "prefix p start"
  shows "takeWhile (\<lambda>kv. prefix p (fst kv)) ks = filter (\<lambda>kv. prefix p (fst kv)) ks"
  using assms(1,2)
proof (induction ks)
  case (Cons kv ks)
  have "filter (\<lambda>kv. prefix p (fst kv)) ks = []" if "\<not> prefix p (fst kv)"
  proof (rule ccontr)
    assume "filter (\<lambda>kv. prefix p (fst kv)) ks \<noteq> []"
    then obtain l where l: "l \<in> set ks" "prefix p (fst l)" by (auto simp: filter_empty_conv)
    then have "start \<le> fst kv" "fst kv \<le> fst l" using Cons.prems by auto
    with l(2) assms(3) prefix_interval [of p start "fst l" "fst kv"] that show False by simp
  qed
  with Cons show ?case by auto
qed simp

lemma sorted_distinct_unique:
  "sorted xs \<Longrightarrow> distinct xs \<Longrightarrow> set xs = A \<Longrightarrow> xs = sorted_list_of_set A"
  by (metis List.finite_set sorted_list_of_set.idem_if_sorted_distinct)

section \<open>Rows with a key\<close>

text \<open>
  \<open>INSERT ... ON CONFLICT (key) DO UPDATE\<close> on a list of rows: the row with the same key is merged in
  place, otherwise the new row is added at the end.
\<close>

fun upsert_by :: "('r \<Rightarrow> 'k) \<Rightarrow> ('r \<Rightarrow> 'r) \<Rightarrow> 'r \<Rightarrow> 'r list \<Rightarrow> 'r list" where
  "upsert_by key merge row [] = [row]"
| "upsert_by key merge row (r # rs) =
     (if key r = key row then merge r # rs else r # upsert_by key merge row rs)"

lemma find_upsert_by:
  assumes "\<And>r. key (merge r) = key r"
  shows "find (\<lambda>r. key r = k) (upsert_by key merge row rs) =
    (if k = key row
     then Some (case find (\<lambda>r. key r = k) rs of None \<Rightarrow> row | Some r \<Rightarrow> merge r)
     else find (\<lambda>r. key r = k) rs)"
  by (induction rs) (auto simp: assms)

lemma keys_upsert_by:
  assumes "\<And>r. key (merge r) = key r"
  shows "map key (upsert_by key merge row rs) =
    (if key row \<in> key ` set rs then map key rs else map key rs @ [key row])"
  by (induction rs) (auto simp: assms)

lemma distinct_upsert_by:
  "(\<And>r. key (merge r) = key r) \<Longrightarrow> distinct (map key rs) \<Longrightarrow>
    distinct (map key (upsert_by key merge row rs))"
  by (auto simp: keys_upsert_by)

lemma set_upsert_by:
  "r \<in> set (upsert_by key merge row rs) \<Longrightarrow>
    r = row \<or> r \<in> set rs \<or> (\<exists>r0 \<in> set rs. key r0 = key row \<and> r = merge r0)"
  by (induction rs) (auto split: if_splits)

lemma find_SomeD: "find Q xs = Some x \<Longrightarrow> x \<in> set xs \<and> Q x"
  by (auto simp: find_Some_iff)

lemma find_key_iff:
  assumes "distinct (map key rs)"
  shows "find (\<lambda>r. key r = k) rs = Some r \<longleftrightarrow> r \<in> set rs \<and> key r = k"
  using assms by (induction rs) auto

lemma find_snoc:
  "find Q (xs @ [x]) = (case find Q xs of None \<Rightarrow> if Q x then Some x else None | Some y \<Rightarrow> Some y)"
  by (induction xs) auto

lemma find_map_rows:
  "(\<And>r. Q (f r) = Q r) \<Longrightarrow> find Q (map f rs) = map_option f (find Q rs)"
  by (induction rs) auto

lemma find_remove_key:
  "find (\<lambda>r. key r = k) (filter (\<lambda>r. key r \<noteq> k') rs) =
    (if k = k' then None else find (\<lambda>r. key r = k) rs)"
  by (induction rs) auto

end
