(* ===== verification/Msgbus_Core.thy ===== *)
theory Msgbus_Core
  imports Msgbus_Prelude
begin

text \<open>
  The domain types of \<open>crates/msgbus-core/src/lib.rs\<close>: errors, node identities and their keys,
  the validated newtypes, messages, heads, tombstones, FIFO messages and peer-sync records.
  A newtype over \<open>String\<close> is a datatype with one constructor: its field is private in Rust, but
  the derived \<open>Deserialize\<close> builds values that were never validated, so validity is a predicate
  and not part of the type. \<open>HeadId\<close> is a transparent wrapper of \<open>u64\<close> and is modelled by it.
  A \<open>BTreeMap<String, String>\<close> is a finite map. Random identifiers and clock readings, which come
  from outside the program, are arguments.
\<close>

section \<open>Errors\<close>

datatype msgbus_error =
    InvalidArgument string
  | NotFound string
  | Conflict string
  | Storage string
  | Serialization string

type_synonym 'a res = "msgbus_error + 'a"

fun error_to_string :: "msgbus_error \<Rightarrow> string" where
  "error_to_string (InvalidArgument m) = ''invalid argument: '' @ m"
| "error_to_string (NotFound m) = ''not found: '' @ m"
| "error_to_string (Conflict m) = ''conflict: '' @ m"
| "error_to_string (Storage m) = ''storage error: '' @ m"
| "error_to_string (Serialization m) = ''serialization error: '' @ m"

section \<open>Validated strings\<close>

definition validate_part :: "string \<Rightarrow> string \<Rightarrow> unit res" where
  "validate_part name value =
     (if blank value then Inl (InvalidArgument (name @ '' is empty''))
      else if CHR 0x00 \<in> set value then Inl (InvalidArgument (name @ '' contains NUL byte''))
      else Inr ())"

definition valid_part :: "string \<Rightarrow> bool" where
  "valid_part value \<longleftrightarrow> \<not> blank value \<and> CHR 0x00 \<notin> set value"

lemma validate_part_Inr [simp]: "validate_part name value = Inr u \<longleftrightarrow> valid_part value"
  by (auto simp: validate_part_def valid_part_def)

lemma validate_part_valid [simp]: "valid_part value \<Longrightarrow> validate_part name value = Inr ()"
  by simp

lemma validate_part_cases:
  "validate_part name value = (if valid_part value then Inr () else
     Inl (InvalidArgument (name @ (if blank value then '' is empty'' else '' contains NUL byte''))))"
  by (auto simp: validate_part_def valid_part_def)

section \<open>Node identities\<close>

record node_id =
  tenant_id :: string
  bl_name :: string
  device_id :: string

definition node_validate :: "node_id \<Rightarrow> unit res" where
  "node_validate n =
     and_then (validate_part ''tenant_id'' (tenant_id n)) (\<lambda>_.
     and_then (validate_part ''bl_name'' (bl_name n)) (\<lambda>_.
     validate_part ''device_id'' (device_id n)))"

definition node_new :: "string \<Rightarrow> string \<Rightarrow> string \<Rightarrow> node_id res" where
  "node_new t b d =
     (let node = \<lparr>tenant_id = t, bl_name = b, device_id = d\<rparr>
      in and_then (node_validate node) (\<lambda>_. Inr node))"

definition node_is_empty :: "node_id \<Rightarrow> bool" where
  "node_is_empty n \<longleftrightarrow> tenant_id n = [] \<and> bl_name n = [] \<and> device_id n = []"

definition node_key :: "node_id \<Rightarrow> string" where
  "node_key n = tenant_id n @ ''/'' @ bl_name n @ ''/'' @ device_id n"

definition node_from_key :: "string \<Rightarrow> node_id res" where
  "node_from_key value =
     (case split_on CHR ''/'' value of
        [] \<Rightarrow> Inl (InvalidArgument ''node key is missing tenant_id'')
      | [t] \<Rightarrow> Inl (InvalidArgument ''node key is missing bl_name'')
      | [t, b] \<Rightarrow> Inl (InvalidArgument ''node key is missing device_id'')
      | [t, b, d] \<Rightarrow> node_new t b d
      | _ \<Rightarrow> Inl (InvalidArgument ''node key must have tenant_id/bl_name/device_id''))"

definition valid_node :: "node_id \<Rightarrow> bool" where
  "valid_node n \<longleftrightarrow> valid_part (tenant_id n) \<and> valid_part (bl_name n) \<and> valid_part (device_id n)"

definition slash_free :: "node_id \<Rightarrow> bool" where
  "slash_free n \<longleftrightarrow>
     CHR ''/'' \<notin> set (tenant_id n) \<and> CHR ''/'' \<notin> set (bl_name n) \<and> CHR ''/'' \<notin> set (device_id n)"

lemma node_validate_Inr [simp]: "node_validate n = Inr u \<longleftrightarrow> valid_node n"
  by (auto simp: node_validate_def valid_node_def and_then_eq_Inr)

lemma node_new_Inr:
  "node_new t b d = Inr n \<longleftrightarrow>
     n = \<lparr>tenant_id = t, bl_name = b, device_id = d\<rparr> \<and> valid_node n"
  by (auto simp: node_new_def Let_def and_then_eq_Inr)

lemma node_new_of_fields: "valid_node n \<Longrightarrow> node_new (tenant_id n) (bl_name n) (device_id n) = Inr n"
  by (simp add: node_new_Inr)

lemma node_key_inj: "slash_free m \<Longrightarrow> slash_free n \<Longrightarrow> node_key m = node_key n \<longleftrightarrow> m = n"
  unfolding node_key_def slash_free_def
  by (auto simp: sep_append_eq)

lemma concat_split_on: "concat (map (\<lambda>p. c # p) (split_on c v)) = c # v"
  by (induction v) (auto split: list.splits)

lemma split_join3:
  "split_on CHR ''/'' v = [t, b, d] \<Longrightarrow> v = t @ ''/'' @ b @ ''/'' @ d"
  using concat_split_on [of "CHR ''/''" v] by simp

lemma node_from_key_Inr: "node_from_key k = Inr n \<longleftrightarrow> k = node_key n \<and> valid_node n \<and> slash_free n"
proof
  assume "node_from_key k = Inr n"
  then obtain t b d where k: "split_on CHR ''/'' k = [t, b, d]" "node_new t b d = Inr n"
    by (auto simp: node_from_key_def split: list.splits)
  from split_on_parts [of _ "CHR ''/''" k] k(1) have "CHR ''/'' \<notin> set t" "CHR ''/'' \<notin> set b" "CHR ''/'' \<notin> set d" by auto
  with split_join3 [OF k(1)] k(2) show "k = node_key n \<and> valid_node n \<and> slash_free n"
    by (auto simp: node_key_def slash_free_def node_new_Inr)
next
  assume "k = node_key n \<and> valid_node n \<and> slash_free n"
  then show "node_from_key k = Inr n"
    by (simp add: node_from_key_def node_key_def slash_free_def node_new_of_fields)
qed

section \<open>Topics, message identifiers, queues and heads\<close>

datatype topic = Topic (topic_str: string)
datatype message_id = MessageId (message_id_str: string)
datatype queue_name = QueueName (queue_str: string)

type_synonym head_id = u64
type_synonym headers = "(string, string) fmap"

definition topic_new :: "string \<Rightarrow> topic res" where
  "topic_new value = and_then (validate_part ''topic'' value) (\<lambda>_. Inr (Topic value))"

definition message_id_new :: "string \<Rightarrow> message_id" where
  "message_id_new uuid = MessageId uuid"

definition message_id_from_string :: "string \<Rightarrow> message_id res" where
  "message_id_from_string value =
     and_then (validate_part ''message_id'' value) (\<lambda>_. Inr (MessageId value))"

definition queue_name_new :: "string \<Rightarrow> queue_name res" where
  "queue_name_new value = and_then (validate_part ''queue'' value) (\<lambda>_. Inr (QueueName value))"

definition head_next :: "head_id \<Rightarrow> head_id" where
  "head_next h = saturating_add h 1"

lemma topic_new_Inr [simp]: "topic_new v = Inr t \<longleftrightarrow> t = Topic v \<and> valid_part v"
  by (auto simp: topic_new_def and_then_eq_Inr)

lemma message_id_from_string_Inr [simp]:
  "message_id_from_string v = Inr t \<longleftrightarrow> t = MessageId v \<and> valid_part v"
  by (auto simp: message_id_from_string_def and_then_eq_Inr)

lemma queue_name_new_Inr [simp]: "queue_name_new v = Inr t \<longleftrightarrow> t = QueueName v \<and> valid_part v"
  by (auto simp: queue_name_new_def and_then_eq_Inr)

section \<open>Messages\<close>

record new_message =
  nm_id :: message_id
  nm_topic :: topic
  nm_origin :: node_id
  nm_payload :: bytes
  nm_headers :: headers

definition new_message_new ::
  "string \<Rightarrow> topic \<Rightarrow> node_id \<Rightarrow> bytes \<Rightarrow> headers \<Rightarrow> new_message" where
  "new_message_new uuid t o' p h =
     \<lparr>nm_id = message_id_new uuid, nm_topic = t, nm_origin = o', nm_payload = p, nm_headers = h\<rparr>"

record stored_message =
  sm_id :: message_id
  sm_topic :: topic
  sm_origin :: node_id
  sm_head_id :: head_id
  sm_payload :: bytes
  sm_headers :: headers
  sm_created_at_ms :: u64
  sm_deleted :: bool

record topic_head =
  th_topic :: topic
  th_origin :: node_id
  th_head_id :: head_id

record peer_sync_state =
  ps_peer :: string
  ps_topic :: "topic option"
  ps_origin :: "node_id option"
  ps_local_head :: head_id
  ps_remote_head :: head_id
  ps_last_synced_head :: head_id
  ps_last_attempt_at_ms :: u64
  ps_last_success_at_ms :: u64
  ps_consecutive_failures :: u32
  ps_last_error :: "string option"

datatype replicate_result = Inserted | AlreadyPresent

record fetch_query =
  fq_topic :: topic
  fq_origin :: node_id
  fq_from_head_id :: head_id
  fq_limit :: u32

record tombstone_range =
  tr_topic :: topic
  tr_origin :: node_id
  tr_from_head_id :: head_id
  tr_to_head_id :: head_id
  tr_created_at_ms :: u64

record new_fifo_message =
  nf_id :: message_id
  nf_queue :: queue_name
  nf_topic :: topic
  nf_source :: node_id
  nf_target :: node_id
  nf_payload :: bytes
  nf_headers :: headers

definition new_fifo_message_new ::
  "string \<Rightarrow> queue_name \<Rightarrow> topic \<Rightarrow> node_id \<Rightarrow> node_id \<Rightarrow> bytes \<Rightarrow> headers \<Rightarrow> new_fifo_message" where
  "new_fifo_message_new uuid q t src tgt p h =
     \<lparr>nf_id = message_id_new uuid, nf_queue = q, nf_topic = t, nf_source = src, nf_target = tgt,
      nf_payload = p, nf_headers = h\<rparr>"

record stored_fifo_message =
  sf_id :: message_id
  sf_queue :: queue_name
  sf_topic :: topic
  sf_source :: node_id
  sf_target :: node_id
  sf_payload :: bytes
  sf_headers :: headers
  sf_created_at_ms :: u64
  sf_sequence :: u64
  sf_attempts :: u32

definition now_ms :: "nat option \<Rightarrow> u64" where
  "now_ms since_epoch = (case since_epoch of None \<Rightarrow> 0 | Some ms \<Rightarrow> of_nat ms)"

end
