(* ===== verification/Store_Interface.thy ===== *)
theory Store_Interface
  imports Msgbus_Core
begin

text \<open>
  The storage interface: the trait \<open>MsgbusStore\<close> of \<open>crates/msgbus-core/src/lib.rs\<close> as a record of
  operations over a state type, the environment one call runs in (clock readings, a fresh UUID and
  the failures of the storage engine), the abstract store a backend is seen as, and the contract
  that every backend promises to the server. The contract is a locale; the SQLite and the redb
  backend discharge it in their own theories.
\<close>

section \<open>The environment of a call\<close>

text \<open>
  A call reads the clock and may draw a UUID. Every interaction with the storage engine that the
  source guards with \<open>map_err(storage_err)?\<close> has a number within its call, and \<open>fault\<close> tells which
  of them fail and with which message.
\<close>

record call_env =
  clock :: "nat \<Rightarrow> nat option"
  uuid :: string
  fault :: "nat \<Rightarrow> string option"

definition now :: "call_env \<Rightarrow> nat \<Rightarrow> u64" where
  "now w i = now_ms (clock w i)"

definition storage_err :: "string \<Rightarrow> msgbus_error" where
  "storage_err m = Storage m"

definition io_then :: "call_env \<Rightarrow> nat \<Rightarrow> 'a res \<Rightarrow> 'a res" where
  "io_then w i k = (case fault w i of None \<Rightarrow> k | Some m \<Rightarrow> Inl (storage_err m))"

definition no_fault :: "call_env \<Rightarrow> bool" where
  "no_fault w \<longleftrightarrow> (\<forall>i. fault w i = None)"

text \<open>
  A write transaction works on a copy of the tables: leaving it with an error, or without a
  commit, drops the copy.
\<close>

definition transact :: "'s \<Rightarrow> ('s \<times> 'a) res \<Rightarrow> 's \<times> 'a res" where
  "transact s r = (case r of Inl e \<Rightarrow> (s, Inl e) | Inr (s', a) \<Rightarrow> (s', Inr a))"

lemma io_then_no_fault [simp]: "no_fault w \<Longrightarrow> io_then w i k = k"
  by (simp add: io_then_def no_fault_def)

lemma io_then_eq_Inr: "io_then w i k = Inr a \<longleftrightarrow> fault w i = None \<and> k = Inr a"
  by (simp add: io_then_def split: option.split)

lemma transact_eq_Inr: "transact s r = (s', Inr a) \<longleftrightarrow> r = Inr (s', a)"
  by (auto simp: transact_def split: sum.splits)

lemma transact_eq_Inl: "transact s r = (s', Inl e) \<longleftrightarrow> r = Inl e \<and> s' = s"
  by (auto simp: transact_def split: sum.splits)

lemma transact_simps [simp]:
  "transact s (Inl e) = (s, Inl e)" "transact s (Inr (s', a)) = (s', Inr a)"
  by (simp_all add: transact_def)

section \<open>The trait\<close>

record 's msgbus_store =
  st_append_message :: "call_env \<Rightarrow> new_message \<Rightarrow> 's \<Rightarrow> 's \<times> stored_message res"
  st_fetch_messages :: "call_env \<Rightarrow> fetch_query \<Rightarrow> 's \<Rightarrow> stored_message list res"
  st_get_head :: "call_env \<Rightarrow> topic \<Rightarrow> node_id \<Rightarrow> 's \<Rightarrow> head_id option res"
  st_list_heads :: "call_env \<Rightarrow> 's \<Rightarrow> topic_head list res"
  st_put_replicated_message :: "call_env \<Rightarrow> stored_message \<Rightarrow> 's \<Rightarrow> 's \<times> replicate_result res"
  st_tombstone_range :: "call_env \<Rightarrow> topic \<Rightarrow> node_id \<Rightarrow> head_id \<Rightarrow> head_id \<Rightarrow> 's \<Rightarrow> 's \<times> u64 res"
  st_tombstone_range_with_marker ::
    "call_env \<Rightarrow> topic \<Rightarrow> node_id \<Rightarrow> head_id \<Rightarrow> head_id \<Rightarrow> topic \<Rightarrow> node_id \<Rightarrow> 's
      \<Rightarrow> 's \<times> (u64 \<times> stored_message) res"
  st_enqueue_fifo :: "call_env \<Rightarrow> new_fifo_message \<Rightarrow> 's \<Rightarrow> 's \<times> stored_fifo_message res"
  st_peek_fifo :: "call_env \<Rightarrow> queue_name \<Rightarrow> 's \<Rightarrow> stored_fifo_message option res"
  st_ack_fifo :: "call_env \<Rightarrow> queue_name \<Rightarrow> message_id \<Rightarrow> 's \<Rightarrow> 's \<times> bool res"
  st_reject_fifo :: "call_env \<Rightarrow> queue_name \<Rightarrow> message_id \<Rightarrow> 's \<Rightarrow> 's \<times> bool res"
  st_record_peer_sync_state :: "call_env \<Rightarrow> peer_sync_state \<Rightarrow> 's \<Rightarrow> 's \<times> unit res"
  st_list_peer_sync_states :: "call_env \<Rightarrow> 's \<Rightarrow> peer_sync_state list res"

section \<open>The abstract store\<close>

type_synonym log_key = "string \<times> string"
type_synonym peer_key = "string \<times> string option \<times> string option"

record store_view =
  v_msg :: "log_key \<times> u64 \<rightharpoonup> stored_message"
  v_head :: "log_key \<rightharpoonup> u64"
  v_tomb :: "log_key \<Rightarrow> (u64 \<times> u64) set"
  v_fifo :: "string \<times> u64 \<rightharpoonup> stored_fifo_message"
  v_seq :: "string \<rightharpoonup> u64"
  v_peer :: "peer_key \<rightharpoonup> peer_sync_state"

definition log_of :: "topic \<Rightarrow> node_id \<Rightarrow> log_key" where
  "log_of t n = (topic_str t, node_key n)"

definition head_of :: "store_view \<Rightarrow> log_key \<Rightarrow> u64" where
  "head_of v l = (case v_head v l of None \<Rightarrow> 0 | Some h \<Rightarrow> h)"

definition covered :: "store_view \<Rightarrow> log_key \<Rightarrow> u64 \<Rightarrow> bool" where
  "covered v l h \<longleftrightarrow> (\<exists>(a, b) \<in> v_tomb v l. a \<le> h \<and> h \<le> b)"

definition heads_from :: "store_view \<Rightarrow> log_key \<Rightarrow> u64 \<Rightarrow> u64 set" where
  "heads_from v l from = {h. from \<le> h \<and> v_msg v (l, h) \<noteq> None}"

abbreviation message_log :: "stored_message \<Rightarrow> log_key" where
  "message_log m \<equiv> log_of (sm_topic m) (sm_origin m)"

definition page_size :: "u32 \<Rightarrow> nat" where
  "page_size limit = (if limit = 0 then 100 else min (unat limit) 10000)"

definition mark_deleted :: "store_view \<Rightarrow> stored_message \<Rightarrow> stored_message" where
  "mark_deleted v m = (if covered v (message_log m) (sm_head_id m) then m\<lparr>sm_deleted := True\<rparr> else m)"

definition same_except_deleted :: "stored_message \<Rightarrow> stored_message \<Rightarrow> bool" where
  "same_except_deleted l r \<longleftrightarrow> l\<lparr>sm_deleted := True\<rparr> = r\<lparr>sm_deleted := True\<rparr>"

subsection \<open>Abstract operations\<close>

definition stamp :: "new_message \<Rightarrow> u64 \<Rightarrow> u64 \<Rightarrow> stored_message" where
  "stamp m h at =
     \<lparr>sm_id = nm_id m, sm_topic = nm_topic m, sm_origin = nm_origin m, sm_head_id = h,
      sm_payload = nm_payload m, sm_headers = nm_headers m, sm_created_at_ms = at,
      sm_deleted = False\<rparr>"

definition spec_append :: "store_view \<Rightarrow> new_message \<Rightarrow> u64 \<Rightarrow> store_view \<times> stored_message" where
  "spec_append v m at =
     (let l = log_of (nm_topic m) (nm_origin m);
          next = saturating_add (head_of v l) 1;
          stored = mark_deleted v (stamp m next at)
      in (v\<lparr>v_head := (v_head v)(l \<mapsto> next), v_msg := (v_msg v)((l, next) \<mapsto> stored)\<rparr>, stored))"

definition spec_fetch :: "store_view \<Rightarrow> log_key \<Rightarrow> u64 \<Rightarrow> u32 \<Rightarrow> stored_message list" where
  "spec_fetch v l from limit =
     map (\<lambda>h. the (v_msg v (l, h))) (take (page_size limit) (sorted_list_of_set (heads_from v l from)))"

definition head_entry :: "store_view \<Rightarrow> log_key \<Rightarrow> topic_head" where
  "head_entry v l =
     (let h = the (v_head v l); m = the (v_msg v (l, h))
      in \<lparr>th_topic = sm_topic m, th_origin = sm_origin m, th_head_id = h\<rparr>)"

definition spec_put :: "store_view \<Rightarrow> stored_message \<Rightarrow> (store_view \<times> replicate_result) option" where
  "spec_put v incoming =
     (let m = mark_deleted v incoming; l = message_log m; h = sm_head_id m in
      if h = 0 then None
      else case v_msg v (l, h) of
        Some old \<Rightarrow>
          (if old = m then Some (v, AlreadyPresent)
           else if same_except_deleted old m \<and> sm_deleted m
           then Some (v\<lparr>v_msg := (v_msg v)((l, h) \<mapsto> m)\<rparr>, Inserted)
           else None)
      | None \<Rightarrow>
          (if saturating_add (head_of v l) 1 < h then None
           else Some (v\<lparr>v_msg := (v_msg v)((l, h) \<mapsto> m),
                        v_head := (if head_of v l < h then (v_head v)(l \<mapsto> h) else v_head v)\<rparr>,
                      Inserted)))"

definition tombstone_hits :: "store_view \<Rightarrow> log_key \<Rightarrow> u64 \<Rightarrow> u64 \<Rightarrow> u64 set" where
  "tombstone_hits v l a b =
     {h. a \<le> h \<and> h \<le> b \<and> (\<exists>m. v_msg v (l, h) = Some m \<and> \<not> sm_deleted m)}"

definition delete_between :: "log_key \<Rightarrow> u64 \<Rightarrow> u64 \<Rightarrow> (log_key \<times> u64 \<rightharpoonup> stored_message)
    \<Rightarrow> (log_key \<times> u64 \<rightharpoonup> stored_message)" where
  "delete_between l a b msgs =
     (\<lambda>(l', h). if l' = l \<and> a \<le> h \<and> h \<le> b
        then map_option (\<lambda>m. m\<lparr>sm_deleted := True\<rparr>) (msgs (l', h)) else msgs (l', h))"

definition spec_tombstone :: "store_view \<Rightarrow> log_key \<Rightarrow> u64 \<Rightarrow> u64 \<Rightarrow> store_view \<times> u64" where
  "spec_tombstone v l a b =
     (v\<lparr>v_msg := delete_between l a b (v_msg v), v_tomb := (v_tomb v)(l := insert (a, b) (v_tomb v l))\<rparr>,
      of_nat (card (tombstone_hits v l a b)))"

definition enqueued :: "new_fifo_message \<Rightarrow> u64 \<Rightarrow> u64 \<Rightarrow> stored_fifo_message" where
  "enqueued m n at =
     \<lparr>sf_id = nf_id m, sf_queue = nf_queue m, sf_topic = nf_topic m, sf_source = nf_source m,
      sf_target = nf_target m, sf_payload = nf_payload m, sf_headers = nf_headers m,
      sf_created_at_ms = at, sf_sequence = n, sf_attempts = 0\<rparr>"

definition seq_of :: "store_view \<Rightarrow> string \<Rightarrow> u64" where
  "seq_of v q = (case v_seq v q of None \<Rightarrow> 0 | Some n \<Rightarrow> n)"

definition spec_enqueue ::
  "store_view \<Rightarrow> new_fifo_message \<Rightarrow> u64 \<Rightarrow> store_view \<times> stored_fifo_message" where
  "spec_enqueue v m at =
     (let q = queue_str (nf_queue m); n = saturating_add (seq_of v q) 1; s = enqueued m n at
      in (v\<lparr>v_seq := (v_seq v)(q \<mapsto> n), v_fifo := (v_fifo v)((q, n) \<mapsto> s)\<rparr>, s))"

definition pending :: "store_view \<Rightarrow> string \<Rightarrow> u64 set" where
  "pending v q = {n. v_fifo v (q, n) \<noteq> None}"

definition spec_front :: "store_view \<Rightarrow> string \<Rightarrow> stored_fifo_message option" where
  "spec_front v q = (if pending v q = {} then None else v_fifo v (q, Min (pending v q)))"

definition spec_ack :: "store_view \<Rightarrow> string \<Rightarrow> message_id \<Rightarrow> store_view \<times> bool" where
  "spec_ack v q i =
     (case spec_front v q of
        Some m \<Rightarrow> (if sf_id m = i then (v\<lparr>v_fifo := (v_fifo v)((q, sf_sequence m) := None)\<rparr>, True)
                   else (v, False))
      | None \<Rightarrow> (v, False))"

definition spec_reject :: "store_view \<Rightarrow> string \<Rightarrow> message_id \<Rightarrow> store_view \<times> bool" where
  "spec_reject v q i =
     (case spec_front v q of
        Some m \<Rightarrow>
          (if sf_id m = i
           then (v\<lparr>v_fifo := (v_fifo v)((q, sf_sequence m) \<mapsto>
                     m\<lparr>sf_attempts := saturating_add (sf_attempts m) 1\<rparr>)\<rparr>, True)
           else (v, False))
      | None \<Rightarrow> (v, False))"

definition peer_key_of :: "peer_sync_state \<Rightarrow> peer_key" where
  "peer_key_of st = (ps_peer st, map_option topic_str (ps_topic st), map_option node_key (ps_origin st))"

definition carry_failures :: "peer_sync_state option \<Rightarrow> peer_sync_state \<Rightarrow> peer_sync_state" where
  "carry_failures prev st =
     (if ps_last_error st = None then st\<lparr>ps_consecutive_failures := 0\<rparr>
      else case prev of
        None \<Rightarrow> st\<lparr>ps_consecutive_failures := 1\<rparr>
      | Some p \<Rightarrow>
          st\<lparr>ps_last_success_at_ms :=
               (if ps_last_success_at_ms st = 0 then ps_last_success_at_ms p else ps_last_success_at_ms st),
             ps_consecutive_failures := saturating_add (ps_consecutive_failures p) 1\<rparr>)"

definition spec_record_peer :: "store_view \<Rightarrow> peer_sync_state \<Rightarrow> store_view" where
  "spec_record_peer v st =
     v\<lparr>v_peer := (v_peer v)(peer_key_of st \<mapsto> carry_failures (v_peer v (peer_key_of st)) st)\<rparr>"

section \<open>Well-formed stores\<close>

text \<open>
  What the operations keep true: a message sits in the log its topic and origin name and at its
  own head, every log is the gapless interval from 1 to its head, whatever a tombstone covers is
  marked deleted, and a queued message sits at its own sequence number, which was handed out.
\<close>

definition messages_placed :: "store_view \<Rightarrow> bool" where
  "messages_placed v \<longleftrightarrow>
     (\<forall>l h m. v_msg v (l, h) = Some m \<longrightarrow> message_log m = l \<and> sm_head_id m = h)"

definition gapless :: "store_view \<Rightarrow> bool" where
  "gapless v \<longleftrightarrow> (\<forall>l h. v_msg v (l, h) \<noteq> None \<longleftrightarrow> 1 \<le> h \<and> h \<le> head_of v l)"

definition heads_positive :: "store_view \<Rightarrow> bool" where
  "heads_positive v \<longleftrightarrow> (\<forall>l h. v_head v l = Some h \<longrightarrow> 1 \<le> h)"

definition tombstones_applied :: "store_view \<Rightarrow> bool" where
  "tombstones_applied v \<longleftrightarrow>
     (\<forall>l h m. v_msg v (l, h) = Some m \<longrightarrow> covered v l h \<longrightarrow> sm_deleted m)"

definition fifo_placed :: "store_view \<Rightarrow> bool" where
  "fifo_placed v \<longleftrightarrow>
     (\<forall>q n m. v_fifo v (q, n) = Some m \<longrightarrow>
        queue_str (sf_queue m) = q \<and> sf_sequence m = n \<and> 1 \<le> n \<and> n \<le> seq_of v q)"

definition peers_placed :: "store_view \<Rightarrow> bool" where
  "peers_placed v \<longleftrightarrow> (\<forall>k st. v_peer v k = Some st \<longrightarrow> peer_key_of st = k)"

definition wf_view :: "store_view \<Rightarrow> bool" where
  "wf_view v \<longleftrightarrow> messages_placed v \<and> gapless v \<and> heads_positive v \<and> tombstones_applied v
     \<and> fifo_placed v \<and> peers_placed v"

lemmas wf_view_defs = wf_view_def messages_placed_def gapless_def heads_positive_def
  tombstones_applied_def fifo_placed_def peers_placed_def

definition empty_view :: store_view where
  "empty_view = \<lparr>v_msg = Map.empty, v_head = Map.empty, v_tomb = (\<lambda>_. {}), v_fifo = Map.empty,
                 v_seq = Map.empty, v_peer = Map.empty\<rparr>"

end
