(* ===== verification/Store_Laws.thy ===== *)
theory Store_Laws
  imports Store_Interface
begin

text \<open>
  Facts about the abstract store: every abstract operation keeps it well-formed, what a fetch
  returns on a gapless log, and the order in which a queue is served. The last section states the
  contract of the trait \<open>MsgbusStore\<close> as a locale over the operations, a representation invariant
  and an abstraction to the abstract store.
\<close>

declare split_paired_All [simp del] split_paired_Ex [simp del]

section \<open>Logs\<close>

lemma word_1_le_iff: "(1 :: u64) \<le> h \<longleftrightarrow> h \<noteq> 0"
  by (metis word_le_0_iff word_less_1 linorder_not_less)

lemma covered_upd_simps [simp]:
  "covered (v\<lparr>v_msg := x\<rparr>) l h = covered v l h"
  "covered (v\<lparr>v_head := y\<rparr>) l h = covered v l h"
  "covered (v\<lparr>v_fifo := f\<rparr>) l h = covered v l h"
  "covered (v\<lparr>v_seq := q\<rparr>) l h = covered v l h"
  "covered (v\<lparr>v_peer := p\<rparr>) l h = covered v l h"
  by (simp_all add: covered_def)

lemma head_of_upd_simps [simp]:
  "head_of (v\<lparr>v_msg := x\<rparr>) l = head_of v l"
  "head_of (v\<lparr>v_tomb := t\<rparr>) l = head_of v l"
  "head_of (v\<lparr>v_fifo := f\<rparr>) l = head_of v l"
  "head_of (v\<lparr>v_seq := q\<rparr>) l = head_of v l"
  "head_of (v\<lparr>v_peer := p\<rparr>) l = head_of v l"
  "head_of (v\<lparr>v_head := (v_head v)(k \<mapsto> h)\<rparr>) l = (if l = k then h else head_of v l)"
  by (simp_all add: head_of_def)

lemma seq_of_upd_simps [simp]:
  "seq_of (v\<lparr>v_msg := x\<rparr>) q = seq_of v q"
  "seq_of (v\<lparr>v_head := y\<rparr>) q = seq_of v q"
  "seq_of (v\<lparr>v_tomb := t\<rparr>) q = seq_of v q"
  "seq_of (v\<lparr>v_fifo := f\<rparr>) q = seq_of v q"
  "seq_of (v\<lparr>v_peer := p\<rparr>) q = seq_of v q"
  "seq_of (v\<lparr>v_seq := (v_seq v)(k \<mapsto> n)\<rparr>) q = (if q = k then n else seq_of v q)"
  by (simp_all add: seq_of_def)

lemma mark_deleted_simps [simp]:
  "sm_id (mark_deleted v m) = sm_id m" "sm_topic (mark_deleted v m) = sm_topic m"
  "sm_origin (mark_deleted v m) = sm_origin m" "sm_head_id (mark_deleted v m) = sm_head_id m"
  "sm_payload (mark_deleted v m) = sm_payload m" "sm_headers (mark_deleted v m) = sm_headers m"
  "sm_created_at_ms (mark_deleted v m) = sm_created_at_ms m"
  "sm_deleted (mark_deleted v m) \<longleftrightarrow> sm_deleted m \<or> covered v (message_log m) (sm_head_id m)"
  by (simp_all add: mark_deleted_def)

lemma stamp_simps [simp]:
  "sm_id (stamp m h at) = nm_id m" "sm_topic (stamp m h at) = nm_topic m"
  "sm_origin (stamp m h at) = nm_origin m" "sm_head_id (stamp m h at) = h"
  "sm_payload (stamp m h at) = nm_payload m" "sm_headers (stamp m h at) = nm_headers m"
  "sm_created_at_ms (stamp m h at) = at" "\<not> sm_deleted (stamp m h at)"
  by (simp_all add: stamp_def)

lemma wf_view_empty [simp]: "wf_view empty_view"
  by (auto simp: wf_view_defs empty_view_def head_of_def word_1_le_iff)

lemma wf_view_placed: "wf_view v \<Longrightarrow> v_msg v (l, h) = Some m \<Longrightarrow> message_log m = l \<and> sm_head_id m = h"
  by (auto simp: wf_view_defs)

lemma wf_view_gapless: "wf_view v \<Longrightarrow> v_msg v (l, h) \<noteq> None \<longleftrightarrow> 1 \<le> h \<and> h \<le> head_of v l"
  unfolding wf_view_def gapless_def by blast

lemma wf_view_none: "wf_view v \<Longrightarrow> v_msg v (l, h) = None \<longleftrightarrow> h = 0 \<or> head_of v l < h"
  using wf_view_gapless [of v l h] by (auto simp: word_1_le_iff)

lemma wf_view_head_stored: "wf_view v \<Longrightarrow> v_head v l = Some h \<Longrightarrow> \<exists>m. v_msg v (l, h) = Some m"
  using wf_view_gapless [of v l h] by (auto simp: wf_view_defs head_of_def)

lemma wf_view_covered: "wf_view v \<Longrightarrow> v_msg v (l, h) = Some m \<Longrightarrow> covered v l h \<Longrightarrow> sm_deleted m"
  unfolding wf_view_def tombstones_applied_def by blast

lemma wf_view_fifo: "wf_view v \<Longrightarrow> v_fifo v (q, n) = Some m \<Longrightarrow>
    queue_str (sf_queue m) = q \<and> sf_sequence m = n \<and> 1 \<le> n \<and> n \<le> seq_of v q"
  unfolding wf_view_def fifo_placed_def by blast

lemma wf_view_head_next:
  assumes "wf_view v" "h \<noteq> 0" "v_msg v (l, h) = None" "\<not> saturating_add (head_of v l) 1 < h"
  shows "head_of v l \<noteq> - 1" "h = saturating_add (head_of v l) 1" "head_of v l < h"
proof -
  have less: "head_of v l < h" using assms(1-3) by (simp add: wf_view_none)
  show ne: "head_of v l \<noteq> - 1"
    using less by (metis word_order.extremum_strict)
  from less assms(4) show "h = saturating_add (head_of v l) 1"
    using le_saturating_add_1_iff [OF ne, of h] by auto
  show "head_of v l < h" by (rule less)
qed

subsection \<open>The operations keep stores well-formed\<close>

lemma wf_view_extend:
  assumes wf: "wf_view v" and m: "message_log m = l" "sm_head_id m = n" and n: "n \<noteq> 0"
    and step: "\<And>h. 1 \<le> h \<and> h \<le> n \<longleftrightarrow> h = n \<or> 1 \<le> h \<and> h \<le> head_of v l"
    and cov: "covered v l n \<Longrightarrow> sm_deleted m"
  shows "wf_view (v\<lparr>v_head := (v_head v)(l \<mapsto> n), v_msg := (v_msg v)((l, n) \<mapsto> m)\<rparr>)" (is "wf_view ?v")
proof -
  have msg: "v_msg ?v (k, h) = (if k = l \<and> h = n then Some m else v_msg v (k, h))" for k h by simp
  have head: "head_of ?v k = (if k = l then n else head_of v k)" for k by (simp add: head_of_def)
  have "messages_placed ?v" using wf_view_placed [OF wf] m unfolding messages_placed_def msg by auto
  moreover have "gapless ?v"
    unfolding gapless_def msg head using wf_view_gapless [OF wf] step by auto
  moreover have "tombstones_applied ?v"
    unfolding tombstones_applied_def msg using wf_view_covered [OF wf] cov by auto
  moreover have "heads_positive ?v"
    using wf n unfolding wf_view_def heads_positive_def by (auto simp: word_1_le_iff)
  ultimately show ?thesis
    using wf unfolding wf_view_def fifo_placed_def peers_placed_def by simp
qed

lemma spec_append_wf:
  assumes "wf_view v"
  shows "wf_view (fst (spec_append v m at))"
proof -
  let ?l = "log_of (nm_topic m) (nm_origin m)"
  let ?n = "saturating_add (head_of v ?l) 1"
  have step: "1 \<le> h \<and> h \<le> ?n \<longleftrightarrow> h = ?n \<or> 1 \<le> h \<and> h \<le> head_of v ?l" for h
  proof (cases "head_of v ?l = - 1")
    case True
    then show ?thesis by (auto simp: saturating_add_1 word_1_le_iff)
  next
    case False
    from le_saturating_add_1_iff [OF this, of h] show ?thesis by (auto simp: word_1_le_iff)
  qed
  show ?thesis
    unfolding spec_append_def Let_def fst_conv
    by (rule wf_view_extend [OF assms]) (simp_all add: step)
qed

lemma wf_view_replace:
  assumes wf: "wf_view v" and old: "v_msg v (l, h) \<noteq> None"
    and m: "message_log m = l" "sm_head_id m = h" "sm_deleted m"
  shows "wf_view (v\<lparr>v_msg := (v_msg v)((l, h) \<mapsto> m)\<rparr>)" (is "wf_view ?v")
proof -
  have msg: "v_msg ?v (k, g) = (if k = l \<and> g = h then Some m else v_msg v (k, g))" for k g by simp
  have "messages_placed ?v" using wf_view_placed [OF wf] m unfolding messages_placed_def msg by auto
  moreover have "gapless ?v"
    unfolding gapless_def msg using wf_view_gapless [OF wf] old by auto
  moreover have "tombstones_applied ?v"
    unfolding tombstones_applied_def msg using wf_view_covered [OF wf] m(3) by auto
  ultimately show ?thesis
    using wf unfolding wf_view_def heads_positive_def fifo_placed_def peers_placed_def by simp
qed

lemma same_except_deleted_replace:
  "same_except_deleted old m \<Longrightarrow> sm_deleted m \<Longrightarrow> old\<lparr>sm_deleted := True\<rparr> = m"
  by (cases m) (simp add: same_except_deleted_def)

lemma spec_put_old:
  "v_msg v (message_log m, sm_head_id m) = Some old \<Longrightarrow> sm_head_id m \<noteq> 0 \<Longrightarrow>
   spec_put v m =
    (if old = mark_deleted v m then Some (v, AlreadyPresent)
     else if same_except_deleted old (mark_deleted v m) \<and> sm_deleted (mark_deleted v m)
     then Some (v\<lparr>v_msg := (v_msg v)((message_log m, sm_head_id m) \<mapsto> mark_deleted v m)\<rparr>, Inserted)
     else None)"
  by (auto simp: spec_put_def Let_def)

lemma spec_put_new:
  "v_msg v (message_log m, sm_head_id m) = None \<Longrightarrow> sm_head_id m \<noteq> 0 \<Longrightarrow>
   spec_put v m =
    (if saturating_add (head_of v (message_log m)) 1 < sm_head_id m then None
     else Some (v\<lparr>v_msg := (v_msg v)((message_log m, sm_head_id m) \<mapsto> mark_deleted v m),
                  v_head := (if head_of v (message_log m) < sm_head_id m
                             then (v_head v)(message_log m \<mapsto> sm_head_id m) else v_head v)\<rparr>, Inserted))"
  by (simp add: spec_put_def Let_def)

lemma spec_put_wf:
  assumes "wf_view v" "spec_put v m = Some (v', r)"
  shows "wf_view v'"
proof (cases "v_msg v (message_log m, sm_head_id m)")
  case None
  have h: "sm_head_id m \<noteq> 0" and gap: "\<not> saturating_add (head_of v (message_log m)) 1 < sm_head_id m"
    using assms(2) None by (auto simp: spec_put_def Let_def split: if_splits)
  note nxt = wf_view_head_next [OF assms(1) h None gap]
  have v': "v' = v\<lparr>v_head := (v_head v)(message_log m \<mapsto> sm_head_id m),
                   v_msg := (v_msg v)((message_log m, sm_head_id m) \<mapsto> mark_deleted v m)\<rparr>"
    using assms(2) None h gap nxt(3) by (auto simp: spec_put_def Let_def)
  have step: "1 \<le> k \<and> k \<le> sm_head_id m \<longleftrightarrow> k = sm_head_id m \<or> 1 \<le> k \<and> k \<le> head_of v (message_log m)"
    for k
    using le_saturating_add_1_iff [OF nxt(1), of k] nxt(2) h by (auto simp: word_1_le_iff)
  show ?thesis
    unfolding v' by (rule wf_view_extend [OF assms(1)]) (simp_all add: h step)
next
  case (Some old)
  from assms(2) Some consider "v' = v"
    | "v' = v\<lparr>v_msg := (v_msg v)((message_log m, sm_head_id m) \<mapsto> mark_deleted v m)\<rparr>"
      "sm_deleted (mark_deleted v m)"
    by (auto simp: spec_put_def Let_def split: if_splits)
  then show ?thesis
  proof cases
    case 2
    show ?thesis
      unfolding 2(1) by (rule wf_view_replace [OF assms(1)]) (use Some 2(2) in simp_all)
  qed (use assms in simp)
qed

lemma spec_tombstone_wf:
  assumes "wf_view v"
  shows "wf_view (fst (spec_tombstone v l a b))"
proof -
  let ?v = "fst (spec_tombstone v l a b)"
  have dom: "v_msg ?v (k, h) = None \<longleftrightarrow> v_msg v (k, h) = None" for k h
    by (simp add: spec_tombstone_def delete_between_def)
  have head: "head_of ?v = head_of v" "v_head ?v = v_head v"
    by (auto simp: spec_tombstone_def)
  have cov: "covered ?v k h \<longleftrightarrow> covered v k h \<or> k = l \<and> a \<le> h \<and> h \<le> b" for k h
    by (auto simp: spec_tombstone_def covered_def)
  have msg: "\<exists>m0. v_msg v (k, h) = Some m0 \<and> m = (if k = l \<and> a \<le> h \<and> h \<le> b then m0\<lparr>sm_deleted := True\<rparr> else m0)"
    if "v_msg ?v (k, h) = Some m" for k h m
    using that by (auto simp: spec_tombstone_def delete_between_def split: if_splits)
  have rest: "v_fifo ?v = v_fifo v" "seq_of ?v = seq_of v" "v_peer ?v = v_peer v"
    by (auto simp: spec_tombstone_def)
  have "messages_placed ?v"
    using wf_view_placed [OF assms] unfolding messages_placed_def by (fastforce dest!: msg split: if_splits)
  moreover have "gapless ?v"
    using assms dom head unfolding wf_view_def gapless_def by simp
  moreover have "tombstones_applied ?v"
    using wf_view_covered [OF assms] unfolding tombstones_applied_def
    by (fastforce dest!: msg simp: cov split: if_splits)
  ultimately show ?thesis
    using assms unfolding wf_view_def heads_positive_def fifo_placed_def peers_placed_def
    by (simp add: head rest)
qed

lemma spec_enqueue_wf:
  assumes "wf_view v"
  shows "wf_view (fst (spec_enqueue v m at))"
proof -
  have le: "n \<le> seq_of v q \<Longrightarrow> n \<le> saturating_add (seq_of v q) 1" for n q
    using saturating_add_1_le order_trans by blast
  show ?thesis
    using assms unfolding wf_view_defs spec_enqueue_def Let_def
    by (auto simp: enqueued_def word_1_le_iff le)
qed

lemma finite_u64 [simp]: "finite (A :: u64 set)"
  by (rule finite_subset [OF subset_UNIV finite])

lemma spec_front_Some:
  assumes "wf_view v" "spec_front v q = Some m"
  shows "v_fifo v (q, sf_sequence m) = Some m" "\<forall>n \<in> pending v q. sf_sequence m \<le> n"
    "queue_str (sf_queue m) = q"
proof -
  have ne: "pending v q \<noteq> {}" and m: "v_fifo v (q, Min (pending v q)) = Some m"
    using assms(2) by (auto simp: spec_front_def split: if_splits)
  have s: "sf_sequence m = Min (pending v q)" using wf_view_fifo [OF assms(1) m] by simp
  show "v_fifo v (q, sf_sequence m) = Some m" using m s by simp
  show "\<forall>n \<in> pending v q. sf_sequence m \<le> n" by (simp add: s)
  show "queue_str (sf_queue m) = q" using wf_view_fifo [OF assms(1) m] by simp
qed

lemma spec_front_None: "spec_front v q = None \<longleftrightarrow> pending v q = {}"
proof (cases "pending v q = {}")
  case False
  then have "Min (pending v q) \<in> pending v q" by simp
  with False show ?thesis by (auto simp: spec_front_def pending_def)
qed (simp add: spec_front_def)

lemma spec_ack_wf: "wf_view v \<Longrightarrow> wf_view (fst (spec_ack v q i))"
  unfolding spec_ack_def wf_view_defs by (auto split: option.splits)

lemma spec_reject_wf:
  assumes "wf_view v"
  shows "wf_view (fst (spec_reject v q i))"
proof (cases "spec_front v q")
  case (Some m)
  from spec_front_Some(1) [OF assms Some] wf_view_fifo [OF assms]
  have "queue_str (sf_queue m) = q \<and> 1 \<le> sf_sequence m \<and> sf_sequence m \<le> seq_of v q" by blast
  with Some assms show ?thesis
    unfolding spec_reject_def wf_view_defs by auto
qed (use assms in \<open>simp add: spec_reject_def\<close>)

lemma carry_failures_key [simp]: "peer_key_of (carry_failures p st) = peer_key_of st"
  by (simp add: carry_failures_def peer_key_of_def split: option.split)

lemma spec_record_peer_wf: "wf_view v \<Longrightarrow> wf_view (spec_record_peer v st)"
  unfolding spec_record_peer_def wf_view_defs by auto

section \<open>The contract of a store\<close>

definition valid_new :: "new_message \<Rightarrow> bool" where
  "valid_new m \<longleftrightarrow> valid_part (message_id_str (nm_id m)) \<and> valid_part (topic_str (nm_topic m))"

definition valid_stored :: "stored_message \<Rightarrow> bool" where
  "valid_stored m \<longleftrightarrow> valid_part (message_id_str (sm_id m)) \<and> valid_part (topic_str (sm_topic m))"

definition valid_fifo :: "new_fifo_message \<Rightarrow> bool" where
  "valid_fifo m \<longleftrightarrow> valid_part (message_id_str (nf_id m)) \<and> valid_part (queue_str (nf_queue m))
     \<and> valid_part (topic_str (nf_topic m))"

definition scoped_peer :: "peer_sync_state \<Rightarrow> bool" where
  "scoped_peer st \<longleftrightarrow> (ps_topic st = None \<longleftrightarrow> ps_origin st = None)"

text \<open>
  Whatever the engine does, an operation that reports success did what the abstract operation
  does, and a write that reports an error changed nothing. The side conditions are the type
  invariants of the Rust newtypes. \<open>encode_tombstone\<close> is how a backend
  writes the payload of a marker, which the server reads back.
\<close>

locale msgbus_contract =
  fixes st :: "'s msgbus_store"
    and inv :: "'s \<Rightarrow> bool"
    and view :: "'s \<Rightarrow> store_view"
    and encode_tombstone :: "tombstone_range \<Rightarrow> string + bytes"
  assumes inv_wf: "inv s \<Longrightarrow> wf_view (view s)"
    and append_ok: "inv s \<Longrightarrow> valid_new m \<Longrightarrow> st_append_message st w m s = (s', Inr r) \<Longrightarrow>
      inv s' \<and> spec_append (view s) m (now w 0) = (view s', r)"
    and append_err: "st_append_message st w m s = (s', Inl e) \<Longrightarrow> s' = s"
    and fetch_ok: "inv s \<Longrightarrow> st_fetch_messages st w q s = Inr ms \<Longrightarrow>
      ms = spec_fetch (view s) (log_of (fq_topic q) (fq_origin q)) (fq_from_head_id q) (fq_limit q)"
    and get_head_ok: "inv s \<Longrightarrow> st_get_head st w t n s = Inr ho \<Longrightarrow> ho = v_head (view s) (log_of t n)"
    and list_heads_ok: "inv s \<Longrightarrow> st_list_heads st w s = Inr hs \<Longrightarrow>
      \<exists>ls. distinct ls \<and> set ls = dom (v_head (view s)) \<and> hs = map (head_entry (view s)) ls"
    and put_ok: "inv s \<Longrightarrow> valid_stored sm \<Longrightarrow> st_put_replicated_message st w sm s = (s', Inr p) \<Longrightarrow>
      inv s' \<and> spec_put (view s) sm = Some (view s', p)"
    and put_err: "st_put_replicated_message st w sm s = (s', Inl e) \<Longrightarrow> s' = s"
    and tombstone_ok: "inv s \<Longrightarrow> st_tombstone_range st w t n a b s = (s', Inr c) \<Longrightarrow>
      a \<le> b \<and> inv s' \<and> spec_tombstone (view s) (log_of t n) a b = (view s', c)"
    and tombstone_err: "st_tombstone_range st w t n a b s = (s', Inl e) \<Longrightarrow> s' = s"
    and marker_ok: "inv s \<Longrightarrow> valid_part (topic_str mt) \<Longrightarrow> valid_part (uuid w) \<Longrightarrow>
      st_tombstone_range_with_marker st w t n a b mt mn s = (s', Inr (c, marker)) \<Longrightarrow>
      a \<le> b \<and> inv s' \<and>
      (\<exists>payload v. encode_tombstone
           \<lparr>tr_topic = t, tr_origin = n, tr_from_head_id = a, tr_to_head_id = b, tr_created_at_ms = now w 0\<rparr> = Inr payload
         \<and> spec_tombstone (view s) (log_of t n) a b = (v, c)
         \<and> spec_append v (new_message_new (uuid w) mt mn payload fmempty) (now w 1) = (view s', marker))"
    and marker_err: "st_tombstone_range_with_marker st w t n a b mt mn s = (s', Inl e) \<Longrightarrow> s' = s"
    and enqueue_ok: "inv s \<Longrightarrow> valid_fifo f \<Longrightarrow> st_enqueue_fifo st w f s = (s', Inr g) \<Longrightarrow>
      inv s' \<and> spec_enqueue (view s) f (now w 0) = (view s', g)"
    and enqueue_err: "st_enqueue_fifo st w f s = (s', Inl e) \<Longrightarrow> s' = s"
    and peek_ok: "inv s \<Longrightarrow> st_peek_fifo st w q' s = Inr x \<Longrightarrow> x = spec_front (view s) (queue_str q')"
    and ack_ok: "inv s \<Longrightarrow> st_ack_fifo st w q' i s = (s', Inr d) \<Longrightarrow>
      inv s' \<and> spec_ack (view s) (queue_str q') i = (view s', d)"
    and ack_err: "st_ack_fifo st w q' i s = (s', Inl e) \<Longrightarrow> s' = s"
    and reject_ok: "inv s \<Longrightarrow> st_reject_fifo st w q' i s = (s', Inr d) \<Longrightarrow>
      inv s' \<and> spec_reject (view s) (queue_str q') i = (view s', d)"
    and reject_err: "st_reject_fifo st w q' i s = (s', Inl e) \<Longrightarrow> s' = s"
    and record_ok: "inv s \<Longrightarrow> scoped_peer ps \<Longrightarrow> st_record_peer_sync_state st w ps s = (s', Inr u) \<Longrightarrow>
      inv s' \<and> spec_record_peer (view s) ps = view s'"
    and record_err: "st_record_peer_sync_state st w ps s = (s', Inl e) \<Longrightarrow> s' = s"
    and list_peers_ok: "inv s \<Longrightarrow> st_list_peer_sync_states st w s = Inr y \<Longrightarrow>
      \<exists>ks. distinct ks \<and> set ks = dom (v_peer (view s)) \<and> y = map (\<lambda>k. the (v_peer (view s) k)) ks"

end
