(* ===== verification/Store_Run.thy ===== *)
theory Store_Run
  imports Store_Laws "HOL-Library.Multiset"
begin

text \<open>
  Sequences of calls on a store. A \<open>store_call\<close> is one method call of the trait \<open>MsgbusStore\<close> with
  its arguments, \<open>perform\<close> dispatches it to the operation of a given backend and \<open>run\<close> performs a
  list of calls one after the other, each in its own environment. The abstract counterpart,
  \<open>spec_call\<close> and \<open>spec_run\<close>, says which replies and which next store each call may have. Inside the
  contract locale every run of a backend is a run of the abstract store, so the lemmas about the
  abstract operations hold of both backends.
\<close>

section \<open>Calls and replies\<close>

datatype store_call =
    AppendMessage new_message
  | FetchMessages fetch_query
  | GetHead topic node_id
  | ListHeads
  | PutReplicatedMessage stored_message
  | TombstoneRange topic node_id head_id head_id
  | TombstoneRangeWithMarker topic node_id head_id head_id topic node_id
  | EnqueueFifo new_fifo_message
  | PeekFifo queue_name
  | AckFifo queue_name message_id
  | RejectFifo queue_name message_id
  | RecordPeerSyncState peer_sync_state
  | ListPeerSyncStates

datatype reply =
    RMessage stored_message
  | RMessages "stored_message list"
  | RHead "head_id option"
  | RHeads "topic_head list"
  | RReplicated replicate_result
  | RCount u64
  | RMarked u64 stored_message
  | RFifo stored_fifo_message
  | RFront "stored_fifo_message option"
  | RFlag bool
  | RUnit
  | RPeers "peer_sync_state list"

definition map_ok :: "('a \<Rightarrow> 'b) \<Rightarrow> 's \<times> ('e + 'a) \<Rightarrow> 's \<times> ('e + 'b)" where
  "map_ok f sr = (fst sr, and_then (snd sr) (\<lambda>a. Inr (f a)))"

lemma map_ok_eq_Inr: "map_ok f sr = (s, Inr r) \<longleftrightarrow> (\<exists>a. sr = (s, Inr a) \<and> r = f a)"
  by (cases sr) (auto simp: map_ok_def and_then_eq_Inr)

lemma map_ok_eq_Inl: "map_ok f sr = (s, Inl e) \<longleftrightarrow> sr = (s, Inl e)"
  by (cases sr) (auto simp: map_ok_def and_then_eq_Inl)

fun perform :: "'s msgbus_store \<Rightarrow> call_env \<Rightarrow> store_call \<Rightarrow> 's \<Rightarrow> 's \<times> reply res" where
  "perform st w (AppendMessage m) s = map_ok RMessage (st_append_message st w m s)"
| "perform st w (FetchMessages q) s = map_ok RMessages (s, st_fetch_messages st w q s)"
| "perform st w (GetHead t n) s = map_ok RHead (s, st_get_head st w t n s)"
| "perform st w ListHeads s = map_ok RHeads (s, st_list_heads st w s)"
| "perform st w (PutReplicatedMessage m) s = map_ok RReplicated (st_put_replicated_message st w m s)"
| "perform st w (TombstoneRange t n a b) s = map_ok RCount (st_tombstone_range st w t n a b s)"
| "perform st w (TombstoneRangeWithMarker t n a b mt mn) s =
     map_ok (\<lambda>(c, m). RMarked c m) (st_tombstone_range_with_marker st w t n a b mt mn s)"
| "perform st w (EnqueueFifo m) s = map_ok RFifo (st_enqueue_fifo st w m s)"
| "perform st w (PeekFifo q) s = map_ok RFront (s, st_peek_fifo st w q s)"
| "perform st w (AckFifo q i) s = map_ok RFlag (st_ack_fifo st w q i s)"
| "perform st w (RejectFifo q i) s = map_ok RFlag (st_reject_fifo st w q i s)"
| "perform st w (RecordPeerSyncState p) s = map_ok (\<lambda>_. RUnit) (st_record_peer_sync_state st w p s)"
| "perform st w ListPeerSyncStates s = map_ok RPeers (s, st_list_peer_sync_states st w s)"

fun run :: "'s msgbus_store \<Rightarrow> (call_env \<times> store_call) list \<Rightarrow> 's \<Rightarrow> 's \<times> reply res list" where
  "run st [] s = (s, [])"
| "run st ((w, c) # cs) s =
     (let (s1, r) = perform st w c s; (s2, rs) = run st cs s1 in (s2, r # rs))"

text \<open>The arguments the server passes: validated names, and peer states scoped as the source scopes them.\<close>

fun valid_call :: "call_env \<Rightarrow> store_call \<Rightarrow> bool" where
  "valid_call w (AppendMessage m) \<longleftrightarrow> valid_new m"
| "valid_call w (PutReplicatedMessage m) \<longleftrightarrow> valid_stored m"
| "valid_call w (TombstoneRangeWithMarker t n a b mt mn) \<longleftrightarrow> valid_part (topic_str mt) \<and> valid_part (uuid w)"
| "valid_call w (EnqueueFifo m) \<longleftrightarrow> valid_fifo m"
| "valid_call w (RecordPeerSyncState p) \<longleftrightarrow> scoped_peer p"
| "valid_call w _ \<longleftrightarrow> True"

section \<open>The abstract run\<close>

type_synonym tombstone_encoder = "tombstone_range \<Rightarrow> string + bytes"

definition spec_marker ::
  "tombstone_encoder \<Rightarrow> call_env \<Rightarrow> store_view \<Rightarrow> topic \<Rightarrow> node_id \<Rightarrow> u64 \<Rightarrow> u64 \<Rightarrow> topic \<Rightarrow> node_id
     \<Rightarrow> (store_view \<times> u64 \<times> stored_message) option" where
  "spec_marker enc w v t n a b mt mn =
     (case enc \<lparr>tr_topic = t, tr_origin = n, tr_from_head_id = a, tr_to_head_id = b, tr_created_at_ms = now w 0\<rparr> of
        Inl _ \<Rightarrow> None
      | Inr payload \<Rightarrow>
          (let (v1, c) = spec_tombstone v (log_of t n) a b;
               (v2, m) = spec_append v1 (new_message_new (uuid w) mt mn payload fmempty) (now w 1)
           in Some (v2, c, m)))"

fun spec_call :: "tombstone_encoder \<Rightarrow> call_env \<Rightarrow> store_call \<Rightarrow> store_view \<Rightarrow> reply \<Rightarrow> store_view \<Rightarrow> bool" where
  "spec_call enc w (AppendMessage m) v r v' \<longleftrightarrow> (\<exists>x. spec_append v m (now w 0) = (v', x) \<and> r = RMessage x)"
| "spec_call enc w (FetchMessages q) v r v' \<longleftrightarrow>
     v' = v \<and> r = RMessages (spec_fetch v (log_of (fq_topic q) (fq_origin q)) (fq_from_head_id q) (fq_limit q))"
| "spec_call enc w (GetHead t n) v r v' \<longleftrightarrow> v' = v \<and> r = RHead (v_head v (log_of t n))"
| "spec_call enc w ListHeads v r v' \<longleftrightarrow>
     v' = v \<and> (\<exists>ls. distinct ls \<and> set ls = dom (v_head v) \<and> r = RHeads (map (head_entry v) ls))"
| "spec_call enc w (PutReplicatedMessage m) v r v' \<longleftrightarrow> (\<exists>x. spec_put v m = Some (v', x) \<and> r = RReplicated x)"
| "spec_call enc w (TombstoneRange t n a b) v r v' \<longleftrightarrow>
     a \<le> b \<and> (\<exists>c. spec_tombstone v (log_of t n) a b = (v', c) \<and> r = RCount c)"
| "spec_call enc w (TombstoneRangeWithMarker t n a b mt mn) v r v' \<longleftrightarrow>
     a \<le> b \<and> (\<exists>c m. spec_marker enc w v t n a b mt mn = Some (v', c, m) \<and> r = RMarked c m)"
| "spec_call enc w (EnqueueFifo m) v r v' \<longleftrightarrow> (\<exists>x. spec_enqueue v m (now w 0) = (v', x) \<and> r = RFifo x)"
| "spec_call enc w (PeekFifo q) v r v' \<longleftrightarrow> v' = v \<and> r = RFront (spec_front v (queue_str q))"
| "spec_call enc w (AckFifo q i) v r v' \<longleftrightarrow> (\<exists>d. spec_ack v (queue_str q) i = (v', d) \<and> r = RFlag d)"
| "spec_call enc w (RejectFifo q i) v r v' \<longleftrightarrow> (\<exists>d. spec_reject v (queue_str q) i = (v', d) \<and> r = RFlag d)"
| "spec_call enc w (RecordPeerSyncState p) v r v' \<longleftrightarrow> v' = spec_record_peer v p \<and> r = RUnit"
| "spec_call enc w ListPeerSyncStates v r v' \<longleftrightarrow>
     v' = v \<and> (\<exists>ks. distinct ks \<and> set ks = dom (v_peer v) \<and> r = RPeers (map (\<lambda>k. the (v_peer v k)) ks))"

text \<open>A call that fails leaves the abstract store alone.\<close>

fun spec_run :: "tombstone_encoder \<Rightarrow> (call_env \<times> store_call) list \<Rightarrow> store_view \<Rightarrow> reply res list \<Rightarrow> store_view \<Rightarrow> bool" where
  "spec_run enc [] v rs v' \<longleftrightarrow> rs = [] \<and> v' = v"
| "spec_run enc ((w, c) # cs) v rs v' \<longleftrightarrow>
     (case rs of
        [] \<Rightarrow> False
      | Inl e # rs \<Rightarrow> spec_run enc cs v rs v'
      | Inr r # rs \<Rightarrow> (\<exists>v1. spec_call enc w c v r v1 \<and> spec_run enc cs v1 rs v'))"

section \<open>Every backend run is an abstract run\<close>

context msgbus_contract
begin

lemma perform_ok:
  assumes "inv s" "valid_call w c" "perform st w c s = (s', Inr r)"
  shows "inv s' \<and> spec_call encode_tombstone w c (view s) r (view s')"
  using assms
  by (cases c)
    (auto simp: map_ok_eq_Inr spec_marker_def split: prod.splits
      dest: append_ok fetch_ok get_head_ok list_heads_ok put_ok tombstone_ok marker_ok enqueue_ok peek_ok
        ack_ok reject_ok record_ok list_peers_ok)

lemma perform_err: "perform st w c s = (s', Inl e) \<Longrightarrow> s' = s"
  by (cases c)
    (auto simp: map_ok_eq_Inl
      dest: append_err put_err tombstone_err marker_err enqueue_err ack_err reject_err record_err)

lemma run_refines:
  assumes "inv s" "list_all (\<lambda>(w, c). valid_call w c) cs" "run st cs s = (s', rs)"
  shows "inv s' \<and> spec_run encode_tombstone cs (view s) rs (view s')"
  using assms
proof (induction cs arbitrary: s rs)
  case (Cons wc cs)
  obtain w c where wc: "wc = (w, c)" by force
  obtain s1 r where p: "perform st w c s = (s1, r)" by force
  obtain rs' where r: "run st cs s1 = (s', rs')" "rs = r # rs'"
    using Cons.prems(3) p wc by (auto split: prod.splits)
  show ?case
  proof (cases r)
    case (Inl e)
    then have "s1 = s" using p perform_err by blast
    then show ?thesis using Cons.IH [of s rs'] Cons.prems r wc Inl by simp
  next
    case (Inr a)
    have "inv s1 \<and> spec_call encode_tombstone w c (view s) a (view s1)"
      using perform_ok [of s w c s1 a] Cons.prems p wc Inr by simp
    then show ?thesis using Cons.IH [of s1 rs'] Cons.prems r wc Inr by auto
  qed
qed simp

end

section \<open>Progress\<close>

text \<open>
  The contract so far says what a successful call did. A live store also succeeds: when nothing in
  the environment fails and the arguments fit the store, the call returns a value. What fits is
  the backend's own limit and is given as a predicate on the abstract store.
\<close>

locale live_contract = msgbus_contract +
  fixes fits :: "call_env \<Rightarrow> store_call \<Rightarrow> store_view \<Rightarrow> bool"
  assumes progress: "inv s \<Longrightarrow> no_fault w \<Longrightarrow> valid_call w c \<Longrightarrow> fits w c (view s) \<Longrightarrow>
    \<exists>s' r. perform st w c s = (s', Inr r)"
begin

lemma perform_total:
  assumes "inv s" "no_fault w" "valid_call w c" "fits w c (view s)"
  shows "\<exists>s' r. perform st w c s = (s', Inr r) \<and> inv s' \<and> spec_call encode_tombstone w c (view s) r (view s')"
  using progress [OF assms] perform_ok [OF assms(1,3)] by blast

end

section \<open>Agreement\<close>

text \<open>
  Two stores that satisfy the contract answer alike. Listings come in the order of the backend, so
  they are compared as bags.
\<close>

fun same_reply :: "reply \<Rightarrow> reply \<Rightarrow> bool" where
  "same_reply (RHeads xs) (RHeads ys) \<longleftrightarrow> mset xs = mset ys"
| "same_reply (RPeers xs) (RPeers ys) \<longleftrightarrow> mset xs = mset ys"
| "same_reply x y \<longleftrightarrow> x = y"

lemma mset_listing:
  assumes "distinct xs" "distinct ys" "set xs = set ys"
  shows "mset (map f xs) = mset (map f ys)"
  using assms by (simp add: set_eq_iff_mset_eq_distinct)

lemma spec_call_determined:
  assumes "spec_call enc w c v r v1" "spec_call enc w c v r' v1'"
  shows "v1 = v1' \<and> same_reply r r'"
proof (cases c)
  case ListHeads
  with assms obtain ls ls' where "distinct ls" "set ls = dom (v_head v)" "r = RHeads (map (head_entry v) ls)"
    "distinct ls'" "set ls' = dom (v_head v)" "r' = RHeads (map (head_entry v) ls')" "v1 = v" "v1' = v" by auto
  with mset_listing [of ls ls'] show ?thesis by simp
next
  case ListPeerSyncStates
  with assms obtain ks ks' where "distinct ks" "set ks = dom (v_peer v)" "r = RPeers (map (\<lambda>k. the (v_peer v k)) ks)"
    "distinct ks'" "set ks' = dom (v_peer v)" "r' = RPeers (map (\<lambda>k. the (v_peer v k)) ks')" "v1 = v" "v1' = v" by auto
  with mset_listing [of ks ks'] show ?thesis by simp
qed (use assms in auto)

lemma spec_run_determined:
  assumes "spec_run enc cs v (map Inr rs) v1" "spec_run enc cs v (map Inr rs') v1'"
  shows "v1 = v1' \<and> list_all2 same_reply rs rs'"
  using assms
proof (induction cs arbitrary: v rs rs')
  case (Cons wc cs)
  obtain w c where wc: "wc = (w, c)" by force
  from Cons.prems(1) wc obtain r rs1 u where r: "rs = r # rs1" "spec_call enc w c v r u" "spec_run enc cs u (map Inr rs1) v1"
    by (cases rs) auto
  from Cons.prems(2) wc obtain r' rs1' u' where r': "rs' = r' # rs1'" "spec_call enc w c v r' u'" "spec_run enc cs u' (map Inr rs1') v1'"
    by (cases rs') auto
  from spec_call_determined [OF r(2) r'(2)] Cons.IH r r' show ?case by auto
qed simp

end
