(* ===== verification/Serde_Interface.thy ===== *)
theory Serde_Interface
  imports Msgbus_Core
begin

text \<open>
  The JSON library \<open>serde_json\<close> is not part of the repository. Its entry points, at the types the
  stores and the server use them with, are a record of functions that the models take as an
  argument: serialising gives bytes or an error text, deserialising reads bytes back. The locale
  states the documented round trip of derived \<open>Serialize\<close>/\<open>Deserialize\<close> instances: a value of one
  of these types serialises, and reading the bytes back gives the value. A JSON text kept in a
  \<open>TEXT\<close> column is modelled by its bytes.
\<close>

record serde =
  ser_node :: "node_id \<Rightarrow> string + bytes"
  de_node :: "bytes \<Rightarrow> string + node_id"
  ser_headers :: "headers \<Rightarrow> string + bytes"
  de_headers :: "bytes \<Rightarrow> string + headers"
  ser_message :: "stored_message \<Rightarrow> string + bytes"
  de_message :: "bytes \<Rightarrow> string + stored_message"
  ser_fifo :: "stored_fifo_message \<Rightarrow> string + bytes"
  de_fifo :: "bytes \<Rightarrow> string + stored_fifo_message"
  ser_tombstone :: "tombstone_range \<Rightarrow> string + bytes"
  de_tombstone :: "bytes \<Rightarrow> string + tombstone_range"
  ser_peer :: "peer_sync_state \<Rightarrow> string + bytes"
  de_peer :: "bytes \<Rightarrow> string + peer_sync_state"

definition round_trips :: "('a \<Rightarrow> string + bytes) \<Rightarrow> (bytes \<Rightarrow> string + 'a) \<Rightarrow> bool" where
  "round_trips ser de \<longleftrightarrow> (\<forall>x. \<exists>b. ser x = Inr b \<and> de b = Inr x)"

lemma round_tripsD: "round_trips ser de \<Longrightarrow> ser x = Inr b \<Longrightarrow> de b = Inr x"
  by (auto simp: round_trips_def dest: spec [of _ x])

lemma round_tripsE:
  assumes "round_trips ser de"
  obtains b where "ser x = Inr b" "de b = Inr x"
  using assms by (auto simp: round_trips_def)

locale serde_codec =
  fixes S :: serde
  assumes node_json: "round_trips (ser_node S) (de_node S)"
    and headers_json: "round_trips (ser_headers S) (de_headers S)"
    and message_json: "round_trips (ser_message S) (de_message S)"
    and fifo_json: "round_trips (ser_fifo S) (de_fifo S)"
    and tombstone_json: "round_trips (ser_tombstone S) (de_tombstone S)"
    and peer_json: "round_trips (ser_peer S) (de_peer S)"

end
