(* ===== verification/Sqlite_Store.thy ===== *)
theory Sqlite_Store
  imports Store_Interface Serde_Interface
begin

text \<open>
  The SQLite backend, \<open>crates/msgbus-store-sqlite/src/lib.rs\<close>. A table is the list of its rows in
  insertion order, with the columns of the schema in \<open>initialize\<close>; an \<open>INTEGER\<close> column holds an
  \<open>i64\<close>, here an \<open>int\<close>. Each SQL statement of the source is the list function it denotes
  (\<open>WHERE\<close> is \<open>filter\<close>, \<open>ORDER BY\<close> a stable sort, \<open>LIMIT\<close> is \<open>take\<close>, \<open>UPDATE\<close> is \<open>map\<close>), the
  primary keys and unique indexes are checked on insertion, and a transaction runs on a copy that
  is dropped on error. Interactions with the engine are numbered in the order of the source within
  one call, so that any of them can fail.
\<close>

section \<open>Schema\<close>

record heads_row =
  h_topic :: string
  h_origin_key :: string
  h_head_id :: int

record messages_row =
  m_topic :: string
  m_origin_key :: string
  m_origin_json :: bytes
  m_head_id :: int
  m_id :: string
  m_payload :: bytes
  m_headers_json :: bytes
  m_created_at_ms :: int
  m_deleted :: bool

record tombstones_row =
  t_topic :: string
  t_origin_key :: string
  t_from_head_id :: int
  t_to_head_id :: int
  t_created_at_ms :: int
  t_range_json :: bytes

record fifo_sequences_row =
  s_queue :: string
  s_sequence :: int

record fifo_messages_row =
  f_queue :: string
  f_sequence :: int
  f_id :: string
  f_topic :: string
  f_source_json :: bytes
  f_target_json :: bytes
  f_payload :: bytes
  f_headers_json :: bytes
  f_created_at_ms :: int
  f_attempts :: int

record peer_sync_states_row =
  p_peer :: string
  p_topic :: string
  p_origin_key :: string
  p_state_json :: bytes

record sqlite_db =
  heads :: "heads_row list"
  messages :: "messages_row list"
  tombstones :: "tombstones_row list"
  fifo_sequences :: "fifo_sequences_row list"
  fifo_messages :: "fifo_messages_row list"
  peer_sync_states :: "peer_sync_states_row list"

text \<open>
  What the backend takes from libraries: the JSON codec, and the texts rusqlite and SQLite report
  for a failed conversion, an integer out of range and a violated uniqueness constraint.
\<close>

record sqlite_params =
  sq_serde :: serde
  sq_conversion_text :: "string \<Rightarrow> string"
  sq_range_text :: "int \<Rightarrow> string"
  sq_unique_text :: string

section \<open>Conversions\<close>

definition u64_to_i64 :: "u64 \<Rightarrow> int res" where
  "u64_to_i64 value =
     (if uint value < 2 ^ 63 then Inr (uint value)
      else Inl (InvalidArgument (dec_string (unat value) @ '' exceeds i64'')))"

definition int_to_string :: "int \<Rightarrow> string" where
  "int_to_string i = (if i < 0 then ''-'' @ dec_string (nat (- i)) else dec_string (nat i))"

definition i64_to_u64 :: "int \<Rightarrow> u64 res" where
  "i64_to_u64 value =
     (if 0 \<le> value then Inr (word_of_int value)
      else Inl (Storage (''negative integer stored in sqlite: '' @ int_to_string value)))"

definition sqlite_effective_limit :: "u32 \<Rightarrow> nat" where
  "sqlite_effective_limit limit = (if limit = 0 then 100 else min (unat limit) 10000)"

definition encode_json :: "('a \<Rightarrow> string + bytes) \<Rightarrow> 'a \<Rightarrow> bytes res" where
  "encode_json ser value = map_err Serialization (ser value)"

definition decode_json :: "(bytes \<Rightarrow> string + 'a) \<Rightarrow> bytes \<Rightarrow> 'a res" where
  "decode_json de value = map_err Serialization (de value)"

definition sql_from_msgbus :: "sqlite_params \<Rightarrow> 'a res \<Rightarrow> string + 'a" where
  "sql_from_msgbus P r = map_err (\<lambda>e. sq_conversion_text P (error_to_string e)) r"

definition row_u32 :: "sqlite_params \<Rightarrow> int \<Rightarrow> string + u32" where
  "row_u32 P v = (if 0 \<le> v \<and> v < 2 ^ 32 then Inr (word_of_int v) else Inl (sq_range_text P v))"

definition row_to_message :: "sqlite_params \<Rightarrow> messages_row \<Rightarrow> string + stored_message" where
  "row_to_message P row =
     and_then (sql_from_msgbus P (i64_to_u64 (m_head_id row))) (\<lambda>head_id.
     and_then (sql_from_msgbus P (i64_to_u64 (m_created_at_ms row))) (\<lambda>created_at_ms.
     and_then (sql_from_msgbus P (message_id_from_string (m_id row))) (\<lambda>id.
     and_then (sql_from_msgbus P (topic_new (m_topic row))) (\<lambda>topic.
     and_then (sql_from_msgbus P (decode_json (de_node (sq_serde P)) (m_origin_json row))) (\<lambda>origin.
     and_then (sql_from_msgbus P (decode_json (de_headers (sq_serde P)) (m_headers_json row))) (\<lambda>headers.
     Inr \<lparr>sm_id = id, sm_topic = topic, sm_origin = origin, sm_head_id = head_id,
          sm_payload = m_payload row, sm_headers = headers, sm_created_at_ms = created_at_ms,
          sm_deleted = m_deleted row\<rparr>))))))"

definition row_to_fifo :: "sqlite_params \<Rightarrow> fifo_messages_row \<Rightarrow> string + stored_fifo_message" where
  "row_to_fifo P row =
     and_then (sql_from_msgbus P (i64_to_u64 (f_sequence row))) (\<lambda>sequence.
     and_then (sql_from_msgbus P (i64_to_u64 (f_created_at_ms row))) (\<lambda>created_at_ms.
     and_then (row_u32 P (f_attempts row)) (\<lambda>attempts.
     and_then (sql_from_msgbus P (message_id_from_string (f_id row))) (\<lambda>id.
     and_then (sql_from_msgbus P (queue_name_new (f_queue row))) (\<lambda>queue.
     and_then (sql_from_msgbus P (topic_new (f_topic row))) (\<lambda>topic.
     and_then (sql_from_msgbus P (decode_json (de_node (sq_serde P)) (f_source_json row))) (\<lambda>source.
     and_then (sql_from_msgbus P (decode_json (de_node (sq_serde P)) (f_target_json row))) (\<lambda>target.
     and_then (sql_from_msgbus P (decode_json (de_headers (sq_serde P)) (f_headers_json row))) (\<lambda>headers.
     Inr \<lparr>sf_id = id, sf_queue = queue, sf_topic = topic, sf_source = source, sf_target = target,
          sf_payload = f_payload row, sf_headers = headers, sf_created_at_ms = created_at_ms,
          sf_sequence = sequence, sf_attempts = attempts\<rparr>)))))))))"

section \<open>Opening and locking\<close>

definition empty_db :: sqlite_db where
  "empty_db = \<lparr>heads = [], messages = [], tombstones = [], fifo_sequences = [], fifo_messages = [],
               peer_sync_states = []\<rparr>"

definition sqlite_configure :: "call_env \<Rightarrow> nat \<Rightarrow> 'a res \<Rightarrow> 'a res" where
  "sqlite_configure w c k = io_then w c (io_then w (c + 1) (io_then w (c + 2) k))"

definition sqlite_initialize :: "call_env \<Rightarrow> nat \<Rightarrow> sqlite_db option \<Rightarrow> sqlite_db res" where
  "sqlite_initialize w c existing =
     io_then w c (Inr (case existing of None \<Rightarrow> empty_db | Some db \<Rightarrow> db))"

definition sqlite_open :: "call_env \<Rightarrow> sqlite_db option \<Rightarrow> sqlite_db res" where
  "sqlite_open w file = io_then w 0 (sqlite_configure w 1 (sqlite_initialize w 4 file))"

definition sqlite_open_in_memory :: "call_env \<Rightarrow> sqlite_db res" where
  "sqlite_open_in_memory w = io_then w 0 (sqlite_configure w 1 (sqlite_initialize w 4 None))"

definition connection :: "call_env \<Rightarrow> 'a res \<Rightarrow> 'a res" where
  "connection w k =
     (case fault w 0 of
        None \<Rightarrow> k
      | Some err \<Rightarrow> Inl (Storage (''sqlite connection lock poisoned: '' @ err)))"

text \<open>Stepping through the rows of a query: each step may fail, the last one included.\<close>

fun collect_rows :: "call_env \<Rightarrow> nat \<Rightarrow> ('r \<Rightarrow> string + 'a) \<Rightarrow> 'r list \<Rightarrow> 'a list res" where
  "collect_rows w c f [] = io_then w c (Inr [])"
| "collect_rows w c f (r # rs) =
     io_then w c (and_then (map_err storage_err (f r)) (\<lambda>x.
       and_then (collect_rows w (Suc c) f rs) (\<lambda>xs. Inr (x # xs))))"

section \<open>Statements shared by the operations\<close>

definition select_head :: "call_env \<Rightarrow> nat \<Rightarrow> string \<Rightarrow> string \<Rightarrow> sqlite_db \<Rightarrow> u64 option res" where
  "select_head w c topic origin_key tx =
     io_then w c (transpose_opt (map_option (\<lambda>r. i64_to_u64 (h_head_id r))
       (find (\<lambda>r. h_topic r = topic \<and> h_origin_key r = origin_key) (heads tx))))"

definition upsert_head :: "heads_row \<Rightarrow> heads_row list \<Rightarrow> heads_row list" where
  "upsert_head row rows =
     upsert_by (\<lambda>r. (h_topic r, h_origin_key r)) (\<lambda>r. r\<lparr>h_head_id := h_head_id row\<rparr>) row rows"

definition select_message ::
  "sqlite_params \<Rightarrow> call_env \<Rightarrow> nat \<Rightarrow> string \<Rightarrow> string \<Rightarrow> u64 \<Rightarrow> sqlite_db \<Rightarrow> stored_message option res" where
  "select_message P w c topic origin_key head_id tx =
     and_then (u64_to_i64 head_id) (\<lambda>h.
     io_then w c (map_err storage_err (transpose_opt (map_option (row_to_message P)
       (find (\<lambda>r. m_topic r = topic \<and> m_origin_key r = origin_key \<and> m_head_id r = h) (messages tx))))))"

definition insert_message ::
  "sqlite_params \<Rightarrow> call_env \<Rightarrow> nat \<Rightarrow> stored_message \<Rightarrow> sqlite_db \<Rightarrow> sqlite_db res" where
  "insert_message P w c message tx =
     and_then (encode_json (ser_node (sq_serde P)) (sm_origin message)) (\<lambda>origin_json.
     and_then (u64_to_i64 (sm_head_id message)) (\<lambda>head_id.
     and_then (encode_json (ser_headers (sq_serde P)) (sm_headers message)) (\<lambda>headers_json.
     and_then (u64_to_i64 (sm_created_at_ms message)) (\<lambda>created_at_ms.
     io_then w c
      (let row = \<lparr>m_topic = topic_str (sm_topic message), m_origin_key = node_key (sm_origin message),
                  m_origin_json = origin_json, m_head_id = head_id,
                  m_id = message_id_str (sm_id message), m_payload = sm_payload message,
                  m_headers_json = headers_json, m_created_at_ms = created_at_ms,
                  m_deleted = sm_deleted message\<rparr>
       in if \<exists>r \<in> set (messages tx). m_id r = m_id row \<or>
               m_topic r = m_topic row \<and> m_origin_key r = m_origin_key row \<and> m_head_id r = m_head_id row
          then Inl (storage_err (sq_unique_text P))
          else Inr (tx\<lparr>messages := messages tx @ [row]\<rparr>))))))"

definition sqlite_apply_tombstone_markers ::
  "call_env \<Rightarrow> nat \<Rightarrow> sqlite_db \<Rightarrow> stored_message \<Rightarrow> stored_message res" where
  "sqlite_apply_tombstone_markers w c tx message =
     (if sm_deleted message then Inr message
      else and_then (u64_to_i64 (sm_head_id message)) (\<lambda>h.
        io_then w c (Inr
         (if \<exists>r \<in> set (tombstones tx). t_topic r = topic_str (sm_topic message)
               \<and> t_origin_key r = node_key (sm_origin message)
               \<and> t_from_head_id r \<le> h \<and> h \<le> t_to_head_id r
          then message\<lparr>sm_deleted := True\<rparr> else message))))"

definition sqlite_same_message_except_deleted :: "stored_message \<Rightarrow> stored_message \<Rightarrow> bool" where
  "sqlite_same_message_except_deleted left right \<longleftrightarrow>
     sm_id left = sm_id right \<and> sm_topic left = sm_topic right \<and> sm_origin left = sm_origin right
     \<and> sm_head_id left = sm_head_id right \<and> sm_payload left = sm_payload right
     \<and> sm_headers left = sm_headers right \<and> sm_created_at_ms left = sm_created_at_ms right"

section \<open>The log\<close>

definition sqlite_append_message_in_tx ::
  "sqlite_params \<Rightarrow> call_env \<Rightarrow> nat \<Rightarrow> nat \<Rightarrow> new_message \<Rightarrow> sqlite_db
     \<Rightarrow> (sqlite_db \<times> stored_message) res" where
  "sqlite_append_message_in_tx P w c i message tx =
     (let topic = topic_str (nm_topic message); origin_key = node_key (nm_origin message) in
      and_then (select_head w c topic origin_key tx) (\<lambda>head.
      let current = (case head of None \<Rightarrow> 0 | Some h \<Rightarrow> h); next = saturating_add current 1 in
      and_then (u64_to_i64 next) (\<lambda>next_i64.
      io_then w (c + 1)
       (let tx = tx\<lparr>heads := upsert_head
                    \<lparr>h_topic = topic, h_origin_key = origin_key, h_head_id = next_i64\<rparr> (heads tx)\<rparr>;
            stored = \<lparr>sm_id = nm_id message, sm_topic = nm_topic message, sm_origin = nm_origin message,
                      sm_head_id = next, sm_payload = nm_payload message,
                      sm_headers = nm_headers message, sm_created_at_ms = now w i, sm_deleted = False\<rparr>
        in and_then (sqlite_apply_tombstone_markers w (c + 2) tx stored) (\<lambda>stored.
           and_then (insert_message P w (c + 3) stored tx) (\<lambda>tx. Inr (tx, stored)))))))"

definition sqlite_append_message ::
  "sqlite_params \<Rightarrow> call_env \<Rightarrow> new_message \<Rightarrow> sqlite_db \<Rightarrow> sqlite_db \<times> stored_message res" where
  "sqlite_append_message P w message db =
     transact db (connection w (io_then w 1
       (and_then (sqlite_append_message_in_tx P w 2 0 message db) (\<lambda>(tx, stored).
        io_then w 6 (Inr (tx, stored))))))"

definition sqlite_fetch_messages ::
  "sqlite_params \<Rightarrow> call_env \<Rightarrow> fetch_query \<Rightarrow> sqlite_db \<Rightarrow> stored_message list res" where
  "sqlite_fetch_messages P w query db =
     connection w (io_then w 1
       (let topic = topic_str (fq_topic query); origin_key = node_key (fq_origin query) in
        and_then (u64_to_i64 (fq_from_head_id query)) (\<lambda>from.
        io_then w 2
         (collect_rows w 3 (row_to_message P)
           (take (sqlite_effective_limit (fq_limit query)) (sort_key m_head_id
             (filter (\<lambda>r. m_topic r = topic \<and> m_origin_key r = origin_key \<and> from \<le> m_head_id r)
               (messages db))))))))"

definition sqlite_get_head :: "call_env \<Rightarrow> topic \<Rightarrow> node_id \<Rightarrow> sqlite_db \<Rightarrow> head_id option res" where
  "sqlite_get_head w topic origin db =
     connection w (select_head w 1 (topic_str topic) (node_key origin) db)"

definition joined_heads :: "sqlite_db \<Rightarrow> (heads_row \<times> messages_row) list" where
  "joined_heads db =
     filter (\<lambda>(h, m). m_topic m = h_topic h \<and> m_origin_key m = h_origin_key h \<and> m_head_id m = h_head_id h)
       (List.product (heads db) (messages db))"

definition row_to_topic_head :: "sqlite_params \<Rightarrow> heads_row \<times> messages_row \<Rightarrow> string + topic_head" where
  "row_to_topic_head P hm =
     and_then (sql_from_msgbus P (i64_to_u64 (h_head_id (fst hm)))) (\<lambda>head_id.
     and_then (sql_from_msgbus P (topic_new (h_topic (fst hm)))) (\<lambda>topic.
     and_then (sql_from_msgbus P (decode_json (de_node (sq_serde P)) (m_origin_json (snd hm)))) (\<lambda>origin.
     Inr \<lparr>th_topic = topic, th_origin = origin, th_head_id = head_id\<rparr>)))"

definition sqlite_list_heads :: "sqlite_params \<Rightarrow> call_env \<Rightarrow> sqlite_db \<Rightarrow> topic_head list res" where
  "sqlite_list_heads P w db =
     connection w (io_then w 1 (io_then w 2
       (collect_rows w 3 (row_to_topic_head P)
         (sort_key (\<lambda>(h, m). (h_topic h, h_origin_key h)) (joined_heads db)))))"

definition sqlite_put_replicated_message ::
  "sqlite_params \<Rightarrow> call_env \<Rightarrow> stored_message \<Rightarrow> sqlite_db \<Rightarrow> sqlite_db \<times> replicate_result res" where
  "sqlite_put_replicated_message P w message db =
     (if sm_head_id message = 0
      then (db, Inl (InvalidArgument ''replicated message head_id must be greater than zero''))
      else transact db (connection w (io_then w 1
       (and_then (sqlite_apply_tombstone_markers w 2 db message) (\<lambda>message.
        let topic = topic_str (sm_topic message); origin_key = node_key (sm_origin message) in
        and_then (select_message P w 3 topic origin_key (sm_head_id message) db) (\<lambda>existing.
        case existing of
          Some existing \<Rightarrow>
            (if existing = message then Inr (db, AlreadyPresent)
             else if sqlite_same_message_except_deleted existing message \<and> sm_deleted message then
               and_then (u64_to_i64 (sm_head_id message)) (\<lambda>h.
               io_then w 4 (io_then w 5
                (Inr (db\<lparr>messages := map (\<lambda>r. if m_topic r = topic \<and> m_origin_key r = origin_key
                        \<and> m_head_id r = h then r\<lparr>m_deleted := True\<rparr> else r) (messages db)\<rparr>,
                      Inserted))))
             else Inl (Conflict (''message conflict at topic='' @ topic @ '' origin='' @ origin_key
                    @ '' head_id='' @ dec_string (unat (sm_head_id message)))))
        | None \<Rightarrow>
            and_then (select_head w 6 topic origin_key db) (\<lambda>head.
            let current = (case head of None \<Rightarrow> 0 | Some h \<Rightarrow> h) in
            if saturating_add current 1 < sm_head_id message then
              Inl (InvalidArgument (''replicated message would create a gap at topic='' @ topic
                    @ '' origin='' @ origin_key @ '' local_head='' @ dec_string (unat current)
                    @ '' incoming_head='' @ dec_string (unat (sm_head_id message))))
            else
              and_then (insert_message P w 7 message db) (\<lambda>tx.
              and_then
               (if current < sm_head_id message then
                  and_then (u64_to_i64 (sm_head_id message)) (\<lambda>h.
                  io_then w 8 (Inr (tx\<lparr>heads := upsert_head
                    \<lparr>h_topic = topic, h_origin_key = origin_key, h_head_id = h\<rparr> (heads tx)\<rparr>)))
                else Inr tx) (\<lambda>tx.
              io_then w 9 (Inr (tx, Inserted)))))))))))"

section \<open>Tombstones\<close>

definition insert_or_ignore :: "tombstones_row \<Rightarrow> tombstones_row list \<Rightarrow> tombstones_row list" where
  "insert_or_ignore row rows =
     upsert_by (\<lambda>r. (t_topic r, t_origin_key r, t_from_head_id r, t_to_head_id r)) (\<lambda>r. r) row rows"

definition sqlite_tombstone_range_in_tx ::
  "sqlite_params \<Rightarrow> call_env \<Rightarrow> nat \<Rightarrow> topic \<Rightarrow> node_id \<Rightarrow> head_id \<Rightarrow> head_id \<Rightarrow> u64 \<Rightarrow> sqlite_db
     \<Rightarrow> (sqlite_db \<times> u64) res" where
  "sqlite_tombstone_range_in_tx P w c topic origin from to created_at_ms tx =
     and_then (u64_to_i64 from) (\<lambda>from_i64.
     and_then (u64_to_i64 to) (\<lambda>to_i64.
     io_then w c
      (let hit = (\<lambda>r. m_topic r = topic_str topic \<and> m_origin_key r = node_key origin
                    \<and> from_i64 \<le> m_head_id r \<and> m_head_id r \<le> to_i64 \<and> \<not> m_deleted r);
           changed = of_nat (length (filter hit (messages tx)));
           tx = tx\<lparr>messages := map (\<lambda>r. if hit r then r\<lparr>m_deleted := True\<rparr> else r) (messages tx)\<rparr>;
           tombstone = \<lparr>tr_topic = topic, tr_origin = origin, tr_from_head_id = from,
                        tr_to_head_id = to, tr_created_at_ms = created_at_ms\<rparr>
       in and_then (u64_to_i64 created_at_ms) (\<lambda>created_i64.
          and_then (encode_json (ser_tombstone (sq_serde P)) tombstone) (\<lambda>range_json.
          io_then w (c + 1)
           (Inr (tx\<lparr>tombstones := insert_or_ignore
              \<lparr>t_topic = topic_str topic, t_origin_key = node_key origin, t_from_head_id = from_i64,
               t_to_head_id = to_i64, t_created_at_ms = created_i64, t_range_json = range_json\<rparr>
              (tombstones tx)\<rparr>, changed)))))))"

definition sqlite_tombstone_range ::
  "sqlite_params \<Rightarrow> call_env \<Rightarrow> topic \<Rightarrow> node_id \<Rightarrow> head_id \<Rightarrow> head_id \<Rightarrow> sqlite_db
     \<Rightarrow> sqlite_db \<times> u64 res" where
  "sqlite_tombstone_range P w topic origin from to db =
     (if to < from then (db, Inl (InvalidArgument ''from_head_id must be <= to_head_id''))
      else transact db (connection w (io_then w 1
       (and_then (sqlite_tombstone_range_in_tx P w 2 topic origin from to (now w 0) db)
         (\<lambda>(tx, changed). io_then w 4 (Inr (tx, changed)))))))"

definition sqlite_tombstone_range_with_marker ::
  "sqlite_params \<Rightarrow> call_env \<Rightarrow> topic \<Rightarrow> node_id \<Rightarrow> head_id \<Rightarrow> head_id \<Rightarrow> topic \<Rightarrow> node_id \<Rightarrow> sqlite_db
     \<Rightarrow> sqlite_db \<times> (u64 \<times> stored_message) res" where
  "sqlite_tombstone_range_with_marker P w topic origin from to marker_topic marker_origin db =
     (if to < from then (db, Inl (InvalidArgument ''from_head_id must be <= to_head_id''))
      else transact db (connection w (io_then w 1
       (let created_at_ms = now w 0 in
        and_then (sqlite_tombstone_range_in_tx P w 2 topic origin from to created_at_ms db)
         (\<lambda>(tx, changed).
        let tombstone = \<lparr>tr_topic = topic, tr_origin = origin, tr_from_head_id = from,
                         tr_to_head_id = to, tr_created_at_ms = created_at_ms\<rparr> in
        and_then (map_err Serialization (ser_tombstone (sq_serde P) tombstone)) (\<lambda>payload.
        and_then (sqlite_append_message_in_tx P w 4 1
            (new_message_new (uuid w) marker_topic marker_origin payload fmempty) tx)
         (\<lambda>(tx, marker). io_then w 8 (Inr (tx, (changed, marker))))))))))"

section \<open>FIFO queues\<close>

definition select_sequence :: "call_env \<Rightarrow> nat \<Rightarrow> string \<Rightarrow> sqlite_db \<Rightarrow> u64 option res" where
  "select_sequence w c queue tx =
     io_then w c (transpose_opt (map_option (\<lambda>r. i64_to_u64 (s_sequence r))
       (find (\<lambda>r. s_queue r = queue) (fifo_sequences tx))))"

definition upsert_sequence :: "fifo_sequences_row \<Rightarrow> fifo_sequences_row list \<Rightarrow> fifo_sequences_row list" where
  "upsert_sequence row rows = upsert_by s_queue (\<lambda>r. r\<lparr>s_sequence := s_sequence row\<rparr>) row rows"

definition insert_fifo ::
  "sqlite_params \<Rightarrow> call_env \<Rightarrow> nat \<Rightarrow> stored_fifo_message \<Rightarrow> sqlite_db \<Rightarrow> sqlite_db res" where
  "insert_fifo P w c stored tx =
     and_then (u64_to_i64 (sf_sequence stored)) (\<lambda>sequence.
     and_then (encode_json (ser_node (sq_serde P)) (sf_source stored)) (\<lambda>source_json.
     and_then (encode_json (ser_node (sq_serde P)) (sf_target stored)) (\<lambda>target_json.
     and_then (encode_json (ser_headers (sq_serde P)) (sf_headers stored)) (\<lambda>headers_json.
     and_then (u64_to_i64 (sf_created_at_ms stored)) (\<lambda>created_at_ms.
     io_then w c
      (let row = \<lparr>f_queue = queue_str (sf_queue stored), f_sequence = sequence,
                  f_id = message_id_str (sf_id stored), f_topic = topic_str (sf_topic stored),
                  f_source_json = source_json, f_target_json = target_json,
                  f_payload = sf_payload stored, f_headers_json = headers_json,
                  f_created_at_ms = created_at_ms, f_attempts = uint (sf_attempts stored)\<rparr>
       in if \<exists>r \<in> set (fifo_messages tx). f_id r = f_id row \<or>
               f_queue r = f_queue row \<and> f_sequence r = f_sequence row
          then Inl (storage_err (sq_unique_text P))
          else Inr (tx\<lparr>fifo_messages := fifo_messages tx @ [row]\<rparr>)))))))"

definition sqlite_enqueue_fifo ::
  "sqlite_params \<Rightarrow> call_env \<Rightarrow> new_fifo_message \<Rightarrow> sqlite_db \<Rightarrow> sqlite_db \<times> stored_fifo_message res" where
  "sqlite_enqueue_fifo P w message db =
     transact db (connection w (io_then w 1
       (let queue = queue_str (nf_queue message) in
        and_then (select_sequence w 2 queue db) (\<lambda>found.
        let current = (case found of None \<Rightarrow> 0 | Some n \<Rightarrow> n); sequence = saturating_add current 1 in
        and_then (u64_to_i64 sequence) (\<lambda>sequence_i64.
        io_then w 3
         (let tx = db\<lparr>fifo_sequences := upsert_sequence
                      \<lparr>s_queue = queue, s_sequence = sequence_i64\<rparr> (fifo_sequences db)\<rparr>;
              stored = \<lparr>sf_id = nf_id message, sf_queue = nf_queue message, sf_topic = nf_topic message,
                        sf_source = nf_source message, sf_target = nf_target message,
                        sf_payload = nf_payload message, sf_headers = nf_headers message,
                        sf_created_at_ms = now w 0, sf_sequence = sequence, sf_attempts = 0\<rparr>
          in and_then (insert_fifo P w 4 stored tx) (\<lambda>tx. io_then w 5 (Inr (tx, stored)))))))))"

definition select_front ::
  "sqlite_params \<Rightarrow> call_env \<Rightarrow> nat \<Rightarrow> string \<Rightarrow> sqlite_db \<Rightarrow> stored_fifo_message option res" where
  "select_front P w c queue tx =
     io_then w c (map_err storage_err
      (case sort_key f_sequence (filter (\<lambda>r. f_queue r = queue) (fifo_messages tx)) of
         [] \<Rightarrow> Inr None
       | r # _ \<Rightarrow> and_then (row_to_fifo P r) (\<lambda>m. Inr (Some m))))"

definition sqlite_peek_fifo ::
  "sqlite_params \<Rightarrow> call_env \<Rightarrow> queue_name \<Rightarrow> sqlite_db \<Rightarrow> stored_fifo_message option res" where
  "sqlite_peek_fifo P w queue db = connection w (select_front P w 1 (queue_str queue) db)"

datatype fifo_front_action = Ack | Reject

definition sqlite_update_fifo_front ::
  "sqlite_params \<Rightarrow> call_env \<Rightarrow> queue_name \<Rightarrow> message_id \<Rightarrow> fifo_front_action \<Rightarrow> sqlite_db
     \<Rightarrow> sqlite_db \<times> bool res" where
  "sqlite_update_fifo_front P w queue message_id action db =
     transact db (connection w (io_then w 1
       (and_then (select_front P w 2 (queue_str queue) db) (\<lambda>front.
        and_then
         (case front of
            Some message \<Rightarrow>
              (if sf_id message = message_id then
                 (case action of
                    Ack \<Rightarrow>
                      and_then (u64_to_i64 (sf_sequence message)) (\<lambda>n.
                      io_then w 3 (Inr (db\<lparr>fifo_messages :=
                        filter (\<lambda>r. \<not> (f_queue r = queue_str queue \<and> f_sequence r = n)) (fifo_messages db)\<rparr>,
                        True)))
                  | Reject \<Rightarrow>
                      (let attempts = saturating_add (sf_attempts message) 1 in
                       and_then (u64_to_i64 (sf_sequence message)) (\<lambda>n.
                       io_then w 3 (Inr (db\<lparr>fifo_messages :=
                         map (\<lambda>r. if f_queue r = queue_str queue \<and> f_sequence r = n
                                  then r\<lparr>f_attempts := uint attempts\<rparr> else r) (fifo_messages db)\<rparr>,
                         True)))))
               else Inr (db, False))
          | None \<Rightarrow> Inr (db, False))
         (\<lambda>(tx, accepted). io_then w 4 (Inr (tx, accepted)))))))"

definition sqlite_ack_fifo ::
  "sqlite_params \<Rightarrow> call_env \<Rightarrow> queue_name \<Rightarrow> message_id \<Rightarrow> sqlite_db \<Rightarrow> sqlite_db \<times> bool res" where
  "sqlite_ack_fifo P w queue message_id db = sqlite_update_fifo_front P w queue message_id Ack db"

definition sqlite_reject_fifo ::
  "sqlite_params \<Rightarrow> call_env \<Rightarrow> queue_name \<Rightarrow> message_id \<Rightarrow> sqlite_db \<Rightarrow> sqlite_db \<times> bool res" where
  "sqlite_reject_fifo P w queue message_id db = sqlite_update_fifo_front P w queue message_id Reject db"

section \<open>Peer-sync records\<close>

definition peer_sync_keys :: "peer_sync_state \<Rightarrow> string \<times> string" where
  "peer_sync_keys state =
     ((case ps_topic state of None \<Rightarrow> [] | Some topic \<Rightarrow> topic_str topic),
      (case ps_origin state of None \<Rightarrow> [] | Some origin \<Rightarrow> node_key origin))"

definition upsert_peer :: "peer_sync_states_row \<Rightarrow> peer_sync_states_row list \<Rightarrow> peer_sync_states_row list" where
  "upsert_peer row rows =
     upsert_by (\<lambda>r. (p_peer r, p_topic r, p_origin_key r)) (\<lambda>r. r\<lparr>p_state_json := p_state_json row\<rparr>) row rows"

definition sqlite_record_peer_sync_state ::
  "sqlite_params \<Rightarrow> call_env \<Rightarrow> peer_sync_state \<Rightarrow> sqlite_db \<Rightarrow> sqlite_db \<times> unit res" where
  "sqlite_record_peer_sync_state P w state db =
     transact db (connection w (io_then w 1
       (let (topic_key, origin_key) = peer_sync_keys state in
        io_then w 2
        (and_then (transpose_opt (map_option (\<lambda>r. decode_json (de_peer (sq_serde P)) (p_state_json r))
           (find (\<lambda>r. p_peer r = ps_peer state \<and> p_topic r = topic_key \<and> p_origin_key r = origin_key)
             (peer_sync_states db)))) (\<lambda>previous.
        let state =
          (if ps_last_error state \<noteq> None then
             (case previous of
                Some previous \<Rightarrow>
                  (if ps_last_success_at_ms state = 0
                   then state\<lparr>ps_last_success_at_ms := ps_last_success_at_ms previous\<rparr> else state)
                  \<lparr>ps_consecutive_failures := saturating_add (ps_consecutive_failures previous) 1\<rparr>
              | None \<Rightarrow> state\<lparr>ps_consecutive_failures := 1\<rparr>)
           else state\<lparr>ps_consecutive_failures := 0\<rparr>) in
        and_then (encode_json (ser_peer (sq_serde P)) state) (\<lambda>state_json.
        io_then w 3 (io_then w 4
         (Inr (db\<lparr>peer_sync_states := upsert_peer
            \<lparr>p_peer = ps_peer state, p_topic = topic_key, p_origin_key = origin_key,
             p_state_json = state_json\<rparr> (peer_sync_states db)\<rparr>, ()))))))))) "

definition sqlite_list_peer_sync_states ::
  "sqlite_params \<Rightarrow> call_env \<Rightarrow> sqlite_db \<Rightarrow> peer_sync_state list res" where
  "sqlite_list_peer_sync_states P w db =
     connection w (io_then w 1 (io_then w 2
       (collect_rows w 3 (\<lambda>r. sql_from_msgbus P (decode_json (de_peer (sq_serde P)) (p_state_json r)))
         (sort_key (\<lambda>r. (p_peer r, p_topic r, p_origin_key r)) (peer_sync_states db)))))"

section \<open>The trait implementation\<close>

definition sqlite_store :: "sqlite_params \<Rightarrow> sqlite_db msgbus_store" where
  "sqlite_store P =
     \<lparr>st_append_message = sqlite_append_message P,
      st_fetch_messages = sqlite_fetch_messages P,
      st_get_head = sqlite_get_head,
      st_list_heads = sqlite_list_heads P,
      st_put_replicated_message = sqlite_put_replicated_message P,
      st_tombstone_range = sqlite_tombstone_range P,
      st_tombstone_range_with_marker = sqlite_tombstone_range_with_marker P,
      st_enqueue_fifo = sqlite_enqueue_fifo P,
      st_peek_fifo = sqlite_peek_fifo P,
      st_ack_fifo = sqlite_ack_fifo P,
      st_reject_fifo = sqlite_reject_fifo P,
      st_record_peer_sync_state = sqlite_record_peer_sync_state P,
      st_list_peer_sync_states = sqlite_list_peer_sync_states P\<rparr>"

end
