(* ===== verification/Sqlite_Refine.thy ===== *)
theory Sqlite_Refine
  imports Store_Run Sqlite_Store
begin

text \<open>
  The SQLite backend implements the store contract. The view of a database reads every table
  through its key; the representation invariant says that keys are unique, that integer columns
  are in range and that every row decodes to the value it was written from. For every JSON codec
  that round-trips, each statement-level operation of \<open>Sqlite_Store\<close> is shown to compute what the
  abstract operation of \<open>Store_Interface\<close> computes.
\<close>

section \<open>Keys, view and invariant\<close>

definition hrow_key :: "heads_row \<Rightarrow> log_key" where
  "hrow_key r = (h_topic r, h_origin_key r)"

definition mrow_key :: "messages_row \<Rightarrow> log_key \<times> int" where
  "mrow_key r = ((m_topic r, m_origin_key r), m_head_id r)"

definition frow_key :: "fifo_messages_row \<Rightarrow> string \<times> int" where
  "frow_key r = (f_queue r, f_sequence r)"

definition prow_key :: "peer_sync_states_row \<Rightarrow> string \<times> string \<times> string" where
  "prow_key r = (p_peer r, p_topic r, p_origin_key r)"

definition peer_columns :: "peer_key \<Rightarrow> string \<times> string \<times> string" where
  "peer_columns k = (fst k, (case fst (snd k) of None \<Rightarrow> [] | Some t \<Rightarrow> t), (case snd (snd k) of None \<Rightarrow> [] | Some x \<Rightarrow> x))"

definition sqlite_view :: "sqlite_params \<Rightarrow> sqlite_db \<Rightarrow> store_view" where
  "sqlite_view P db =
     \<lparr>v_msg = (\<lambda>(l, h). Option.bind (find (\<lambda>r. mrow_key r = (l, uint h)) (messages db))
                (\<lambda>r. ok (row_to_message P r))),
      v_head = (\<lambda>l. map_option (\<lambda>r. word_of_int (h_head_id r)) (find (\<lambda>r. hrow_key r = l) (heads db))),
      v_tomb = (\<lambda>l. {(word_of_int (t_from_head_id r), word_of_int (t_to_head_id r)) | r.
                     r \<in> set (tombstones db) \<and> (t_topic r, t_origin_key r) = l}),
      v_fifo = (\<lambda>(q, n). Option.bind (find (\<lambda>r. frow_key r = (q, uint n)) (fifo_messages db))
                (\<lambda>r. ok (row_to_fifo P r))),
      v_seq = (\<lambda>q. map_option (\<lambda>r. word_of_int (s_sequence r)) (find (\<lambda>r. s_queue r = q) (fifo_sequences db))),
      v_peer = (\<lambda>k. Option.bind (find (\<lambda>r. prow_key r = peer_columns k) (peer_sync_states db))
                (\<lambda>r. Option.bind (ok (de_peer (sq_serde P) (p_state_json r)))
                  (\<lambda>st. if peer_key_of st = k then Some st else None)))\<rparr>"

definition i64_range :: "int \<Rightarrow> bool" where
  "i64_range i \<longleftrightarrow> 0 \<le> i \<and> i < 2 ^ 63"

definition good_message_row :: "sqlite_params \<Rightarrow> messages_row \<Rightarrow> bool" where
  "good_message_row P r \<longleftrightarrow>
     (\<exists>m. row_to_message P r = Inr m \<and> mrow_key r = (message_log m, uint (sm_head_id m)))"

definition good_fifo_row :: "sqlite_params \<Rightarrow> fifo_messages_row \<Rightarrow> bool" where
  "good_fifo_row P r \<longleftrightarrow>
     (\<exists>m. row_to_fifo P r = Inr m \<and> frow_key r = (queue_str (sf_queue m), uint (sf_sequence m)))"

definition good_peer_row :: "sqlite_params \<Rightarrow> peer_sync_states_row \<Rightarrow> bool" where
  "good_peer_row P r \<longleftrightarrow>
     (\<exists>st. de_peer (sq_serde P) (p_state_json r) = Inr st \<and> scoped_peer st \<and> prow_key r = peer_columns (peer_key_of st))"

definition sqlite_rep :: "sqlite_params \<Rightarrow> sqlite_db \<Rightarrow> bool" where
  "sqlite_rep P db \<longleftrightarrow>
     distinct (map hrow_key (heads db)) \<and> (\<forall>r \<in> set (heads db). i64_range (h_head_id r))
     \<and> distinct (map mrow_key (messages db)) \<and> (\<forall>r \<in> set (messages db). good_message_row P r)
     \<and> (\<forall>r \<in> set (tombstones db). i64_range (t_from_head_id r) \<and> i64_range (t_to_head_id r))
     \<and> distinct (map s_queue (fifo_sequences db)) \<and> (\<forall>r \<in> set (fifo_sequences db). i64_range (s_sequence r))
     \<and> distinct (map frow_key (fifo_messages db)) \<and> (\<forall>r \<in> set (fifo_messages db). good_fifo_row P r)
     \<and> distinct (map prow_key (peer_sync_states db)) \<and> (\<forall>r \<in> set (peer_sync_states db). good_peer_row P r)"

definition sqlite_inv :: "sqlite_params \<Rightarrow> sqlite_db \<Rightarrow> bool" where
  "sqlite_inv P db \<longleftrightarrow> sqlite_rep P db \<and> wf_view (sqlite_view P db)"

section \<open>Integers and rows\<close>

lemma u64_to_i64_Inr: "u64_to_i64 v = Inr i \<longleftrightarrow> i = uint v \<and> uint v < 2 ^ 63"
  by (auto simp: u64_to_i64_def)

lemma i64_range_uint: "u64_to_i64 v = Inr i \<Longrightarrow> i64_range i"
  by (auto simp: u64_to_i64_Inr i64_range_def)

lemma uint_word_of_i64: "i64_range i \<Longrightarrow> uint (word_of_int i :: u64) = i"
  by (simp add: i64_range_def uint_word_of_int take_bit_int_eq_self)

lemma i64_to_u64_uint [simp]: "i64_to_u64 (uint v) = Inr v"
  by (simp add: i64_to_u64_def)

lemma i64_to_u64_range: "i64_range i \<Longrightarrow> i64_to_u64 i = Inr (word_of_int i)"
  by (simp add: i64_to_u64_def i64_range_def)

lemma i64_to_u64_Inr: "i64_to_u64 i = Inr v \<longleftrightarrow> 0 \<le> i \<and> v = word_of_int i"
  by (auto simp: i64_to_u64_def)

lemma word_of_i64_le:
  "i64_range i \<Longrightarrow> word_of_int i \<le> (h :: u64) \<longleftrightarrow> i \<le> uint h"
  "i64_range i \<Longrightarrow> (h :: u64) \<le> word_of_int i \<longleftrightarrow> uint h \<le> i"
  by (simp_all add: word_le_def uint_word_of_i64)

lemma sql_from_msgbus_Inr [simp]: "sql_from_msgbus P r = Inr a \<longleftrightarrow> r = Inr a"
  by (simp add: sql_from_msgbus_def)

lemma sql_from_msgbus_ok [simp]: "sql_from_msgbus P (Inr a) = Inr a"
  by (simp add: sql_from_msgbus_def)

lemma json_Inr [simp]:
  "encode_json ser x = Inr b \<longleftrightarrow> ser x = Inr b" "decode_json de b = Inr x \<longleftrightarrow> de b = Inr x"
  by (simp_all add: encode_json_def decode_json_def)

lemma connection_eq_Inr: "connection w k = Inr a \<longleftrightarrow> fault w 0 = None \<and> k = Inr a"
  by (simp add: connection_def split: option.split)

lemmas sql_run = io_then_eq_Inr connection_eq_Inr and_then_eq_Inr transact_eq_Inr

lemma row_to_message_delete:
  "row_to_message P r = Inr m \<Longrightarrow> row_to_message P (r\<lparr>m_deleted := True\<rparr>) = Inr (m\<lparr>sm_deleted := True\<rparr>)"
  by (auto simp: row_to_message_def and_then_eq_Inr)

lemma row_to_message_flag: "row_to_message P r = Inr m \<Longrightarrow> sm_deleted m = m_deleted r"
  by (auto simp: row_to_message_def and_then_eq_Inr)

lemma collect_rows_map:
  "collect_rows w c f rs = Inr xs \<Longrightarrow> (\<And>r. r \<in> set rs \<Longrightarrow> f r = Inr (g r)) \<Longrightarrow> xs = map g rs"
  by (induction rs arbitrary: c xs) (auto simp: sql_run)

lemma delete_flag_id: "sm_deleted m \<Longrightarrow> m\<lparr>sm_deleted := True\<rparr> = m"
  by (cases m) simp

section \<open>Reading the view\<close>

lemma sqlite_rep_simps:
  assumes "sqlite_rep P db"
  shows "distinct (map hrow_key (heads db))" "\<And>r. r \<in> set (heads db) \<Longrightarrow> i64_range (h_head_id r)"
    "distinct (map mrow_key (messages db))" "\<And>r. r \<in> set (messages db) \<Longrightarrow> good_message_row P r"
    "\<And>r. r \<in> set (tombstones db) \<Longrightarrow> i64_range (t_from_head_id r) \<and> i64_range (t_to_head_id r)"
    "distinct (map s_queue (fifo_sequences db))" "\<And>r. r \<in> set (fifo_sequences db) \<Longrightarrow> i64_range (s_sequence r)"
    "distinct (map frow_key (fifo_messages db))" "\<And>r. r \<in> set (fifo_messages db) \<Longrightarrow> good_fifo_row P r"
    "distinct (map prow_key (peer_sync_states db))"
    "\<And>r. r \<in> set (peer_sync_states db) \<Longrightarrow> good_peer_row P r"
  using assms by (auto simp: sqlite_rep_def)

lemma where_keys:
  "(\<lambda>r. h_topic r = t \<and> h_origin_key r = k) = (\<lambda>r. hrow_key r = (t, k))"
  "(\<lambda>r. m_topic r = t \<and> m_origin_key r = k \<and> m_head_id r = h) = (\<lambda>r. mrow_key r = ((t, k), h))"
  "(\<lambda>r. p_peer r = p \<and> p_topic r = t \<and> p_origin_key r = k) = (\<lambda>r. prow_key r = (p, t, k))"
  "(\<lambda>r. \<not> (f_queue r = q \<and> f_sequence r = n)) = (\<lambda>r. frow_key r \<noteq> (q, n))"
  by (auto simp: hrow_key_def mrow_key_def prow_key_def frow_key_def)

lemma view_msg_Some:
  assumes "sqlite_rep P db"
  shows "v_msg (sqlite_view P db) (l, h) = Some m \<longleftrightarrow>
    (\<exists>r \<in> set (messages db). mrow_key r = (l, uint h) \<and> row_to_message P r = Inr m)"
  using find_key_iff [OF sqlite_rep_simps(3) [OF assms]]
  by (auto simp: sqlite_view_def bind_eq_Some_conv)

lemma view_msg_row:
  assumes "sqlite_rep P db" "r \<in> set (messages db)"
  obtains m where "row_to_message P r = Inr m" "mrow_key r = (message_log m, uint (sm_head_id m))"
    "v_msg (sqlite_view P db) (message_log m, sm_head_id m) = Some m"
proof -
  from sqlite_rep_simps(4) [OF assms] obtain m where
    m: "row_to_message P r = Inr m" "mrow_key r = (message_log m, uint (sm_head_id m))"
    by (auto simp: good_message_row_def)
  with assms(2) have "v_msg (sqlite_view P db) (message_log m, sm_head_id m) = Some m"
    by (auto simp: view_msg_Some [OF assms(1)])
  with m that show ?thesis by blast
qed

lemma view_fifo_Some:
  assumes "sqlite_rep P db"
  shows "v_fifo (sqlite_view P db) (q, n) = Some m \<longleftrightarrow>
    (\<exists>r \<in> set (fifo_messages db). frow_key r = (q, uint n) \<and> row_to_fifo P r = Inr m)"
  using find_key_iff [OF sqlite_rep_simps(8) [OF assms]]
  by (auto simp: sqlite_view_def bind_eq_Some_conv)

lemma view_head: "v_head (sqlite_view P db) l =
    map_option (\<lambda>r. word_of_int (h_head_id r)) (find (\<lambda>r. hrow_key r = l) (heads db))"
  by (simp add: sqlite_view_def)

lemma view_covered:
  assumes "sqlite_rep P db"
  shows "covered (sqlite_view P db) l h \<longleftrightarrow>
    (\<exists>r \<in> set (tombstones db). (t_topic r, t_origin_key r) = l \<and> t_from_head_id r \<le> uint h \<and> uint h \<le> t_to_head_id r)"
proof -
  have "covered (sqlite_view P db) l h \<longleftrightarrow>
      (\<exists>r \<in> set (tombstones db). (t_topic r, t_origin_key r) = l
        \<and> word_of_int (t_from_head_id r) \<le> h \<and> h \<le> word_of_int (t_to_head_id r))"
    by (auto simp: covered_def sqlite_view_def)
  also have "\<dots> \<longleftrightarrow> (\<exists>r \<in> set (tombstones db). (t_topic r, t_origin_key r) = l
        \<and> t_from_head_id r \<le> uint h \<and> uint h \<le> t_to_head_id r)"
    using sqlite_rep_simps(5) [OF assms] word_of_i64_le by blast
  finally show ?thesis .
qed

lemma select_head_view:
  assumes "select_head w c t k db = Inr x"
  shows "x = v_head (sqlite_view P db) (t, k)"
  using assms by (cases "find (\<lambda>r. hrow_key r = (t, k)) (heads db)")
    (auto simp: select_head_def where_keys view_head sql_run transpose_opt_eq_Inr i64_to_u64_Inr)

lemma current_head_of: "(case v_head v l of None \<Rightarrow> 0 | Some h \<Rightarrow> h) = head_of v l"
  by (simp add: head_of_def)

lemma apply_markers_view:
  assumes "sqlite_rep P db" "sqlite_apply_tombstone_markers w c db m = Inr m'"
  shows "m' = mark_deleted (sqlite_view P db) m"
  using assms(2)
  by (auto simp: sqlite_apply_tombstone_markers_def mark_deleted_def view_covered [OF assms(1)]
      sql_run u64_to_i64_Inr delete_flag_id log_of_def split: if_splits)

lemma select_message_view:
  assumes "sqlite_rep P db" "select_message P w c t k h db = Inr x"
  shows "x = v_msg (sqlite_view P db) ((t, k), h)"
  using assms
  by (cases "find (\<lambda>r. mrow_key r = ((t, k), uint h)) (messages db)")
    (auto simp: select_message_def where_keys sqlite_view_def sql_run transpose_opt_eq_Inr u64_to_i64_Inr)

section \<open>Changing the tables\<close>

lemma upsert_head_by: "upsert_head row rs = upsert_by hrow_key (\<lambda>r. r\<lparr>h_head_id := h_head_id row\<rparr>) row rs"
  by (simp add: upsert_head_def hrow_key_def [abs_def])

lemma view_upsert_head [simp]:
  "sqlite_view P (tx\<lparr>heads := upsert_head \<lparr>h_topic = t, h_origin_key = k, h_head_id = i\<rparr> (heads tx)\<rparr>)
    = (sqlite_view P tx)\<lparr>v_head := (v_head (sqlite_view P tx))((t, k) \<mapsto> word_of_int i)\<rparr>"
proof -
  have "find (\<lambda>r. hrow_key r = l) (upsert_head \<lparr>h_topic = t, h_origin_key = k, h_head_id = i\<rparr> (heads tx))
      = (if l = (t, k) then
           Some (case find (\<lambda>r. hrow_key r = l) (heads tx) of
              None \<Rightarrow> \<lparr>h_topic = t, h_origin_key = k, h_head_id = i\<rparr> | Some r \<Rightarrow> r\<lparr>h_head_id := i\<rparr>)
         else find (\<lambda>r. hrow_key r = l) (heads tx))" for l
    unfolding upsert_head_by by (subst find_upsert_by) (auto simp: hrow_key_def split: option.split)
  then show ?thesis
    by (auto simp: sqlite_view_def fun_eq_iff split: option.splits)
qed

lemma rep_upsert_head:
  assumes "sqlite_rep P tx" "i64_range i"
  shows "sqlite_rep P (tx\<lparr>heads := upsert_head \<lparr>h_topic = t, h_origin_key = k, h_head_id = i\<rparr> (heads tx)\<rparr>)"
proof -
  have "distinct (map hrow_key (upsert_head \<lparr>h_topic = t, h_origin_key = k, h_head_id = i\<rparr> (heads tx)))"
    unfolding upsert_head_by
    by (rule distinct_upsert_by) (auto simp: hrow_key_def sqlite_rep_simps(1) [OF assms(1)])
  moreover have "\<forall>r \<in> set (upsert_head \<lparr>h_topic = t, h_origin_key = k, h_head_id = i\<rparr> (heads tx)). i64_range (h_head_id r)"
    unfolding upsert_head_by
    by (auto dest!: set_upsert_by simp: assms(2) sqlite_rep_simps(2) [OF assms(1)])
  ultimately show ?thesis using assms(1) by (simp add: sqlite_rep_def)
qed

lemma insert_message_row:
  assumes codec: "serde_codec (sq_serde P)" and valid: "valid_stored m"
    and ins: "insert_message P w c m tx = Inr tx'"
  obtains row where "tx' = tx\<lparr>messages := messages tx @ [row]\<rparr>" "row_to_message P row = Inr m"
    "mrow_key row = (message_log m, uint (sm_head_id m))" "mrow_key row \<notin> mrow_key ` set (messages tx)"
proof -
  from ins obtain oj hj where
    json: "ser_node (sq_serde P) (sm_origin m) = Inr oj" "ser_headers (sq_serde P) (sm_headers m) = Inr hj"
    by (auto simp: insert_message_def sql_run)
  let ?row = "\<lparr>m_topic = topic_str (sm_topic m), m_origin_key = node_key (sm_origin m), m_origin_json = oj,
     m_head_id = uint (sm_head_id m), m_id = message_id_str (sm_id m), m_payload = sm_payload m,
     m_headers_json = hj, m_created_at_ms = uint (sm_created_at_ms m), m_deleted = sm_deleted m\<rparr>"
  have dec: "de_node (sq_serde P) oj = Inr (sm_origin m)" "de_headers (sq_serde P) hj = Inr (sm_headers m)"
    using json codec by (auto dest: round_tripsD serde_codec.node_json serde_codec.headers_json)
  have row: "row_to_message P ?row = Inr m"
    using valid dec by (auto simp: row_to_message_def valid_stored_def and_then_eq_Inr)
  from ins json have tx': "tx' = tx\<lparr>messages := messages tx @ [?row]\<rparr>"
    and new: "\<forall>r \<in> set (messages tx). mrow_key r \<noteq> mrow_key ?row"
    by (auto simp: insert_message_def sql_run Let_def u64_to_i64_Inr mrow_key_def split: if_splits)
  show ?thesis
    by (rule that [of ?row]) (use tx' row new in \<open>auto simp: mrow_key_def log_of_def\<close>)
qed

lemma view_add_message:
  assumes "row_to_message P row = Inr m" "mrow_key row = (l, uint h)"
    "mrow_key row \<notin> mrow_key ` set (messages tx)"
  shows "sqlite_view P (tx\<lparr>messages := messages tx @ [row]\<rparr>)
    = (sqlite_view P tx)\<lparr>v_msg := (v_msg (sqlite_view P tx))((l, h) \<mapsto> m)\<rparr>"
proof -
  have none: "find (\<lambda>r. mrow_key r = (l, uint h)) (messages tx) = None"
    using assms(2,3) by (auto simp: find_None_iff image_iff)
  have "find (\<lambda>r. mrow_key r = (l', uint h')) (messages tx @ [row])
      = (if l' = l \<and> h' = h then Some row else find (\<lambda>r. mrow_key r = (l', uint h')) (messages tx))" for l' h'
    using none by (auto simp: find_snoc assms(2) word_uint_eq_iff split: option.splits)
  then show ?thesis
    by (auto simp: sqlite_view_def fun_eq_iff assms(1))
qed

lemma rep_add_message:
  assumes "sqlite_rep P tx" "row_to_message P row = Inr m"
    "mrow_key row = (message_log m, uint (sm_head_id m))" "mrow_key row \<notin> mrow_key ` set (messages tx)"
  shows "sqlite_rep P (tx\<lparr>messages := messages tx @ [row]\<rparr>)"
  using assms by (auto simp: sqlite_rep_def good_message_row_def)

lemma insert_message_view:
  assumes "serde_codec (sq_serde P)" "valid_stored m" "sqlite_rep P tx" "insert_message P w c m tx = Inr tx'"
  shows "sqlite_rep P tx'"
    "sqlite_view P tx' = (sqlite_view P tx)\<lparr>v_msg := (v_msg (sqlite_view P tx))((message_log m, sm_head_id m) \<mapsto> m)\<rparr>"
proof -
  obtain row where tx': "tx' = tx\<lparr>messages := messages tx @ [row]\<rparr>" and row: "row_to_message P row = Inr m"
    "mrow_key row = (message_log m, uint (sm_head_id m))" "mrow_key row \<notin> mrow_key ` set (messages tx)"
    by (rule insert_message_row [OF assms(1,2,4)])
  show "sqlite_rep P tx'" unfolding tx' by (rule rep_add_message [OF assms(3) row])
  show "sqlite_view P tx' = (sqlite_view P tx)\<lparr>v_msg := (v_msg (sqlite_view P tx))((message_log m, sm_head_id m) \<mapsto> m)\<rparr>"
    unfolding tx' by (rule view_add_message [OF row])
qed

section \<open>Appending\<close>

lemma valid_stored_stamp: "valid_new m \<Longrightarrow> valid_stored (mark_deleted v (stamp m h at))"
  by (simp add: valid_new_def valid_stored_def)

lemma append_in_tx_view:
  assumes codec: "serde_codec (sq_serde P)" and m: "valid_new m" and rep: "sqlite_rep P tx"
    and run: "sqlite_append_message_in_tx P w c i m tx = Inr (tx', stored)"
  shows "sqlite_rep P tx' \<and> spec_append (sqlite_view P tx) m (now w i) = (sqlite_view P tx', stored)"
proof -
  let ?v = "sqlite_view P tx" and ?l = "log_of (nm_topic m) (nm_origin m)"
  let ?n = "saturating_add (head_of ?v ?l) 1"
  let ?tx = "tx\<lparr>heads := upsert_head \<lparr>h_topic = topic_str (nm_topic m),
      h_origin_key = node_key (nm_origin m), h_head_id = uint ?n\<rparr> (heads tx)\<rparr>"
  from run obtain x where x: "select_head w c (topic_str (nm_topic m)) (node_key (nm_origin m)) tx = Inr x"
    by (auto simp: sqlite_append_message_in_tx_def sql_run Let_def)
  have head: "(case x of None \<Rightarrow> 0 | Some h \<Rightarrow> h) = head_of ?v ?l"
    using select_head_view [OF x] by (simp add: head_of_def log_of_def)
  from run x have n: "u64_to_i64 ?n = Inr (uint ?n)"
    and mark: "sqlite_apply_tombstone_markers w (c + 2) ?tx (stamp m ?n (now w i)) = Inr stored"
    and ins: "insert_message P w (c + 3) stored ?tx = Inr tx'"
    by (auto simp: sqlite_append_message_in_tx_def sql_run Let_def head u64_to_i64_Inr stamp_def)
  have rep': "sqlite_rep P ?tx" by (rule rep_upsert_head [OF rep i64_range_uint [OF n]])
  have stored: "stored = mark_deleted ?v (stamp m ?n (now w i))"
    using apply_markers_view [OF rep' mark] by (simp add: mark_deleted_def)
  have "valid_stored stored" unfolding stored by (rule valid_stored_stamp [OF m])
  note ins' = insert_message_view [OF codec this rep' ins]
  show ?thesis
    using ins' by (simp add: spec_append_def Let_def stored log_of_def)
qed

section \<open>Marking rows as deleted\<close>

definition delete_rows :: "(messages_row \<Rightarrow> bool) \<Rightarrow> messages_row list \<Rightarrow> messages_row list" where
  "delete_rows Q rows = map (\<lambda>r. if Q r then r\<lparr>m_deleted := True\<rparr> else r) rows"

lemma mrow_key_delete [simp]: "mrow_key (r\<lparr>m_deleted := d\<rparr>) = mrow_key r"
  by (simp add: mrow_key_def)

lemma keys_delete_rows: "map mrow_key (delete_rows Q rows) = map mrow_key rows"
  by (simp add: delete_rows_def)

lemma set_delete_rows:
  "r \<in> set (delete_rows Q rows) \<Longrightarrow> \<exists>r0 \<in> set rows. r = r0 \<or> r = r0\<lparr>m_deleted := True\<rparr>"
  by (auto simp: delete_rows_def)

lemma rep_delete_rows:
  assumes "sqlite_rep P db"
  shows "sqlite_rep P (db\<lparr>messages := delete_rows Q (messages db)\<rparr>)"
proof -
  have "good_message_row P (r\<lparr>m_deleted := True\<rparr>)" if r: "r \<in> set (messages db)" for r
  proof (rule view_msg_row [OF assms r])
    fix m assume "row_to_message P r = Inr m" "mrow_key r = (message_log m, uint (sm_head_id m))"
    with row_to_message_delete [of P r m] show ?thesis
      unfolding good_message_row_def by (intro exI [of _ "m\<lparr>sm_deleted := True\<rparr>"]) simp
  qed
  then show ?thesis
    using assms by (auto simp: sqlite_rep_def keys_delete_rows dest!: set_delete_rows)
qed

lemma view_delete_rows:
  assumes rep: "sqlite_rep P db"
    and D: "\<And>r l h m. r \<in> set (messages db) \<Longrightarrow> mrow_key r = (l, uint h) \<Longrightarrow> row_to_message P r = Inr m
      \<Longrightarrow> (Q r \<longrightarrow> D l h) \<and> (D l h \<longrightarrow> Q r \<or> m_deleted r)"
  shows "sqlite_view P (db\<lparr>messages := delete_rows Q (messages db)\<rparr>)
    = (sqlite_view P db)\<lparr>v_msg := (\<lambda>(l, h). if D l h then map_option (\<lambda>m. m\<lparr>sm_deleted := True\<rparr>)
        (v_msg (sqlite_view P db) (l, h)) else v_msg (sqlite_view P db) (l, h))\<rparr>"
proof -
  have "v_msg (sqlite_view P (db\<lparr>messages := delete_rows Q (messages db)\<rparr>)) (l, h) =
      (if D l h then map_option (\<lambda>m. m\<lparr>sm_deleted := True\<rparr>) (v_msg (sqlite_view P db) (l, h))
       else v_msg (sqlite_view P db) (l, h))" for l h
  proof (cases "find (\<lambda>r. mrow_key r = (l, uint h)) (messages db)")
    case None
    then show ?thesis by (simp add: sqlite_view_def delete_rows_def find_map_rows)
  next
    case (Some r)
    then have r: "r \<in> set (messages db)" "mrow_key r = (l, uint h)" by (auto dest: find_SomeD)
    obtain m where m: "row_to_message P r = Inr m" by (rule view_msg_row [OF rep r(1)])
    have flag: "m_deleted r \<Longrightarrow> m\<lparr>sm_deleted := True\<rparr> = m"
      using row_to_message_flag [OF m] by (simp add: delete_flag_id)
    from Some m D [OF r m] flag row_to_message_delete [OF m] show ?thesis
      by (auto simp: sqlite_view_def delete_rows_def find_map_rows)
  qed
  then show ?thesis by (auto simp: sqlite_view_def fun_eq_iff)
qed

section \<open>Replicated messages\<close>

lemma same_message_iff: "sqlite_same_message_except_deleted x y \<longleftrightarrow> same_except_deleted x y"
  by (cases x; cases y) (auto simp: sqlite_same_message_except_deleted_def same_except_deleted_def)

lemma put_view:
  assumes codec: "serde_codec (sq_serde P)" and m: "valid_stored m" and inv: "sqlite_inv P db"
    and run: "sqlite_put_replicated_message P w m db = (db', Inr r)"
  shows "sqlite_inv P db' \<and> spec_put (sqlite_view P db) m = Some (sqlite_view P db', r)"
proof -
  let ?v = "sqlite_view P db"
  let ?m = "mark_deleted ?v m" and ?l = "message_log m" and ?h = "sm_head_id m"
  have rep: "sqlite_rep P db" and wf: "wf_view ?v" using inv by (auto simp: sqlite_inv_def)
  have h: "?h \<noteq> 0" using run by (auto simp: sqlite_put_replicated_message_def)
  from run h obtain m' where mark: "sqlite_apply_tombstone_markers w 2 db m = Inr m'"
    by (auto simp: sqlite_put_replicated_message_def sql_run Let_def)
  have m': "m' = ?m" by (rule apply_markers_view [OF rep mark])
  from run h mark m' obtain x where sel: "select_message P w 3 (topic_str (sm_topic m)) (node_key (sm_origin m)) ?h db = Inr x"
    by (auto simp: sqlite_put_replicated_message_def sql_run Let_def)
  have x: "x = v_msg ?v (?l, ?h)" using select_message_view [OF rep sel] by (simp add: log_of_def)
  have step: "sqlite_rep P db' \<and> spec_put ?v m = Some (sqlite_view P db', r)"
  proof (cases x)
    case (Some old)
    note old = wf_view_placed [OF wf x [symmetric, unfolded Some]]
    consider "old = ?m" "db' = db" "r = AlreadyPresent"
      | "old \<noteq> ?m" "same_except_deleted old ?m" "sm_deleted ?m" "r = Inserted"
        "db' = db\<lparr>messages := delete_rows (\<lambda>r. mrow_key r = (?l, uint ?h)) (messages db)\<rparr>"
      using run h mark m' sel Some
      by (auto simp: sqlite_put_replicated_message_def sql_run Let_def u64_to_i64_Inr same_message_iff
          delete_rows_def mrow_key_def log_of_def cong: if_cong split: if_splits)
    then show ?thesis
    proof cases
      case 1
      with rep spec_put_old [OF x [symmetric, unfolded Some] h] show ?thesis by simp
    next
      case 2
      have view': "sqlite_view P db' = ?v\<lparr>v_msg := (\<lambda>(l, h). if l = ?l \<and> h = ?h
          then map_option (\<lambda>m. m\<lparr>sm_deleted := True\<rparr>) (v_msg ?v (l, h)) else v_msg ?v (l, h))\<rparr>"
        unfolding 2(5) by (rule view_delete_rows [OF rep]) (simp add: word_uint_eq_iff)
      also have "\<dots> = ?v\<lparr>v_msg := (v_msg ?v)((?l, ?h) \<mapsto> ?m)\<rparr>"
      proof -
        have "v_msg ?v (?l, ?h) = Some old" using x Some by simp
        with same_except_deleted_replace [OF 2(2,3)]
        have "(\<lambda>(l, h). if l = ?l \<and> h = ?h then map_option (\<lambda>m. m\<lparr>sm_deleted := True\<rparr>) (v_msg ?v (l, h))
            else v_msg ?v (l, h)) = (v_msg ?v)((?l, ?h) \<mapsto> ?m)" by (auto simp: fun_eq_iff)
        then show ?thesis by (rule arg_cong)
      qed
      finally show ?thesis
        using rep_delete_rows [OF rep] 2 spec_put_old [OF x [symmetric, unfolded Some] h] by simp
    qed
  next
    case None
    from run h mark m' sel None obtain y where
      head: "select_head w 6 (topic_str (sm_topic m)) (node_key (sm_origin m)) db = Inr y"
      by (auto simp: sqlite_put_replicated_message_def sql_run Let_def)
    have cur: "(case y of None \<Rightarrow> 0 | Some h \<Rightarrow> h) = head_of ?v ?l"
      using select_head_view [OF head, of P] by (simp add: head_of_def log_of_def)
    from run h mark m' sel None head obtain tx where
      gap: "\<not> saturating_add (head_of ?v ?l) 1 < ?h" and ins: "insert_message P w 7 ?m db = Inr tx"
      by (auto simp: sqlite_put_replicated_message_def sql_run Let_def cur split: if_splits)
    have less: "head_of ?v ?l < ?h" using wf_view_head_next [OF wf h _ gap] x None by simp
    with run h mark m' sel None head gap ins have hi: "u64_to_i64 ?h = Inr (uint ?h)" and r: "r = Inserted"
      and db': "db' = tx\<lparr>heads := upsert_head \<lparr>h_topic = topic_str (sm_topic m),
          h_origin_key = node_key (sm_origin m), h_head_id = uint ?h\<rparr> (heads tx)\<rparr>"
      by (auto simp: sqlite_put_replicated_message_def sql_run Let_def cur u64_to_i64_Inr)
    have "valid_stored ?m" using m by (simp add: valid_stored_def)
    note ins' = insert_message_view [OF codec this rep ins]
    show ?thesis
      using rep_upsert_head [OF ins'(1) i64_range_uint [OF hi]] ins'(2) gap less
        spec_put_new [OF x [symmetric, unfolded None] h]
      unfolding db' by (simp add: r log_of_def)
  qed
  with spec_put_wf [OF wf] show ?thesis by (auto simp: sqlite_inv_def)
qed

section \<open>Rows of one log\<close>

definition log_rows :: "sqlite_db \<Rightarrow> log_key \<Rightarrow> messages_row list \<Rightarrow> bool" where
  "log_rows db l rs \<longleftrightarrow> distinct rs \<and> (\<forall>r \<in> set rs. r \<in> set (messages db) \<and> (m_topic r, m_origin_key r) = l)"

definition row_head :: "messages_row \<Rightarrow> u64" where
  "row_head r = word_of_int (m_head_id r)"

lemma row_head_msg:
  assumes "sqlite_rep P db" "r \<in> set (messages db)" "(m_topic r, m_origin_key r) = l"
  obtains m where "row_to_message P r = Inr m" "m_head_id r = uint (row_head r)" "sm_head_id m = row_head r"
    "message_log m = l" "v_msg (sqlite_view P db) (l, row_head r) = Some m"
proof (rule view_msg_row [OF assms(1,2)])
  fix m assume m: "row_to_message P r = Inr m" "mrow_key r = (message_log m, uint (sm_head_id m))"
    "v_msg (sqlite_view P db) (message_log m, sm_head_id m) = Some m"
  then have h: "m_head_id r = uint (sm_head_id m)" "message_log m = l" using assms(3) by (auto simp: mrow_key_def)
  then have "row_head r = sm_head_id m" by (simp add: row_head_def)
  with m h show thesis by (intro that [of m]) simp_all
qed

lemma log_rows_heads_distinct:
  assumes "sqlite_rep P db" "log_rows db l rs"
  shows "distinct (map row_head rs)"
proof -
  have "r = r'" if "r \<in> set rs" "r' \<in> set rs" "row_head r = row_head r'" for r r'
  proof -
    have r: "r \<in> set (messages db)" "(m_topic r, m_origin_key r) = l"
      and r': "r' \<in> set (messages db)" "(m_topic r', m_origin_key r') = l"
      using that assms(2) by (auto simp: log_rows_def)
    have "m_head_id r = m_head_id r'"
      using row_head_msg [OF assms(1) r] row_head_msg [OF assms(1) r'] that(3) by metis
    with r(2) r'(2) have "mrow_key r = mrow_key r'" by (simp add: mrow_key_def)
    then show ?thesis
      using sqlite_rep_simps(3) [OF assms(1)] r(1) r'(1) by (auto simp: distinct_map dest: inj_onD)
  qed
  then show ?thesis using assms(2) by (auto simp: distinct_map log_rows_def intro: inj_onI)
qed

lemma distinct_messages: "sqlite_rep P db \<Longrightarrow> distinct (messages db)"
  by (metis distinct_map sqlite_rep_simps(3))

section \<open>Tombstones\<close>

lemma select_insert:
  "{(f r, g r) | r. r \<in> insert x A \<and> q r = l} =
    (if q x = l then insert (f x, g x) {(f r, g r) | r. r \<in> A \<and> q r = l} else {(f r, g r) | r. r \<in> A \<and> q r = l})"
  by auto

lemma view_insert_tombstone:
  "sqlite_view P (tx\<lparr>tombstones := insert_or_ignore \<lparr>t_topic = t, t_origin_key = k, t_from_head_id = a,
      t_to_head_id = b, t_created_at_ms = c, t_range_json = j\<rparr> (tombstones tx)\<rparr>)
    = (sqlite_view P tx)\<lparr>v_tomb := (v_tomb (sqlite_view P tx))((t, k) :=
        insert (word_of_int a, word_of_int b) (v_tomb (sqlite_view P tx) (t, k)))\<rparr>"
proof -
  let ?row = "\<lparr>t_topic = t, t_origin_key = k, t_from_head_id = a, t_to_head_id = b, t_created_at_ms = c, t_range_json = j\<rparr>"
  have set: "set (upsert_by key (\<lambda>r. r) row rs) = (if key row \<in> key ` set rs then set rs else insert row (set rs))"
    for key :: "tombstones_row \<Rightarrow> 'k" and row rs
    by (induction rs) auto
  let ?key = "\<lambda>r. (t_topic r, t_origin_key r, t_from_head_id r, t_to_head_id r)"
  let ?pairs = "\<lambda>l rs. {(word_of_int (t_from_head_id r) :: u64, word_of_int (t_to_head_id r) :: u64) | r.
      r \<in> set rs \<and> (t_topic r, t_origin_key r) = l}"
  have pairs: "?pairs l (insert_or_ignore ?row (tombstones tx))
      = (if l = (t, k) then insert (word_of_int a, word_of_int b) (?pairs l (tombstones tx)) else ?pairs l (tombstones tx))" for l
  proof (cases "?key ?row \<in> ?key ` set (tombstones tx)")
    case True
    then obtain r where "r \<in> set (tombstones tx)" "t_topic r = t" "t_origin_key r = k"
      "t_from_head_id r = a" "t_to_head_id r = b" by auto
    then have "(word_of_int a, word_of_int b) \<in> ?pairs (t, k) (tombstones tx)" by blast
    then show ?thesis using True by (auto simp: insert_or_ignore_def set)
  next
    case False
    then have "set (insert_or_ignore ?row (tombstones tx)) = insert ?row (set (tombstones tx))"
      unfolding insert_or_ignore_def set by (rule if_not_P)
    then show ?thesis by (simp only: select_insert) simp
  qed
  show ?thesis
    using pairs by (auto simp: sqlite_view_def fun_eq_iff)
qed

lemma rep_insert_tombstone:
  assumes "sqlite_rep P tx" "i64_range a" "i64_range b"
  shows "sqlite_rep P (tx\<lparr>tombstones := insert_or_ignore \<lparr>t_topic = t, t_origin_key = k, t_from_head_id = a,
      t_to_head_id = b, t_created_at_ms = c, t_range_json = j\<rparr> (tombstones tx)\<rparr>)"
  using assms by (auto simp: sqlite_rep_def insert_or_ignore_def dest!: set_upsert_by)

lemma tombstone_count:
  assumes rep: "sqlite_rep P tx"
  shows "length (filter (\<lambda>r. m_topic r = t \<and> m_origin_key r = k \<and> uint a \<le> m_head_id r \<and> m_head_id r \<le> uint b
      \<and> \<not> m_deleted r) (messages tx)) = card (tombstone_hits (sqlite_view P tx) (t, k) a b)"
    (is "length ?rs = _")
proof -
  have rows: "log_rows tx (t, k) ?rs" using distinct_messages [OF rep] by (auto simp: log_rows_def)
  have "set (map row_head ?rs) = tombstone_hits (sqlite_view P tx) (t, k) a b"
  proof (intro set_eqI iffI)
    fix h assume "h \<in> set (map row_head ?rs)"
    then obtain r where r: "r \<in> set ?rs" "h = row_head r" by auto
    then obtain m where "row_to_message P r = Inr m" "m_head_id r = uint h"
      "v_msg (sqlite_view P tx) ((t, k), h) = Some m"
      using row_head_msg [OF rep, of r "(t, k)"] by auto
    with r show "h \<in> tombstone_hits (sqlite_view P tx) (t, k) a b"
      by (auto simp: tombstone_hits_def word_le_def dest: row_to_message_flag)
  next
    fix h assume "h \<in> tombstone_hits (sqlite_view P tx) (t, k) a b"
    then obtain m where m: "a \<le> h" "h \<le> b" "v_msg (sqlite_view P tx) ((t, k), h) = Some m" "\<not> sm_deleted m"
      by (auto simp: tombstone_hits_def)
    then obtain r where "r \<in> set (messages tx)" "mrow_key r = ((t, k), uint h)" "row_to_message P r = Inr m"
      by (auto simp: view_msg_Some [OF rep])
    with m have "r \<in> set ?rs" "row_head r = h"
      by (auto simp: mrow_key_def row_head_def word_le_def dest: row_to_message_flag)
    then show "h \<in> set (map row_head ?rs)" by force
  qed
  then show ?thesis
    using distinct_card [OF log_rows_heads_distinct [OF rep rows]] by simp
qed

lemma tombstone_in_tx_view:
  assumes rep: "sqlite_rep P tx" and run: "sqlite_tombstone_range_in_tx P w c t n a b at tx = Inr (tx', k)"
  shows "sqlite_rep P tx' \<and> spec_tombstone (sqlite_view P tx) (log_of t n) a b = (sqlite_view P tx', k)"
proof -
  let ?hit = "\<lambda>r. m_topic r = topic_str t \<and> m_origin_key r = node_key n \<and> uint a \<le> m_head_id r
      \<and> m_head_id r \<le> uint b \<and> \<not> m_deleted r"
  let ?tx = "tx\<lparr>messages := delete_rows ?hit (messages tx)\<rparr>"
  from run obtain ci j where ab: "u64_to_i64 a = Inr (uint a)" "u64_to_i64 b = Inr (uint b)"
    and k: "k = of_nat (length (filter ?hit (messages tx)))"
    and tx': "tx' = ?tx\<lparr>tombstones := insert_or_ignore \<lparr>t_topic = topic_str t, t_origin_key = node_key n,
        t_from_head_id = uint a, t_to_head_id = uint b, t_created_at_ms = ci, t_range_json = j\<rparr> (tombstones ?tx)\<rparr>"
    by (auto simp: sqlite_tombstone_range_in_tx_def sql_run Let_def u64_to_i64_Inr delete_rows_def)
  have rep': "sqlite_rep P ?tx" by (rule rep_delete_rows [OF rep])
  have "sqlite_view P ?tx = (sqlite_view P tx)\<lparr>v_msg := (\<lambda>(l, h). if l = log_of t n \<and> a \<le> h \<and> h \<le> b
      then map_option (\<lambda>m. m\<lparr>sm_deleted := True\<rparr>) (v_msg (sqlite_view P tx) (l, h))
      else v_msg (sqlite_view P tx) (l, h))\<rparr>"
    by (rule view_delete_rows [OF rep]) (auto simp: mrow_key_def log_of_def word_le_def)
  then have "sqlite_view P tx' = fst (spec_tombstone (sqlite_view P tx) (log_of t n) a b)"
    unfolding tx' view_insert_tombstone by (simp add: spec_tombstone_def delete_between_def log_of_def)
  moreover have "sqlite_rep P tx'"
    unfolding tx' by (rule rep_insert_tombstone [OF rep']) (use ab i64_range_uint in blast)+
  ultimately show ?thesis
    using tombstone_count [OF rep, of "topic_str t" "node_key n" a b]
    by (simp add: k spec_tombstone_def log_of_def)
qed

section \<open>Reading the log\<close>

lemma limit_page_size: "sqlite_effective_limit n = page_size n"
  by (simp add: sqlite_effective_limit_def page_size_def)

lemma fetch_view:
  assumes rep: "sqlite_rep P db" and run: "sqlite_fetch_messages P w q db = Inr ms"
  shows "ms = spec_fetch (sqlite_view P db) (log_of (fq_topic q) (fq_origin q)) (fq_from_head_id q) (fq_limit q)"
proof -
  let ?v = "sqlite_view P db" and ?l = "log_of (fq_topic q) (fq_origin q)" and ?from = "fq_from_head_id q"
  let ?sel = "filter (\<lambda>r. m_topic r = topic_str (fq_topic q) \<and> m_origin_key r = node_key (fq_origin q)
      \<and> uint ?from \<le> m_head_id r) (messages db)"
  let ?rs = "sort_key m_head_id ?sel"
  from run have run': "collect_rows w 3 (row_to_message P) (take (page_size (fq_limit q)) ?rs) = Inr ms"
    by (auto simp: sqlite_fetch_messages_def sql_run Let_def u64_to_i64_Inr limit_page_size)
  have rows: "log_rows db ?l ?rs"
    using distinct_messages [OF rep] by (auto simp: log_rows_def log_of_def)
  have row: "row_to_message P r = Inr (the (v_msg ?v (?l, row_head r)))" "m_head_id r = uint (row_head r)"
    "v_msg ?v (?l, row_head r) \<noteq> None" if "r \<in> set ?rs" for r
  proof -
    have "r \<in> set (messages db)" "(m_topic r, m_origin_key r) = ?l" using rows that by (auto simp: log_rows_def)
    then obtain m where "row_to_message P r = Inr m" "m_head_id r = uint (row_head r)"
      "v_msg ?v (?l, row_head r) = Some m" by (rule row_head_msg [OF rep])
    then show "row_to_message P r = Inr (the (v_msg ?v (?l, row_head r)))"
      "m_head_id r = uint (row_head r)" "v_msg ?v (?l, row_head r) \<noteq> None" by simp_all
  qed
  have "sorted (map m_head_id ?rs)" by (rule sorted_sort_key)
  then have sm: "sorted_wrt (\<lambda>x y. m_head_id x \<le> m_head_id y) ?rs" by (simp only: sorted_map)
  have "row_head x \<le> row_head y" if "x \<in> set ?rs" "y \<in> set ?rs" "m_head_id x \<le> m_head_id y" for x y
    using that(3) row(2) [OF that(1)] row(2) [OF that(2)] unfolding word_le_def by linarith
  from sorted_wrt_mono_rel [OF this sm] have "sorted (map row_head ?rs)" by (simp only: sorted_map)
  moreover have "set (map row_head ?rs) = heads_from ?v ?l ?from"
  proof (intro set_eqI iffI)
    fix h assume "h \<in> set (map row_head ?rs)"
    then obtain r where r: "r \<in> set ?rs" "h = row_head r" by auto
    then have "uint ?from \<le> m_head_id r" by simp
    with r row [OF r(1)] show "h \<in> heads_from ?v ?l ?from" by (simp add: heads_from_def word_le_def)
  next
    fix h assume "h \<in> heads_from ?v ?l ?from"
    then obtain m where m: "?from \<le> h" "v_msg ?v (?l, h) = Some m" by (auto simp: heads_from_def)
    then obtain r where "r \<in> set (messages db)" "mrow_key r = (?l, uint h)"
      by (auto simp: view_msg_Some [OF rep])
    with m have "r \<in> set ?rs" "row_head r = h" by (auto simp: mrow_key_def log_of_def row_head_def word_le_def)
    then show "h \<in> set (map row_head ?rs)" by force
  qed
  ultimately have heads: "map row_head ?rs = sorted_list_of_set (heads_from ?v ?l ?from)"
    by (rule sorted_distinct_unique [OF _ log_rows_heads_distinct [OF rep rows]])
  have "ms = map (\<lambda>r. the (v_msg ?v (?l, row_head r))) (take (page_size (fq_limit q)) ?rs)"
    by (rule collect_rows_map [OF run']) (rule row(1), rule in_set_takeD)
  then show ?thesis
    by (simp add: spec_fetch_def heads [symmetric] take_map comp_def)
qed

lemma joined_heads_row:
  assumes rep: "sqlite_rep P db" and hm: "(r, m) \<in> set (joined_heads db)"
  shows "r \<in> set (heads db)"
    "row_to_topic_head P (r, m) = Inr (head_entry (sqlite_view P db) (hrow_key r))"
proof -
  have r: "r \<in> set (heads db)" and m: "m \<in> set (messages db)" and on: "mrow_key m = (hrow_key r, h_head_id r)"
    using hm by (auto simp: joined_heads_def mrow_key_def hrow_key_def)
  have range: "i64_range (h_head_id r)" by (rule sqlite_rep_simps(2) [OF rep r])
  have head: "v_head (sqlite_view P db) (hrow_key r) = Some (word_of_int (h_head_id r))"
    using find_key_iff [OF sqlite_rep_simps(1) [OF rep], of "hrow_key r" r] r by (simp add: view_head)
  show "r \<in> set (heads db)" by (rule r)
  show "row_to_topic_head P (r, m) = Inr (head_entry (sqlite_view P db) (hrow_key r))"
  proof (rule view_msg_row [OF rep m])
    fix x assume x: "row_to_message P m = Inr x" "mrow_key m = (message_log x, uint (sm_head_id x))"
      "v_msg (sqlite_view P db) (message_log x, sm_head_id x) = Some x"
    have eq: "message_log x = hrow_key r" "uint (sm_head_id x) = h_head_id r" using x(2) on by auto
    have h: "sm_head_id x = word_of_int (h_head_id r)" using eq(2) by (metis word_of_int_uint)
    have entry: "head_entry (sqlite_view P db) (hrow_key r) =
        \<lparr>th_topic = sm_topic x, th_origin = sm_origin x, th_head_id = word_of_int (h_head_id r)\<rparr>"
      using x(3) head by (simp add: head_entry_def eq(1) h)
    have "topic_new (m_topic m) = Inr (sm_topic x)" "de_node (sq_serde P) (m_origin_json m) = Inr (sm_origin x)"
      using x(1) by (auto simp: row_to_message_def and_then_eq_Inr)
    moreover have "h_topic r = m_topic m" using on by (auto simp: mrow_key_def hrow_key_def)
    ultimately show ?thesis
      using range by (auto simp: row_to_topic_head_def entry i64_to_u64_range and_then_eq_Inr)
  qed
qed

lemma list_heads_view:
  assumes inv: "sqlite_inv P db" and run: "sqlite_list_heads P w db = Inr hs"
  shows "\<exists>ls. distinct ls \<and> set ls = dom (v_head (sqlite_view P db)) \<and> hs = map (head_entry (sqlite_view P db)) ls"
proof -
  let ?v = "sqlite_view P db"
  let ?js = "sort_key (\<lambda>(h, m). (h_topic h, h_origin_key h)) (joined_heads db)"
  let ?ls = "map (\<lambda>(r, m). hrow_key r) ?js"
  have rep: "sqlite_rep P db" and wf: "wf_view ?v" using inv by (auto simp: sqlite_inv_def)
  have "distinct (joined_heads db)"
    using sqlite_rep_simps(1) [OF rep] distinct_messages [OF rep]
    by (auto simp: joined_heads_def distinct_map intro!: distinct_filter distinct_product)
  moreover have "inj_on (\<lambda>(r, m). hrow_key r) (set (joined_heads db))"
  proof (rule inj_onI, clarify)
    fix r m r' m' assume j: "(r, m) \<in> set (joined_heads db)" "(r', m') \<in> set (joined_heads db)"
      and eq: "hrow_key r = hrow_key r'"
    from j have "r \<in> set (heads db)" "r' \<in> set (heads db)" by (auto simp: joined_heads_def)
    with eq have rr: "r = r'"
      using sqlite_rep_simps(1) [OF rep] by (auto simp: distinct_map dest: inj_onD)
    from j have "m \<in> set (messages db)" "m' \<in> set (messages db)" "mrow_key m = mrow_key m'"
      by (auto simp: joined_heads_def mrow_key_def rr)
    then have "m = m'" using sqlite_rep_simps(3) [OF rep] by (auto simp: distinct_map dest: inj_onD)
    with rr show "r = r' \<and> m = m'" by simp
  qed
  ultimately have distinct: "distinct ?ls" by (simp add: distinct_map)
  have "hs = map (\<lambda>(r, m). head_entry ?v (hrow_key r)) ?js"
    by (rule collect_rows_map [of w 3 "row_to_topic_head P"])
      (use run joined_heads_row(2) [OF rep] in \<open>auto simp: sqlite_list_heads_def sql_run\<close>)
  then have hs: "hs = map (head_entry ?v) ?ls" by (simp add: comp_def case_prod_beta)
  have "set ?ls = dom (v_head ?v)"
  proof (intro set_eqI iffI)
    fix l assume "l \<in> set ?ls"
    then obtain r m where "(r, m) \<in> set (joined_heads db)" "l = hrow_key r" by auto
    then show "l \<in> dom (v_head ?v)"
      using joined_heads_row(1) [OF rep] find_key_iff [OF sqlite_rep_simps(1) [OF rep], of l r]
      by (auto simp: view_head)
  next
    fix l assume "l \<in> dom (v_head ?v)"
    then obtain r where f: "find (\<lambda>r. hrow_key r = l) (heads db) = Some r" by (auto simp: view_head)
    then have r: "r \<in> set (heads db)" "hrow_key r = l" and head: "v_head ?v l = Some (word_of_int (h_head_id r))"
      by (auto simp: view_head dest: find_SomeD)
    obtain x where "v_msg ?v (l, word_of_int (h_head_id r)) = Some x" using wf_view_head_stored [OF wf head] by blast
    then obtain m where "m \<in> set (messages db)" "mrow_key m = (l, h_head_id r)"
      using uint_word_of_i64 [OF sqlite_rep_simps(2) [OF rep r(1)]] by (auto simp: view_msg_Some [OF rep])
    with r have "(r, m) \<in> set (joined_heads db)" by (auto simp: joined_heads_def mrow_key_def hrow_key_def)
    with r(2) show "l \<in> set ?ls" by force
  qed
  with distinct hs show ?thesis by blast
qed

section \<open>Queues\<close>

lemma row_u32_uint [simp]: "row_u32 P (uint a) = Inr a"
  using uint_lt2p [of a] by (simp add: row_u32_def)

lemma row_to_fifo_attempts:
  "row_to_fifo P r = Inr m \<Longrightarrow> row_to_fifo P (r\<lparr>f_attempts := uint a\<rparr>) = Inr (m\<lparr>sf_attempts := a\<rparr>)"
  by (auto simp: row_to_fifo_def and_then_eq_Inr)

lemma frow_key_attempts [simp]: "frow_key (r\<lparr>f_attempts := a\<rparr>) = frow_key r"
  by (simp add: frow_key_def)

lemma select_sequence_view:
  assumes "select_sequence w c q db = Inr x"
  shows "x = v_seq (sqlite_view P db) q"
  using assms by (cases "find (\<lambda>r. s_queue r = q) (fifo_sequences db)")
    (auto simp: select_sequence_def sqlite_view_def sql_run transpose_opt_eq_Inr i64_to_u64_Inr)

lemma view_upsert_sequence:
  "sqlite_view P (tx\<lparr>fifo_sequences := upsert_sequence \<lparr>s_queue = q, s_sequence = i\<rparr> (fifo_sequences tx)\<rparr>)
    = (sqlite_view P tx)\<lparr>v_seq := (v_seq (sqlite_view P tx))(q \<mapsto> word_of_int i)\<rparr>"
proof -
  have "find (\<lambda>r. s_queue r = k) (upsert_sequence \<lparr>s_queue = q, s_sequence = i\<rparr> (fifo_sequences tx))
      = (if k = q then Some (case find (\<lambda>r. s_queue r = k) (fifo_sequences tx) of
            None \<Rightarrow> \<lparr>s_queue = q, s_sequence = i\<rparr> | Some r \<Rightarrow> r\<lparr>s_sequence := i\<rparr>)
         else find (\<lambda>r. s_queue r = k) (fifo_sequences tx))" for k
    unfolding upsert_sequence_def by (subst find_upsert_by) (auto split: option.split)
  then show ?thesis by (auto simp: sqlite_view_def fun_eq_iff split: option.splits)
qed

lemma rep_upsert_sequence:
  assumes "sqlite_rep P tx" "i64_range i"
  shows "sqlite_rep P (tx\<lparr>fifo_sequences := upsert_sequence \<lparr>s_queue = q, s_sequence = i\<rparr> (fifo_sequences tx)\<rparr>)"
proof -
  let ?rs = "upsert_sequence \<lparr>s_queue = q, s_sequence = i\<rparr> (fifo_sequences tx)"
  have "distinct (map s_queue ?rs)"
    unfolding upsert_sequence_def by (rule distinct_upsert_by) (auto simp: sqlite_rep_simps(6) [OF assms(1)])
  moreover have "\<forall>r \<in> set ?rs. i64_range (s_sequence r)"
    unfolding upsert_sequence_def by (auto dest!: set_upsert_by simp: assms(2) sqlite_rep_simps(7) [OF assms(1)])
  ultimately show ?thesis using assms(1) by (simp add: sqlite_rep_def)
qed

lemma insert_fifo_view:
  assumes codec: "serde_codec (sq_serde P)" and rep: "sqlite_rep P tx"
    and valid: "valid_part (message_id_str (sf_id m))" "valid_part (queue_str (sf_queue m))" "valid_part (topic_str (sf_topic m))"
    and ins: "insert_fifo P w c m tx = Inr tx'"
  shows "sqlite_rep P tx'"
    "sqlite_view P tx' = (sqlite_view P tx)\<lparr>v_fifo := (v_fifo (sqlite_view P tx))((queue_str (sf_queue m), sf_sequence m) \<mapsto> m)\<rparr>"
proof -
  from ins obtain js jt jh where json: "ser_node (sq_serde P) (sf_source m) = Inr js"
    "ser_node (sq_serde P) (sf_target m) = Inr jt" "ser_headers (sq_serde P) (sf_headers m) = Inr jh"
    by (auto simp: insert_fifo_def sql_run)
  let ?row = "\<lparr>f_queue = queue_str (sf_queue m), f_sequence = uint (sf_sequence m), f_id = message_id_str (sf_id m),
    f_topic = topic_str (sf_topic m), f_source_json = js, f_target_json = jt, f_payload = sf_payload m,
    f_headers_json = jh, f_created_at_ms = uint (sf_created_at_ms m), f_attempts = uint (sf_attempts m)\<rparr>"
  have dec: "de_node (sq_serde P) js = Inr (sf_source m)" "de_node (sq_serde P) jt = Inr (sf_target m)"
    "de_headers (sq_serde P) jh = Inr (sf_headers m)"
    using json codec by (auto dest: round_tripsD serde_codec.node_json serde_codec.headers_json)
  have row: "row_to_fifo P ?row = Inr m"
    using valid dec by (auto simp: row_to_fifo_def and_then_eq_Inr)
  have key: "frow_key ?row = (queue_str (sf_queue m), uint (sf_sequence m))" by (simp add: frow_key_def)
  from ins json have tx': "tx' = tx\<lparr>fifo_messages := fifo_messages tx @ [?row]\<rparr>"
    and new: "\<forall>r \<in> set (fifo_messages tx). frow_key r \<noteq> frow_key ?row"
    by (auto simp: insert_fifo_def sql_run Let_def u64_to_i64_Inr frow_key_def split: if_splits)
  show "sqlite_rep P tx'"
    using rep new row key unfolding tx' by (auto simp: sqlite_rep_def good_fifo_row_def)
  have none: "find (\<lambda>r. frow_key r = frow_key ?row) (fifo_messages tx) = None" using new by (simp add: find_None_iff)
  have "find (\<lambda>r. frow_key r = (q, uint n)) (fifo_messages tx @ [?row]) =
      (if q = queue_str (sf_queue m) \<and> n = sf_sequence m then Some ?row
       else find (\<lambda>r. frow_key r = (q, uint n)) (fifo_messages tx))" for q n
    using none unfolding find_snoc key by (auto simp: word_uint_eq_iff split: option.splits)
  then show "sqlite_view P tx' = (sqlite_view P tx)\<lparr>v_fifo := (v_fifo (sqlite_view P tx))((queue_str (sf_queue m), sf_sequence m) \<mapsto> m)\<rparr>"
    unfolding tx' by (auto simp: sqlite_view_def fun_eq_iff row)
qed

lemma enqueue_view:
  assumes codec: "serde_codec (sq_serde P)" and f: "valid_fifo f" and inv: "sqlite_inv P db"
    and run: "sqlite_enqueue_fifo P w f db = (db', Inr g)"
  shows "sqlite_inv P db' \<and> spec_enqueue (sqlite_view P db) f (now w 0) = (sqlite_view P db', g)"
proof -
  let ?v = "sqlite_view P db" and ?q = "queue_str (nf_queue f)"
  let ?n = "saturating_add (seq_of ?v ?q) 1"
  let ?tx = "db\<lparr>fifo_sequences := upsert_sequence \<lparr>s_queue = ?q, s_sequence = uint ?n\<rparr> (fifo_sequences db)\<rparr>"
  have rep: "sqlite_rep P db" and wf: "wf_view ?v" using inv by (auto simp: sqlite_inv_def)
  from run obtain x where x: "select_sequence w 2 ?q db = Inr x"
    by (auto simp: sqlite_enqueue_fifo_def sql_run Let_def)
  have cur: "(case x of None \<Rightarrow> 0 | Some n \<Rightarrow> n) = seq_of ?v ?q"
    using select_sequence_view [OF x, of P] by (simp add: seq_of_def)
  from run x have n: "u64_to_i64 ?n = Inr (uint ?n)" and g: "g = enqueued f ?n (now w 0)"
    and ins: "insert_fifo P w 4 g ?tx = Inr db'"
    by (auto simp: sqlite_enqueue_fifo_def sql_run Let_def cur u64_to_i64_Inr enqueued_def)
  have rep': "sqlite_rep P ?tx" by (rule rep_upsert_sequence [OF rep i64_range_uint [OF n]])
  have "valid_part (message_id_str (sf_id g))" "valid_part (queue_str (sf_queue g))" "valid_part (topic_str (sf_topic g))"
    using f by (auto simp: g enqueued_def valid_fifo_def)
  note ins' = insert_fifo_view [OF codec rep' this ins]
  have spec: "spec_enqueue ?v f (now w 0) = (sqlite_view P db', g)"
    using ins'(2) by (simp add: spec_enqueue_def Let_def view_upsert_sequence g) (simp add: enqueued_def)
  with spec_enqueue_wf [OF wf, of f "now w 0"] ins'(1) show ?thesis by (simp add: sqlite_inv_def)
qed

lemma view_fifo_row:
  assumes "sqlite_rep P db" "r \<in> set (fifo_messages db)" "f_queue r = q"
  obtains m where "row_to_fifo P r = Inr m" "f_sequence r = uint (sf_sequence m)" "queue_str (sf_queue m) = q"
    "v_fifo (sqlite_view P db) (q, sf_sequence m) = Some m"
proof -
  from sqlite_rep_simps(9) [OF assms(1,2)] obtain m where
    m: "row_to_fifo P r = Inr m" "frow_key r = (queue_str (sf_queue m), uint (sf_sequence m))"
    by (auto simp: good_fifo_row_def)
  with assms(2,3) have "v_fifo (sqlite_view P db) (q, sf_sequence m) = Some m"
    by (auto simp: view_fifo_Some [OF assms(1)] frow_key_def)
  with m assms(3) that show ?thesis by (auto simp: frow_key_def)
qed

lemma select_front_view:
  assumes inv: "sqlite_inv P db" and run: "select_front P w c q db = Inr x"
  shows "x = spec_front (sqlite_view P db) q"
proof -
  let ?v = "sqlite_view P db" and ?rs = "sort_key f_sequence (filter (\<lambda>r. f_queue r = q) (fifo_messages db))"
  have rep: "sqlite_rep P db" and wf: "wf_view ?v" using inv by (auto simp: sqlite_inv_def)
  have set_rs: "set ?rs = {r \<in> set (fifo_messages db). f_queue r = q}" by auto
  have in_rs: "\<exists>r \<in> set ?rs. f_sequence r = uint n" if n: "n \<in> pending ?v q" for n
  proof -
    from n obtain m where "v_fifo ?v (q, n) = Some m" by (auto simp: pending_def)
    then obtain r where "r \<in> set (fifo_messages db)" "frow_key r = (q, uint n)" by (auto simp: view_fifo_Some [OF rep])
    then show ?thesis unfolding set_rs by (auto simp: frow_key_def)
  qed
  show ?thesis
  proof (cases ?rs)
    case Nil
    with in_rs have "pending ?v q = {}" by auto
    with run Nil show ?thesis by (simp add: select_front_def sql_run spec_front_def)
  next
    case (Cons r rs)
    then have r: "r \<in> set (fifo_messages db)" "f_queue r = q" using set_rs by auto
    obtain m where m: "row_to_fifo P r = Inr m" "f_sequence r = uint (sf_sequence m)"
      "v_fifo ?v (q, sf_sequence m) = Some m" by (rule view_fifo_row [OF rep r])
    have "sorted (map f_sequence (r # rs))" using sorted_sort_key [of f_sequence] Cons by metis
    then have least: "f_sequence r \<le> f_sequence r'" if "r' \<in> set ?rs" for r' using that Cons by auto
    have "Min (pending ?v q) = sf_sequence m"
    proof (rule Min_eqI)
      fix n assume "n \<in> pending ?v q"
      then obtain r' where "r' \<in> set ?rs" "f_sequence r' = uint n" using in_rs by blast
      with least m(2) show "sf_sequence m \<le> n" by (metis word_le_def)
    qed (use m(3) in \<open>simp_all add: pending_def\<close>)
    moreover have "pending ?v q \<noteq> {}" using m(3) by (auto simp: pending_def)
    ultimately show ?thesis using run Cons m by (auto simp: select_front_def sql_run spec_front_def)
  qed
qed

lemma good_fifo_row_attempts: "good_fifo_row P r \<Longrightarrow> good_fifo_row P (r\<lparr>f_attempts := uint (a :: u32)\<rparr>)"
proof -
  assume "good_fifo_row P r"
  then obtain m where m: "row_to_fifo P r = Inr m" "frow_key r = (queue_str (sf_queue m), uint (sf_sequence m))"
    by (auto simp: good_fifo_row_def)
  show ?thesis
    unfolding good_fifo_row_def
    by (rule exI [of _ "m\<lparr>sf_attempts := a\<rparr>"]) (use m row_to_fifo_attempts [OF m(1)] in simp)
qed

lemma rep_fifo_rows:
  "sqlite_rep P db \<Longrightarrow> distinct (map frow_key rs) \<Longrightarrow> (\<And>r. r \<in> set rs \<Longrightarrow> good_fifo_row P r) \<Longrightarrow>
    sqlite_rep P (db\<lparr>fifo_messages := rs\<rparr>)"
  by (simp add: sqlite_rep_def)

lemma remove_fifo_view:
  assumes rep: "sqlite_rep P db"
    and db': "db' = db\<lparr>fifo_messages := filter (\<lambda>r. frow_key r \<noteq> (q, uint n)) (fifo_messages db)\<rparr>"
  shows "sqlite_rep P db'" "sqlite_view P db' = (sqlite_view P db)\<lparr>v_fifo := (v_fifo (sqlite_view P db))((q, n) := None)\<rparr>"
proof -
  show "sqlite_rep P db'" using rep unfolding db' by (auto simp: sqlite_rep_def distinct_map_filter)
  show "sqlite_view P db' = (sqlite_view P db)\<lparr>v_fifo := (v_fifo (sqlite_view P db))((q, n) := None)\<rparr>"
    unfolding db' by (auto simp: sqlite_view_def fun_eq_iff find_remove_key word_uint_eq_iff)
qed

definition set_attempts :: "string \<times> int \<Rightarrow> u32 \<Rightarrow> fifo_messages_row \<Rightarrow> fifo_messages_row" where
  "set_attempts k a r = (if frow_key r = k then r\<lparr>f_attempts := uint a\<rparr> else r)"

lemma set_attempts_key [simp]: "frow_key (set_attempts k a r) = frow_key r"
  by (simp add: set_attempts_def)

lemma attempts_rep:
  assumes rep: "sqlite_rep P db"
  shows "sqlite_rep P (db\<lparr>fifo_messages := map (set_attempts k a) (fifo_messages db)\<rparr>)"
proof (rule rep_fifo_rows [OF rep])
  have "map frow_key (map (set_attempts k a) rs) = map frow_key rs" for rs by simp
  then show "distinct (map frow_key (map (set_attempts k a) (fifo_messages db)))"
    using sqlite_rep_simps(8) [OF rep] by (simp add: comp_def)
  fix r assume "r \<in> set (map (set_attempts k a) (fifo_messages db))"
  then obtain r0 where "r0 \<in> set (fifo_messages db)" "r = set_attempts k a r0" by auto
  then show "good_fifo_row P r"
    using sqlite_rep_simps(9) [OF rep] by (simp add: set_attempts_def good_fifo_row_attempts)
qed

lemma attempts_view:
  assumes m: "v_fifo (sqlite_view P db) (q, n) = Some m"
  shows "sqlite_view P (db\<lparr>fifo_messages := map (set_attempts (q, uint n) a) (fifo_messages db)\<rparr>)
    = (sqlite_view P db)\<lparr>v_fifo := (v_fifo (sqlite_view P db))((q, n) \<mapsto> m\<lparr>sf_attempts := a\<rparr>)\<rparr>" (is "?new = _")
proof -
  obtain r where r: "find (\<lambda>r. frow_key r = (q, uint n)) (fifo_messages db) = Some r" "row_to_fifo P r = Inr m"
    using m by (auto simp: sqlite_view_def bind_eq_Some_conv)
  have f: "find (\<lambda>r. frow_key r = k) (map (set_attempts (q, uint n) a) (fifo_messages db))
      = map_option (set_attempts (q, uint n) a) (find (\<lambda>r. frow_key r = k) (fifo_messages db))" for k
    by (rule find_map_rows) simp
  have "v_fifo ?new (q', n') = ((v_fifo (sqlite_view P db))((q, n) \<mapsto> m\<lparr>sf_attempts := a\<rparr>)) (q', n')" for q' n'
  proof (cases "q' = q \<and> n' = n")
    case True
    then show ?thesis
      using r find_SomeD [OF r(1)] row_to_fifo_attempts [OF r(2)] by (simp add: sqlite_view_def f set_attempts_def)
  next
    case False
    then have "set_attempts (q, uint n) a r' = r'"
      if "find (\<lambda>r. frow_key r = (q', uint n')) (fifo_messages db) = Some r'" for r'
      using find_SomeD [OF that] by (auto simp: set_attempts_def word_uint_eq_iff)
    with False show ?thesis
      by (cases "find (\<lambda>r. frow_key r = (q', uint n')) (fifo_messages db)") (auto simp: sqlite_view_def f)
  qed
  then show ?thesis by (auto simp: sqlite_view_def fun_eq_iff)
qed

lemma update_front_view:
  assumes inv: "sqlite_inv P db" and run: "sqlite_update_fifo_front P w q i act db = (db', Inr d)"
  shows "sqlite_inv P db' \<and>
    (case act of Ack \<Rightarrow> spec_ack (sqlite_view P db) (queue_str q) i | Reject \<Rightarrow> spec_reject (sqlite_view P db) (queue_str q) i)
      = (sqlite_view P db', d)"
proof -
  let ?v = "sqlite_view P db" and ?q = "queue_str q"
  have rep: "sqlite_rep P db" and wf: "wf_view ?v" using inv by (auto simp: sqlite_inv_def)
  from run obtain x where x: "select_front P w 2 ?q db = Inr x" by (auto simp: sqlite_update_fifo_front_def sql_run)
  have front: "spec_front ?v ?q = x" using select_front_view [OF inv x] by simp
  have "sqlite_rep P db' \<and> (case act of Ack \<Rightarrow> spec_ack ?v ?q i | Reject \<Rightarrow> spec_reject ?v ?q i) = (sqlite_view P db', d)"
  proof (cases "\<exists>m. x = Some m \<and> sf_id m = i")
    case False
    then have "db' = db" "d = False"
      using run x by (auto simp: sqlite_update_fifo_front_def sql_run split: option.splits if_splits)
    with False rep front show ?thesis
      by (auto simp: spec_ack_def spec_reject_def split: option.splits fifo_front_action.splits)
  next
    case True
    then obtain m where m: "x = Some m" "sf_id m = i" by blast
    note at = spec_front_Some(1) [OF wf front [unfolded m(1)]]
    show ?thesis
    proof (cases act)
      case Ack
      from run x m Ack have db': "db' = db\<lparr>fifo_messages :=
          filter (\<lambda>r. frow_key r \<noteq> (?q, uint (sf_sequence m))) (fifo_messages db)\<rparr>" and d: "d = True"
        by (auto simp: sqlite_update_fifo_front_def sql_run u64_to_i64_Inr frow_key_def)
      from remove_fifo_view [OF rep db'] Ack m front d show ?thesis by (simp add: spec_ack_def)
    next
      case Reject
      from run x m Reject have db': "db' = db\<lparr>fifo_messages :=
          map (set_attempts (?q, uint (sf_sequence m)) (saturating_add (sf_attempts m) 1)) (fifo_messages db)\<rparr>"
        and d: "d = True"
        by (auto simp: sqlite_update_fifo_front_def sql_run u64_to_i64_Inr Let_def frow_key_def
            set_attempts_def [abs_def] cong: if_cong)
      from attempts_rep [OF rep] attempts_view [OF at] Reject m front d show ?thesis
        unfolding db' by (simp add: spec_reject_def)
    qed
  qed
  with spec_ack_wf [OF wf, of ?q i] spec_reject_wf [OF wf, of ?q i] show ?thesis
    by (auto simp: sqlite_inv_def split: fifo_front_action.splits)
qed

section \<open>Peer-sync records\<close>

lemma node_key_nonempty [simp]: "node_key n \<noteq> []" "[] \<noteq> node_key n"
  by (simp_all add: node_key_def)

lemma peer_columns_inj:
  assumes "scoped_peer a" "scoped_peer b" "peer_columns (peer_key_of a) = peer_columns (peer_key_of b)"
  shows "peer_key_of a = peer_key_of b"
  using assms by (auto simp: scoped_peer_def peer_columns_def peer_key_of_def split: option.splits)

lemma peer_sync_keys_columns:
  "(ps_peer st, peer_sync_keys st) = peer_columns (peer_key_of st)"
  by (auto simp: peer_sync_keys_def peer_columns_def peer_key_of_def split: option.splits)

lemma view_peer_Some:
  assumes "sqlite_rep P db"
  shows "v_peer (sqlite_view P db) k = Some st \<longleftrightarrow>
    (\<exists>r \<in> set (peer_sync_states db). prow_key r = peer_columns k \<and> de_peer (sq_serde P) (p_state_json r) = Inr st
      \<and> peer_key_of st = k)"
  using find_key_iff [OF sqlite_rep_simps(10) [OF assms]]
  by (auto simp: sqlite_view_def bind_eq_Some_conv split: if_splits)

lemma upsert_peer_by: "upsert_peer row rs = upsert_by prow_key (\<lambda>r. r\<lparr>p_state_json := p_state_json row\<rparr>) row rs"
  by (simp add: upsert_peer_def prow_key_def [abs_def])

lemma upsert_peer_view:
  assumes rep: "sqlite_rep P db" and st: "scoped_peer st" "de_peer (sq_serde P) j = Inr st"
    and row: "prow_key row = peer_columns (peer_key_of st)" "p_state_json row = j"
  shows "sqlite_rep P (db\<lparr>peer_sync_states := upsert_peer row (peer_sync_states db)\<rparr>)"
    "sqlite_view P (db\<lparr>peer_sync_states := upsert_peer row (peer_sync_states db)\<rparr>)
      = (sqlite_view P db)\<lparr>v_peer := (v_peer (sqlite_view P db))(peer_key_of st \<mapsto> st)\<rparr>"
proof -
  have key: "prow_key (r\<lparr>p_state_json := x\<rparr>) = prow_key r" for r x by (simp add: prow_key_def)
  have good: "good_peer_row P r" if "prow_key r = peer_columns (peer_key_of st)" "p_state_json r = j" for r
    using that st by (auto simp: good_peer_row_def)
  have "distinct (map prow_key (upsert_peer row (peer_sync_states db)))"
    unfolding upsert_peer_by by (rule distinct_upsert_by) (auto simp: key sqlite_rep_simps(10) [OF rep])
  moreover have "good_peer_row P r" if "r \<in> set (upsert_peer row (peer_sync_states db))" for r
  proof -
    from set_upsert_by [OF that [unfolded upsert_peer_by]]
    consider "r = row" | "r \<in> set (peer_sync_states db)"
      | r0 where "prow_key r0 = prow_key row" "r = r0\<lparr>p_state_json := p_state_json row\<rparr>" by blast
    then show ?thesis by cases (use sqlite_rep_simps(11) [OF rep] row key in \<open>auto intro: good\<close>)
  qed
  ultimately show "sqlite_rep P (db\<lparr>peer_sync_states := upsert_peer row (peer_sync_states db)\<rparr>)"
    using rep by (simp add: sqlite_rep_def)
  have find: "find (\<lambda>r. prow_key r = c) (upsert_peer row (peer_sync_states db)) =
      (if c = prow_key row then Some (case find (\<lambda>r. prow_key r = c) (peer_sync_states db) of
         None \<Rightarrow> row | Some r \<Rightarrow> r\<lparr>p_state_json := j\<rparr>)
       else find (\<lambda>r. prow_key r = c) (peer_sync_states db))" for c
    unfolding upsert_peer_by by (subst find_upsert_by) (auto simp: key row(2) split: option.split)
  have other: "v_peer (sqlite_view P db) k = None" if "peer_columns k = prow_key row" "k \<noteq> peer_key_of st" for k
  proof (rule ccontr)
    assume "v_peer (sqlite_view P db) k \<noteq> None"
    then obtain st0 r where "r \<in> set (peer_sync_states db)" "prow_key r = peer_columns k"
      "de_peer (sq_serde P) (p_state_json r) = Inr st0" "peer_key_of st0 = k" by (auto simp: view_peer_Some [OF rep])
    moreover from this have "scoped_peer st0" using sqlite_rep_simps(11) [OF rep] by (fastforce simp: good_peer_row_def)
    ultimately show False using peer_columns_inj [OF _ st(1)] that row(1) by metis
  qed
  have "v_peer (sqlite_view P (db\<lparr>peer_sync_states := upsert_peer row (peer_sync_states db)\<rparr>)) k
      = ((v_peer (sqlite_view P db))(peer_key_of st \<mapsto> st)) k" for k
  proof (cases "peer_columns k = prow_key row")
    case True
    then show ?thesis using other [of k] st(2) row by (auto simp: sqlite_view_def find split: option.splits)
  next
    case False
    then show ?thesis using row(1) by (auto simp: sqlite_view_def find)
  qed
  then show "sqlite_view P (db\<lparr>peer_sync_states := upsert_peer row (peer_sync_states db)\<rparr>)
      = (sqlite_view P db)\<lparr>v_peer := (v_peer (sqlite_view P db))(peer_key_of st \<mapsto> st)\<rparr>"
    by (auto simp: sqlite_view_def fun_eq_iff)
qed

lemma record_view:
  assumes codec: "serde_codec (sq_serde P)" and inv: "sqlite_inv P db" and ps: "scoped_peer ps"
    and run: "sqlite_record_peer_sync_state P w ps db = (db', Inr u)"
  shows "sqlite_inv P db' \<and> spec_record_peer (sqlite_view P db) ps = sqlite_view P db'"
proof -
  let ?v = "sqlite_view P db" and ?k = "peer_key_of ps"
  have rep: "sqlite_rep P db" and wf: "wf_view ?v" using inv by (auto simp: sqlite_inv_def)
  obtain tk ok where keys: "peer_sync_keys ps = (tk, ok)" by force
  have cols: "peer_columns ?k = (ps_peer ps, tk, ok)" using peer_sync_keys_columns [of ps] keys by simp
  let ?row = "find (\<lambda>r. prow_key r = peer_columns ?k) (peer_sync_states db)"
  from run keys obtain prev where
    prev: "transpose_opt (map_option (\<lambda>r. decode_json (de_peer (sq_serde P)) (p_state_json r)) ?row) = Inr prev"
    by (auto simp: sqlite_record_peer_sync_state_def sql_run where_keys cols)
  have "prev = v_peer ?v ?k"
  proof (cases ?row)
    case None
    with prev show ?thesis by (simp add: sqlite_view_def)
  next
    case (Some r)
    then obtain st where st: "de_peer (sq_serde P) (p_state_json r) = Inr st" "prev = Some st"
      using prev by (auto simp: transpose_opt_eq_Inr)
    have r: "r \<in> set (peer_sync_states db)" "prow_key r = peer_columns ?k" using find_SomeD [OF Some] by auto
    have "scoped_peer st" "prow_key r = peer_columns (peer_key_of st)"
      using sqlite_rep_simps(11) [OF rep r(1)] st(1) by (simp_all add: good_peer_row_def)
    then have "peer_key_of st = ?k" by (intro peer_columns_inj ps) (simp_all add: r(2) [symmetric])
    with Some st show ?thesis by (simp add: sqlite_view_def)
  qed
  moreover have carried: "(if ps_last_error ps \<noteq> None then
      (case prev of Some p \<Rightarrow> (if ps_last_success_at_ms ps = 0
          then ps\<lparr>ps_last_success_at_ms := ps_last_success_at_ms p\<rparr> else ps)
          \<lparr>ps_consecutive_failures := saturating_add (ps_consecutive_failures p) 1\<rparr>
       | None \<Rightarrow> ps\<lparr>ps_consecutive_failures := 1\<rparr>)
      else ps\<lparr>ps_consecutive_failures := 0\<rparr>) = carry_failures prev ps"
    by (cases ps) (auto simp: carry_failures_def split: option.split)
  moreover have peer: "ps_peer (carry_failures prev ps) = ps_peer ps"
    by (simp add: carry_failures_def split: option.split)
  ultimately obtain j where j: "ser_peer (sq_serde P) (carry_failures (v_peer ?v ?k) ps) = Inr j"
    and db': "db' = db\<lparr>peer_sync_states := upsert_peer \<lparr>p_peer = ps_peer ps, p_topic = tk, p_origin_key = ok,
        p_state_json = j\<rparr> (peer_sync_states db)\<rparr>"
    using run keys prev
    by (auto simp: sqlite_record_peer_sync_state_def sql_run where_keys cols Let_def)
  let ?st = "carry_failures (v_peer ?v ?k) ps"
  have "scoped_peer ?st" using ps by (simp add: scoped_peer_def carry_failures_def split: option.split)
  moreover have "de_peer (sq_serde P) j = Inr ?st"
    using j codec by (auto dest: round_tripsD serde_codec.peer_json)
  moreover have key: "peer_key_of ?st = ?k"
    by (simp add: peer_key_of_def carry_failures_def split: option.split)
  ultimately have st: "scoped_peer ?st" "de_peer (sq_serde P) j = Inr ?st" "peer_key_of ?st = ?k" by auto
  let ?row = "\<lparr>p_peer = ps_peer ps, p_topic = tk, p_origin_key = ok, p_state_json = j\<rparr>"
  have row: "prow_key ?row = peer_columns (peer_key_of ?st)" "p_state_json ?row = j"
    by (simp_all add: st(3) cols prow_key_def)
  have "spec_record_peer ?v ps = sqlite_view P db'"
    unfolding db' upsert_peer_view(2) [OF rep st(1,2) row] by (simp only: spec_record_peer_def st(3))
  moreover have "sqlite_rep P db'"
    unfolding db' by (rule upsert_peer_view(1) [OF rep st(1,2) row])
  moreover note spec_record_peer_wf [OF wf, of ps]
  ultimately show ?thesis by (simp only: sqlite_inv_def simp_thms)
qed

lemma list_peers_view:
  assumes inv: "sqlite_inv P db" and run: "sqlite_list_peer_sync_states P w db = Inr y"
  shows "\<exists>ks. distinct ks \<and> set ks = dom (v_peer (sqlite_view P db)) \<and> y = map (\<lambda>k. the (v_peer (sqlite_view P db) k)) ks"
proof -
  let ?v = "sqlite_view P db"
  let ?rs = "sort_key (\<lambda>r. (p_peer r, p_topic r, p_origin_key r)) (peer_sync_states db)"
  define st where "st r = the (ok (de_peer (sq_serde P) (p_state_json r)))" for r :: peer_sync_states_row
  let ?ks = "map (\<lambda>r. peer_key_of (st r)) ?rs"
  have rep: "sqlite_rep P db" using inv by (auto simp: sqlite_inv_def)
  have row: "de_peer (sq_serde P) (p_state_json r) = Inr (st r)" "prow_key r = peer_columns (peer_key_of (st r))"
    "v_peer ?v (peer_key_of (st r)) = Some (st r)" if r: "r \<in> set (peer_sync_states db)" for r
  proof -
    obtain x where x: "de_peer (sq_serde P) (p_state_json r) = Inr x" "prow_key r = peer_columns (peer_key_of x)"
      using sqlite_rep_simps(11) [OF rep r] by (auto simp: good_peer_row_def)
    with r have "v_peer ?v (peer_key_of x) = Some x" by (auto simp: view_peer_Some [OF rep])
    moreover have "st r = x" using x by (simp add: st_def)
    ultimately show "de_peer (sq_serde P) (p_state_json r) = Inr (st r)" "prow_key r = peer_columns (peer_key_of (st r))"
      "v_peer ?v (peer_key_of (st r)) = Some (st r)" using x by simp_all
  qed
  have "y = map st ?rs"
    by (rule collect_rows_map [of w 3 "\<lambda>r. sql_from_msgbus P (decode_json (de_peer (sq_serde P)) (p_state_json r))"])
      (use run in \<open>auto simp: sqlite_list_peer_sync_states_def sql_run row(1)\<close>)
  then have "y = map (\<lambda>k. the (v_peer ?v k)) ?ks" using row(3) by simp
  moreover have "inj_on (\<lambda>r. peer_key_of (st r)) (set (peer_sync_states db))"
    by (rule inj_onI) (metis row(2) sqlite_rep_simps(10) [OF rep] distinct_map inj_onD)
  then have "distinct ?ks" using sqlite_rep_simps(10) [OF rep] by (simp add: distinct_map)
  moreover have "set ?ks = dom (v_peer ?v)"
  proof (intro set_eqI iffI)
    fix k assume "k \<in> dom (v_peer ?v)"
    then obtain r x where "r \<in> set (peer_sync_states db)" "de_peer (sq_serde P) (p_state_json r) = Inr x" "peer_key_of x = k"
      by (auto simp: view_peer_Some [OF rep])
    then show "k \<in> set ?ks" by (auto simp: st_def intro!: image_eqI [of _ _ r])
  qed (auto simp: row(3))
  ultimately show ?thesis by blast
qed

section \<open>The contract\<close>

lemma append_view:
  assumes "serde_codec (sq_serde P)" "sqlite_inv P db" "valid_new m"
    "sqlite_append_message P w m db = (db', Inr r)"
  shows "sqlite_inv P db' \<and> spec_append (sqlite_view P db) m (now w 0) = (sqlite_view P db', r)"
proof -
  have "sqlite_append_message_in_tx P w 2 0 m db = Inr (db', r)"
    using assms(4) by (auto simp: sqlite_append_message_def sql_run split: prod.splits)
  from append_in_tx_view [OF assms(1,3) _ this] assms(2) spec_append_wf [of "sqlite_view P db" m "now w 0"]
  show ?thesis by (auto simp: sqlite_inv_def)
qed

lemma tombstone_view:
  assumes "sqlite_inv P db" "sqlite_tombstone_range P w t n a b db = (db', Inr c)"
  shows "a \<le> b \<and> sqlite_inv P db' \<and> spec_tombstone (sqlite_view P db) (log_of t n) a b = (sqlite_view P db', c)"
proof -
  have ab: "a \<le> b" and "sqlite_tombstone_range_in_tx P w 2 t n a b (now w 0) db = Inr (db', c)"
    using assms(2) by (auto simp: sqlite_tombstone_range_def sql_run split: prod.splits if_splits)
  from tombstone_in_tx_view [OF _ this(2)] assms(1) spec_tombstone_wf [of "sqlite_view P db" "log_of t n" a b] ab
  show ?thesis by (auto simp: sqlite_inv_def)
qed

lemma marker_view:
  assumes codec: "serde_codec (sq_serde P)" and inv: "sqlite_inv P db"
    and valid: "valid_part (topic_str mt)" "valid_part (uuid w)"
    and run: "sqlite_tombstone_range_with_marker P w t n a b mt mn db = (db', Inr (c, marker))"
  shows "a \<le> b \<and> sqlite_inv P db' \<and>
    (\<exists>payload v. ser_tombstone (sq_serde P)
        \<lparr>tr_topic = t, tr_origin = n, tr_from_head_id = a, tr_to_head_id = b, tr_created_at_ms = now w 0\<rparr> = Inr payload
      \<and> spec_tombstone (sqlite_view P db) (log_of t n) a b = (v, c)
      \<and> spec_append v (new_message_new (uuid w) mt mn payload fmempty) (now w 1) = (sqlite_view P db', marker))"
proof -
  let ?tomb = "\<lparr>tr_topic = t, tr_origin = n, tr_from_head_id = a, tr_to_head_id = b, tr_created_at_ms = now w 0\<rparr>"
  from run obtain tx payload where ab: "a \<le> b"
    and tomb: "sqlite_tombstone_range_in_tx P w 2 t n a b (now w 0) db = Inr (tx, c)"
    and payload: "ser_tombstone (sq_serde P) ?tomb = Inr payload"
    and app: "sqlite_append_message_in_tx P w 4 1 (new_message_new (uuid w) mt mn payload fmempty) tx = Inr (db', marker)"
    by (auto simp: sqlite_tombstone_range_with_marker_def sql_run Let_def split: prod.splits if_splits)
  have rep: "sqlite_rep P db" and wf: "wf_view (sqlite_view P db)" using inv by (auto simp: sqlite_inv_def)
  note tomb' = tombstone_in_tx_view [OF rep tomb]
  have "valid_new (new_message_new (uuid w) mt mn payload fmempty)"
    using valid by (simp add: valid_new_def new_message_new_def message_id_new_def)
  from append_in_tx_view [OF codec this _ app] tomb'
  have app': "sqlite_rep P db'"
    "spec_append (sqlite_view P tx) (new_message_new (uuid w) mt mn payload fmempty) (now w 1) = (sqlite_view P db', marker)"
    by auto
  have "wf_view (sqlite_view P tx)" using spec_tombstone_wf [OF wf, of "log_of t n" a b] tomb' by simp
  from spec_append_wf [OF this, of "new_message_new (uuid w) mt mn payload fmempty" "now w 1"] app'
  have "sqlite_inv P db'" by (simp add: sqlite_inv_def)
  then show ?thesis using ab tomb' payload app' by blast
qed

lemmas sqlite_write_defs = sqlite_append_message_def sqlite_put_replicated_message_def sqlite_tombstone_range_def
  sqlite_tombstone_range_with_marker_def sqlite_enqueue_fifo_def sqlite_ack_fifo_def sqlite_reject_fifo_def
  sqlite_update_fifo_front_def sqlite_record_peer_sync_state_def

text \<open>A write that reports an error leaves the database as it was: the transaction was dropped.\<close>

lemma sqlite_write_errors:
  "sqlite_append_message P w m db = (db', Inl e) \<Longrightarrow> db' = db"
  "sqlite_put_replicated_message P w sm db = (db', Inl e) \<Longrightarrow> db' = db"
  "sqlite_tombstone_range P w t n a b db = (db', Inl e) \<Longrightarrow> db' = db"
  "sqlite_tombstone_range_with_marker P w t n a b mt mn db = (db', Inl e) \<Longrightarrow> db' = db"
  "sqlite_enqueue_fifo P w f db = (db', Inl e) \<Longrightarrow> db' = db"
  "sqlite_ack_fifo P w q i db = (db', Inl e) \<Longrightarrow> db' = db"
  "sqlite_reject_fifo P w q i db = (db', Inl e) \<Longrightarrow> db' = db"
  "sqlite_record_peer_sync_state P w ps db = (db', Inl e) \<Longrightarrow> db' = db"
  unfolding sqlite_write_defs by (simp_all add: transact_eq_Inl split: if_splits)

lemma sqlite_store_sel:
  "st_append_message (sqlite_store P) = sqlite_append_message P"
  "st_fetch_messages (sqlite_store P) = sqlite_fetch_messages P"
  "st_get_head (sqlite_store P) = sqlite_get_head"
  "st_list_heads (sqlite_store P) = sqlite_list_heads P"
  "st_put_replicated_message (sqlite_store P) = sqlite_put_replicated_message P"
  "st_tombstone_range (sqlite_store P) = sqlite_tombstone_range P"
  "st_tombstone_range_with_marker (sqlite_store P) = sqlite_tombstone_range_with_marker P"
  "st_enqueue_fifo (sqlite_store P) = sqlite_enqueue_fifo P"
  "st_peek_fifo (sqlite_store P) = sqlite_peek_fifo P"
  "st_ack_fifo (sqlite_store P) = sqlite_ack_fifo P"
  "st_reject_fifo (sqlite_store P) = sqlite_reject_fifo P"
  "st_record_peer_sync_state (sqlite_store P) = sqlite_record_peer_sync_state P"
  "st_list_peer_sync_states (sqlite_store P) = sqlite_list_peer_sync_states P"
  by (simp_all add: sqlite_store_def)

lemma sqlite_contract:
  assumes codec: "serde_codec (sq_serde P)"
  shows "msgbus_contract (sqlite_store P) (sqlite_inv P) (sqlite_view P) (ser_tombstone (sq_serde P))"
proof (unfold_locales, unfold sqlite_store_sel, goal_cases)
  case (2 s m w s' r)
  from this show ?case by (rule append_view [OF codec])
next
  case (4 s w q ms)
  then show ?case using fetch_view by (simp add: sqlite_inv_def)
next
  case (5 s w t n ho)
  then show ?case by (auto simp: sqlite_get_head_def connection_eq_Inr log_of_def dest: select_head_view [where P = P])
next
  case (6 s w hs)
  from this show ?case by (rule list_heads_view)
next
  case (7 s sm w s' p)
  from this(2,1,3) show ?case by (rule put_view [OF codec])
next
  case (9 s w t n a b s' c)
  from this show ?case by (rule tombstone_view)
next
  case (11 s mt w t n a b mn s' c marker)
  from this show ?case by (rule marker_view [OF codec])
next
  case (13 s f w s' g)
  from this(2,1,3) show ?case by (rule enqueue_view [OF codec])
next
  case (15 s w q' x)
  then show ?case
    by (auto simp: sqlite_peek_fifo_def connection_eq_Inr dest: select_front_view)
next
  case (16 s w q' i s' d)
  then show ?case using update_front_view [of P s w q' i Ack] by (simp add: sqlite_ack_fifo_def)
next
  case (18 s w q' i s' d)
  then show ?case using update_front_view [of P s w q' i Reject] by (simp add: sqlite_reject_fifo_def)
next
  case (20 s ps w s' u)
  from this show ?case by (rule record_view [OF codec])
next
  case (22 s w y)
  from this show ?case by (rule list_peers_view)
next
  case (1 s)
  then show ?case by (simp add: sqlite_inv_def)
qed (erule sqlite_write_errors)+

locale sqlite_backend =
  fixes P :: sqlite_params
  assumes codec: "serde_codec (sq_serde P)"

sublocale sqlite_backend \<subseteq> sq: msgbus_contract "sqlite_store P" "sqlite_inv P" "sqlite_view P" "ser_tombstone (sq_serde P)"
  by (rule sqlite_contract [OF codec])

end
