(* ===== verification/Sqlite_Live.thy ===== *)
theory Sqlite_Live
  imports Sqlite_Refine
begin

text \<open>
  Progress of the SQLite backend. Without failures of the engine a call succeeds when its arguments
  fit the schema: heads, sequence numbers and times below \<open>2\<^sup>6\<^sup>3\<close>, because a column holds an \<open>i64\<close>, and
  message identifiers that are not in use, because \<open>id\<close> is unique across all topics and queues.
\<close>

definition fits_i64 :: "u64 \<Rightarrow> bool" where
  "fits_i64 v \<longleftrightarrow> uint v < 2 ^ 63"

definition id_unused :: "store_view \<Rightarrow> message_id \<Rightarrow> bool" where
  "id_unused v i \<longleftrightarrow> (\<forall>l h m. v_msg v (l, h) = Some m \<longrightarrow> sm_id m \<noteq> i)"

definition fifo_id_unused :: "store_view \<Rightarrow> message_id \<Rightarrow> bool" where
  "fifo_id_unused v i \<longleftrightarrow> (\<forall>q n m. v_fifo v (q, n) = Some m \<longrightarrow> sf_id m \<noteq> i)"

definition append_fits :: "store_view \<Rightarrow> topic \<Rightarrow> node_id \<Rightarrow> message_id \<Rightarrow> u64 \<Rightarrow> bool" where
  "append_fits v t n i at \<longleftrightarrow>
     fits_i64 (saturating_add (head_of v (log_of t n)) 1) \<and> fits_i64 at \<and> id_unused v i"

fun sqlite_fits :: "call_env \<Rightarrow> store_call \<Rightarrow> store_view \<Rightarrow> bool" where
  "sqlite_fits w (AppendMessage m) v \<longleftrightarrow> append_fits v (nm_topic m) (nm_origin m) (nm_id m) (now w 0)"
| "sqlite_fits w (FetchMessages q) v \<longleftrightarrow> fits_i64 (fq_from_head_id q)"
| "sqlite_fits w (PutReplicatedMessage m) v \<longleftrightarrow>
     spec_put v m \<noteq> None \<and> fits_i64 (sm_head_id m)
     \<and> (v_msg v (message_log m, sm_head_id m) = None \<longrightarrow> fits_i64 (sm_created_at_ms m) \<and> id_unused v (sm_id m))"
| "sqlite_fits w (TombstoneRange t n a b) v \<longleftrightarrow> a \<le> b \<and> fits_i64 b \<and> fits_i64 (now w 0)"
| "sqlite_fits w (TombstoneRangeWithMarker t n a b mt mn) v \<longleftrightarrow>
     a \<le> b \<and> fits_i64 b \<and> fits_i64 (now w 0) \<and> append_fits v mt mn (message_id_new (uuid w)) (now w 1)"
| "sqlite_fits w (EnqueueFifo f) v \<longleftrightarrow>
     fits_i64 (saturating_add (seq_of v (queue_str (nf_queue f))) 1) \<and> fits_i64 (now w 0)
     \<and> fifo_id_unused v (nf_id f)"
| "sqlite_fits w _ v \<longleftrightarrow> True"

section \<open>Statements\<close>

lemma fits_i64_Inr [simp]: "fits_i64 v \<Longrightarrow> u64_to_i64 v = Inr (uint v)"
  by (simp add: fits_i64_def u64_to_i64_def)

lemma fits_i64_le: "a \<le> b \<Longrightarrow> fits_i64 b \<Longrightarrow> fits_i64 a"
  by (simp add: fits_i64_def word_le_def)

lemma i64_range_fits: "i64_range i \<Longrightarrow> fits_i64 (word_of_int i)"
  by (simp add: fits_i64_def uint_word_of_i64) (simp add: i64_range_def)

lemma fits_next: "fits_i64 (saturating_add h 1) \<Longrightarrow> h < saturating_add h 1"
  by (rule saturating_add_1_less) (auto simp: fits_i64_def saturating_add_1 unsigned_minus_1_eq_mask mask_eq_exp_minus_1)

lemma connection_no_fault [simp]: "no_fault w \<Longrightarrow> connection w k = k"
  by (simp add: connection_def no_fault_def)

lemma collect_rows_total:
  assumes "no_fault w" "\<And>r. r \<in> set rs \<Longrightarrow> \<exists>x. f r = Inr x"
  shows "\<exists>xs. collect_rows w c f rs = Inr xs"
  using assms(2)
proof (induction rs arbitrary: c)
  case (Cons r rs)
  then obtain x xs where "f r = Inr x" "collect_rows w (Suc c) f rs = Inr xs" by fastforce
  then show ?case using assms(1) by simp
qed (use assms(1) in simp)

lemma select_head_total:
  assumes rep: "sqlite_rep P db" and w: "no_fault w"
  shows "select_head w c t k db = Inr (v_head (sqlite_view P db) (t, k))"
proof (cases "find (\<lambda>r. hrow_key r = (t, k)) (heads db)")
  case (Some r)
  then have "i64_range (h_head_id r)" using sqlite_rep_simps(2) [OF rep] by (auto dest: find_SomeD)
  with Some w show ?thesis by (simp add: select_head_def where_keys view_head i64_to_u64_range)
qed (use w in \<open>simp add: select_head_def where_keys view_head\<close>)

lemma head_fits:
  assumes rep: "sqlite_rep P db"
  shows "fits_i64 (head_of (sqlite_view P db) l)"
proof (cases "find (\<lambda>r. hrow_key r = l) (heads db)")
  case (Some r)
  then have "i64_range (h_head_id r)" using sqlite_rep_simps(2) [OF rep] by (auto dest: find_SomeD)
  with Some show ?thesis by (simp add: head_of_def view_head i64_range_fits)
qed (simp add: head_of_def view_head fits_i64_def)

lemma sqlite_markers_total:
  assumes rep: "sqlite_rep P db" and w: "no_fault w" and fits: "fits_i64 (sm_head_id m)"
  shows "sqlite_apply_tombstone_markers w c db m = Inr (mark_deleted (sqlite_view P db) m)"
proof -
  have "\<exists>m'. sqlite_apply_tombstone_markers w c db m = Inr m'"
    using w fits by (simp add: sqlite_apply_tombstone_markers_def)
  then show ?thesis using apply_markers_view [OF rep] by blast
qed

lemma select_message_total:
  assumes rep: "sqlite_rep P db" and w: "no_fault w" and fits: "fits_i64 h"
  shows "select_message P w c t k h db = Inr (v_msg (sqlite_view P db) ((t, k), h))"
proof -
  have "\<exists>x. select_message P w c t k h db = Inr x"
  proof (cases "find (\<lambda>r. mrow_key r = ((t, k), uint h)) (messages db)")
    case (Some r)
    then obtain m where "row_to_message P r = Inr m"
      using sqlite_rep_simps(4) [OF rep] by (auto simp: good_message_row_def dest!: find_SomeD)
    with Some w fits show ?thesis by (simp add: select_message_def where_keys)
  qed (use w fits in \<open>simp add: select_message_def where_keys\<close>)
  then show ?thesis using select_message_view [OF rep] by blast
qed

lemma row_message_id: "row_to_message P r = Inr m \<Longrightarrow> message_id_str (sm_id m) = m_id r"
  by (auto simp: row_to_message_def and_then_eq_Inr)

lemma row_fifo_id: "row_to_fifo P r = Inr m \<Longrightarrow> message_id_str (sf_id m) = f_id r"
  by (auto simp: row_to_fifo_def and_then_eq_Inr)

lemma encode_json_total: "round_trips ser de \<Longrightarrow> encode_json ser x = Inr (the (ok (ser x)))"
  by (erule round_tripsE [of ser de x]) (simp add: encode_json_def)

lemma insert_message_total:
  assumes codec: "serde_codec (sq_serde P)" and rep: "sqlite_rep P db" and w: "no_fault w"
    and fits: "fits_i64 (sm_head_id m)" "fits_i64 (sm_created_at_ms m)"
    and new: "v_msg (sqlite_view P db) (message_log m, sm_head_id m) = None" "id_unused (sqlite_view P db) (sm_id m)"
  shows "\<exists>db'. insert_message P w c m db = Inr db'"
proof -
  have "\<not> (m_id r = message_id_str (sm_id m) \<or> mrow_key r = (message_log m, uint (sm_head_id m)))"
    if r: "r \<in> set (messages db)" for r
  proof -
    obtain x where x: "row_to_message P r = Inr x" "mrow_key r = (message_log x, uint (sm_head_id x))"
      "v_msg (sqlite_view P db) (message_log x, sm_head_id x) = Some x" by (rule view_msg_row [OF rep r])
    have "sm_id x \<noteq> sm_id m" using new(2) x(3) unfolding id_unused_def by blast
    moreover have "(message_log x, sm_head_id x) \<noteq> (message_log m, sm_head_id m)" using new(1) x(3) by force
    ultimately show ?thesis using x row_message_id [OF x(1)] by (auto simp: message_id.expand word_uint_eq_iff)
  qed
  then show ?thesis
    using w fits serde_codec.node_json [OF codec] serde_codec.headers_json [OF codec]
    by (auto simp: insert_message_def Let_def encode_json_total mrow_key_def log_of_def)
qed

lemma append_in_tx_total:
  assumes codec: "serde_codec (sq_serde P)" and inv: "sqlite_rep P db" "wf_view (sqlite_view P db)" and w: "no_fault w"
    and fits: "append_fits (sqlite_view P db) (nm_topic m) (nm_origin m) (nm_id m) (now w i)"
  shows "\<exists>x. sqlite_append_message_in_tx P w c i m db = Inr x"
proof -
  let ?v = "sqlite_view P db" and ?l = "log_of (nm_topic m) (nm_origin m)"
  let ?n = "saturating_add (head_of ?v ?l) 1"
  let ?tx = "db\<lparr>heads := upsert_head \<lparr>h_topic = topic_str (nm_topic m),
      h_origin_key = node_key (nm_origin m), h_head_id = uint ?n\<rparr> (heads db)\<rparr>"
  let ?m = "mark_deleted (sqlite_view P ?tx) (stamp m ?n (now w i))"
  have n: "fits_i64 ?n" "fits_i64 (now w i)" "id_unused ?v (nm_id m)" using fits by (simp_all add: append_fits_def)
  have rep: "sqlite_rep P ?tx" by (rule rep_upsert_head [OF inv(1) i64_range_uint [OF fits_i64_Inr [OF n(1)]]])
  have "v_msg ?v (?l, ?n) = None" using fits_next [OF n(1)] wf_view_none [OF inv(2)] by simp
  then obtain tx' where "insert_message P w (c + 3) ?m ?tx = Inr tx'"
    using insert_message_total [OF codec rep w, of ?m "c + 3"] n by (auto simp: id_unused_def)
  moreover have "sqlite_apply_tombstone_markers w (c + 2) ?tx (stamp m ?n (now w i)) = Inr ?m"
    by (rule sqlite_markers_total [OF rep w]) (simp add: n)
  moreover have "(case v_head ?v (topic_str (nm_topic m), node_key (nm_origin m)) of None \<Rightarrow> 0 | Some h \<Rightarrow> h) = head_of ?v ?l"
    by (simp add: head_of_def log_of_def)
  ultimately show ?thesis
    using w n(1) by (simp add: sqlite_append_message_in_tx_def Let_def select_head_total [OF inv(1) w] stamp_def)
qed

lemma tombstone_in_tx_total:
  assumes codec: "serde_codec (sq_serde P)" and w: "no_fault w" and fits: "a \<le> b" "fits_i64 b" "fits_i64 at"
  shows "\<exists>x. sqlite_tombstone_range_in_tx P w c t n a b at db = Inr x"
  using w fits fits_i64_le [OF fits(1,2)]
  by (simp add: sqlite_tombstone_range_in_tx_def Let_def encode_json_total [OF serde_codec.tombstone_json [OF codec]])

lemma tombstone_append_fits:
  assumes "append_fits v t n i at"
  shows "append_fits (fst (spec_tombstone v l a b)) t n i at"
proof -
  have "id_unused (fst (spec_tombstone v l a b)) i"
    unfolding id_unused_def
  proof (intro allI impI)
    fix k h m assume "v_msg (fst (spec_tombstone v l a b)) (k, h) = Some m"
    then obtain x where "v_msg v (k, h) = Some x" "sm_id m = sm_id x"
      by (auto simp: spec_tombstone_def delete_between_def split: if_splits)
    then show "sm_id m \<noteq> i" using assms unfolding append_fits_def id_unused_def by metis
  qed
  then show ?thesis using assms by (simp add: append_fits_def spec_tombstone_def)
qed

section \<open>Whole calls\<close>

lemma put_message_total:
  assumes codec: "serde_codec (sq_serde P)" and inv: "sqlite_inv P db" and w: "no_fault w"
    and fits: "sqlite_fits w (PutReplicatedMessage m) (sqlite_view P db)"
  shows "\<exists>db' r. sqlite_put_replicated_message P w m db = (db', Inr r)"
proof -
  let ?v = "sqlite_view P db" and ?l = "message_log m" and ?h = "sm_head_id m"
  have rep: "sqlite_rep P db" and wf: "wf_view ?v" using inv by (auto simp: sqlite_inv_def)
  have h: "?h \<noteq> 0" and put: "spec_put ?v m \<noteq> None" and fh: "fits_i64 ?h" using fits by (auto simp: spec_put_def Let_def)
  have l: "(topic_str (sm_topic m), node_key (sm_origin m)) = ?l" by (simp add: log_of_def)
  note eval = sqlite_put_replicated_message_def Let_def same_message_iff sqlite_markers_total [OF rep w fh]
    select_message_total [OF rep w fh] select_head_total [OF rep w] current_head_of l
  show ?thesis
  proof (cases "v_msg ?v (?l, ?h)")
    case (Some old)
    with h w put fh show ?thesis by (auto simp: eval spec_put_old [OF Some h] split: if_splits)
  next
    case None
    then obtain tx where "insert_message P w 7 (mark_deleted ?v m) db = Inr tx"
      using insert_message_total [OF codec rep w, of "mark_deleted ?v m" 7] fits by auto
    with None h w put fh show ?thesis by (auto simp: eval spec_put_new [OF None h] split: if_splits)
  qed
qed

lemma seq_fits:
  assumes rep: "sqlite_rep P db"
  shows "fits_i64 (seq_of (sqlite_view P db) q)"
    and "no_fault w \<Longrightarrow> select_sequence w c q db = Inr (v_seq (sqlite_view P db) q)"
proof -
  have "fits_i64 (seq_of (sqlite_view P db) q) \<and> (no_fault w \<longrightarrow> select_sequence w c q db = Inr (v_seq (sqlite_view P db) q))"
  proof (cases "find (\<lambda>r. s_queue r = q) (fifo_sequences db)")
    case (Some r)
    then have "i64_range (s_sequence r)" using sqlite_rep_simps(7) [OF rep] by (auto dest: find_SomeD)
    with Some show ?thesis
      by (simp add: seq_of_def sqlite_view_def i64_range_fits select_sequence_def i64_to_u64_range)
  qed (simp add: seq_of_def sqlite_view_def fits_i64_def select_sequence_def)
  then show "fits_i64 (seq_of (sqlite_view P db) q)"
    "no_fault w \<Longrightarrow> select_sequence w c q db = Inr (v_seq (sqlite_view P db) q)" by blast+
qed

lemma insert_fifo_total:
  assumes codec: "serde_codec (sq_serde P)" and rep: "sqlite_rep P db" and w: "no_fault w"
    and fits: "fits_i64 (sf_sequence m)" "fits_i64 (sf_created_at_ms m)"
    and new: "v_fifo (sqlite_view P db) (queue_str (sf_queue m), sf_sequence m) = None" "fifo_id_unused (sqlite_view P db) (sf_id m)"
  shows "\<exists>db'. insert_fifo P w c m db = Inr db'"
proof -
  have "\<not> (f_id r = message_id_str (sf_id m) \<or> f_queue r = queue_str (sf_queue m) \<and> f_sequence r = uint (sf_sequence m))"
    if r: "r \<in> set (fifo_messages db)" for r
  proof -
    obtain x where x: "row_to_fifo P r = Inr x" "f_sequence r = uint (sf_sequence x)" "queue_str (sf_queue x) = f_queue r"
      "v_fifo (sqlite_view P db) (f_queue r, sf_sequence x) = Some x" by (rule view_fifo_row [OF rep r refl])
    have "sf_id x \<noteq> sf_id m" using new(2) x(4) unfolding fifo_id_unused_def by blast
    moreover have "(f_queue r, sf_sequence x) \<noteq> (queue_str (sf_queue m), sf_sequence m)" using new(1) x(4) by force
    ultimately show ?thesis using x row_fifo_id [OF x(1)] by (auto simp: message_id.expand word_uint_eq_iff)
  qed
  then show ?thesis
    using w fits serde_codec.node_json [OF codec] serde_codec.headers_json [OF codec]
    by (auto simp: insert_fifo_def Let_def encode_json_total)
qed

lemma enqueue_total:
  assumes codec: "serde_codec (sq_serde P)" and inv: "sqlite_inv P db" and w: "no_fault w"
    and fits: "sqlite_fits w (EnqueueFifo f) (sqlite_view P db)"
  shows "\<exists>db' g. sqlite_enqueue_fifo P w f db = (db', Inr g)"
proof -
  let ?v = "sqlite_view P db" and ?q = "queue_str (nf_queue f)"
  let ?n = "saturating_add (seq_of ?v ?q) 1"
  let ?tx = "db\<lparr>fifo_sequences := upsert_sequence \<lparr>s_queue = ?q, s_sequence = uint ?n\<rparr> (fifo_sequences db)\<rparr>"
  have rep: "sqlite_rep P db" and wf: "wf_view ?v" using inv by (auto simp: sqlite_inv_def)
  have n: "fits_i64 ?n" "fits_i64 (now w 0)" "fifo_id_unused ?v (nf_id f)" using fits by simp_all
  have tx: "sqlite_rep P ?tx" by (rule rep_upsert_sequence [OF rep i64_range_uint [OF fits_i64_Inr [OF n(1)]]])
  have "v_fifo ?v (?q, ?n) = None"
    using fits_next [OF n(1)] wf_view_fifo [OF wf, of ?q ?n] by (cases "v_fifo ?v (?q, ?n)") auto
  then obtain tx' where "insert_fifo P w 4 (enqueued f ?n (now w 0)) ?tx = Inr tx'"
    using insert_fifo_total [OF codec tx w, of "enqueued f ?n (now w 0)" 4] n
    by (auto simp: view_upsert_sequence fifo_id_unused_def enqueued_def)
  moreover have "(case v_seq ?v ?q of None \<Rightarrow> 0 | Some n \<Rightarrow> n) = seq_of ?v ?q" by (simp add: seq_of_def)
  ultimately show ?thesis
    using w n(1) by (simp add: sqlite_enqueue_fifo_def Let_def seq_fits(2) [OF rep w] enqueued_def)
qed

lemma select_front_total:
  assumes inv: "sqlite_inv P db" and w: "no_fault w"
  shows "select_front P w c q db = Inr (spec_front (sqlite_view P db) q)"
proof -
  have rep: "sqlite_rep P db" using inv by (simp add: sqlite_inv_def)
  have "\<exists>x. select_front P w c q db = Inr x"
  proof (cases "sort_key f_sequence (filter (\<lambda>r. f_queue r = q) (fifo_messages db))")
    case (Cons r rs)
    then have "r \<in> set (sort_key f_sequence (filter (\<lambda>r. f_queue r = q) (fifo_messages db)))" by simp
    then have "good_fifo_row P r" using sqlite_rep_simps(9) [OF rep] by simp
    then obtain m where "row_to_fifo P r = Inr m" by (auto simp: good_fifo_row_def)
    with Cons w show ?thesis by (simp add: select_front_def)
  qed (use w in \<open>simp add: select_front_def\<close>)
  then show ?thesis using select_front_view [OF inv] by blast
qed

lemma sqlite_update_front_total:
  assumes inv: "sqlite_inv P db" and w: "no_fault w"
  shows "\<exists>db' d. sqlite_update_fifo_front P w q i act db = (db', Inr d)"
proof -
  let ?v = "sqlite_view P db"
  have rep: "sqlite_rep P db" and wf: "wf_view ?v" using inv by (auto simp: sqlite_inv_def)
  have "fits_i64 (sf_sequence m)" if m: "spec_front ?v (queue_str q) = Some m" for m
  proof -
    obtain n where "v_fifo ?v (queue_str q, n) = Some m" using m by (auto simp: spec_front_def split: if_splits)
    then have "sf_sequence m \<le> seq_of ?v (queue_str q)" using wf_view_fifo [OF wf] by blast
    then show ?thesis using seq_fits(1) [OF rep] by (rule fits_i64_le)
  qed
  then show ?thesis
    using w by (cases "spec_front ?v (queue_str q)"; cases act)
      (auto simp: sqlite_update_fifo_front_def select_front_total [OF inv w] Let_def)
qed

lemma sqlite_record_total:
  assumes codec: "serde_codec (sq_serde P)" and rep: "sqlite_rep P db" and w: "no_fault w"
  shows "\<exists>db'. sqlite_record_peer_sync_state P w ps db = (db', Inr ())"
proof -
  obtain t k where keys: "peer_sync_keys ps = (t, k)" by force
  let ?row = "find (\<lambda>r. p_peer r = ps_peer ps \<and> p_topic r = t \<and> p_origin_key r = k) (peer_sync_states db)"
  obtain prev where prev: "transpose_opt (map_option (\<lambda>r. decode_json (de_peer (sq_serde P)) (p_state_json r)) ?row) = Inr prev"
  proof (cases ?row)
    case (Some r)
    then have "good_peer_row P r" using sqlite_rep_simps(11) [OF rep] by (auto dest: find_SomeD)
    with Some that show thesis by (auto simp: good_peer_row_def decode_json_def)
  qed (use that in simp)
  show ?thesis
    using w by (simp add: sqlite_record_peer_sync_state_def Let_def keys prev
        encode_json_total [OF serde_codec.peer_json [OF codec]])
qed

lemma sqlite_list_heads_total:
  assumes rep: "sqlite_rep P db" and w: "no_fault w"
  shows "\<exists>hs. sqlite_list_heads P w db = Inr hs"
proof -
  have "\<exists>x. row_to_topic_head P hm = Inr x" if "hm \<in> set (joined_heads db)" for hm
    using joined_heads_row(2) [OF rep, of "fst hm" "snd hm"] that by simp
  then obtain hs where "collect_rows w 3 (row_to_topic_head P) (sort_key (\<lambda>(h, m). (h_topic h, h_origin_key h)) (joined_heads db)) = Inr hs"
    using collect_rows_total [OF w, of "sort_key (\<lambda>(h, m). (h_topic h, h_origin_key h)) (joined_heads db)" "row_to_topic_head P" 3]
    by auto
  with w show ?thesis by (simp add: sqlite_list_heads_def)
qed

lemma sqlite_progress:
  assumes codec: "serde_codec (sq_serde P)" and inv: "sqlite_inv P s" and w: "no_fault w" and valid: "valid_call w c"
    and fits: "sqlite_fits w c (sqlite_view P s)"
  shows "\<exists>s' r. perform (sqlite_store P) w c s = (s', Inr r)"
proof -
  have rep: "sqlite_rep P s" and wf: "wf_view (sqlite_view P s)" using inv by (auto simp: sqlite_inv_def)
  note eval = sqlite_store_sel map_ok_eq_Inr
  show ?thesis
  proof (cases c)
    case (AppendMessage m)
    with append_in_tx_total [OF codec rep wf w, of m 0 2] fits w show ?thesis by (auto simp: eval sqlite_append_message_def)
  next
    case (FetchMessages q)
    let ?rs = "take (sqlite_effective_limit (fq_limit q)) (sort_key m_head_id (filter (\<lambda>r. m_topic r = topic_str (fq_topic q)
        \<and> m_origin_key r = node_key (fq_origin q) \<and> uint (fq_from_head_id q) \<le> m_head_id r) (messages s)))"
    have "\<exists>m. row_to_message P r = Inr m" if "r \<in> set ?rs" for r
      using in_set_takeD [OF that] sqlite_rep_simps(4) [OF rep, of r] by (auto simp: good_message_row_def)
    then obtain ms where "collect_rows w 3 (row_to_message P) ?rs = Inr ms"
      using collect_rows_total [OF w, of ?rs "row_to_message P" 3] by auto
    with FetchMessages fits w show ?thesis by (simp add: eval sqlite_fetch_messages_def Let_def)
  next
    case (GetHead t n)
    with w show ?thesis by (simp add: eval sqlite_get_head_def select_head_total [OF rep w])
  next
    case ListHeads
    with sqlite_list_heads_total [OF rep w] show ?thesis by (auto simp: eval)
  next
    case (PutReplicatedMessage m)
    with put_message_total [OF codec inv w, of m] fits show ?thesis by (auto simp: eval)
  next
    case (TombstoneRange t n a b)
    with tombstone_in_tx_total [OF codec w, of a b "now w 0" 2 t n s] fits w show ?thesis
      by (auto simp: eval sqlite_tombstone_range_def)
  next
    case (TombstoneRangeWithMarker t n a b mt mn)
    let ?r = "\<lparr>tr_topic = t, tr_origin = n, tr_from_head_id = a, tr_to_head_id = b, tr_created_at_ms = now w 0\<rparr>"
    obtain tx k where tx: "sqlite_tombstone_range_in_tx P w 2 t n a b (now w 0) s = Inr (tx, k)"
      using tombstone_in_tx_total [OF codec w, of a b "now w 0" 2 t n s] fits TombstoneRangeWithMarker by auto
    note tomb = tombstone_in_tx_view [OF rep tx]
    have "wf_view (sqlite_view P tx)" using spec_tombstone_wf [OF wf, of "log_of t n" a b] tomb fits TombstoneRangeWithMarker by simp
    moreover have "append_fits (sqlite_view P tx) mt mn (message_id_new (uuid w)) (now w 1)"
      using tombstone_append_fits [of "sqlite_view P s" mt mn _ _ "log_of t n" a b] tomb fits TombstoneRangeWithMarker by simp
    moreover obtain payload where p: "ser_tombstone (sq_serde P) ?r = Inr payload"
      by (rule round_tripsE [OF serde_codec.tombstone_json [OF codec]])
    ultimately obtain y m where "sqlite_append_message_in_tx P w 4 1 (new_message_new (uuid w) mt mn payload fmempty) tx = Inr (y, m)"
      using append_in_tx_total [OF codec conjunct1 [OF tomb], of w "new_message_new (uuid w) mt mn payload fmempty" 1 4] w
      by (auto simp: new_message_new_def)
    with tx p fits w TombstoneRangeWithMarker show ?thesis
      by (simp add: eval sqlite_tombstone_range_with_marker_def Let_def not_less)
  next
    case (EnqueueFifo f)
    with enqueue_total [OF codec inv w, of f] fits show ?thesis by (auto simp: eval)
  next
    case (PeekFifo q)
    with w show ?thesis by (simp add: eval sqlite_peek_fifo_def select_front_total [OF inv w])
  next
    case (AckFifo q i)
    with sqlite_update_front_total [OF inv w, of q i Ack] show ?thesis by (auto simp: eval sqlite_ack_fifo_def)
  next
    case (RejectFifo q i)
    with sqlite_update_front_total [OF inv w, of q i Reject] show ?thesis by (auto simp: eval sqlite_reject_fifo_def)
  next
    case (RecordPeerSyncState ps)
    with sqlite_record_total [OF codec rep w, of ps] show ?thesis by (auto simp: eval)
  next
    case ListPeerSyncStates
    let ?f = "\<lambda>r. sql_from_msgbus P (decode_json (de_peer (sq_serde P)) (p_state_json r))"
    let ?rs = "sort_key (\<lambda>r. (p_peer r, p_topic r, p_origin_key r)) (peer_sync_states s)"
    have "\<exists>x. ?f r = Inr x" if "r \<in> set ?rs" for r
      using sqlite_rep_simps(11) [OF rep, of r] that by (auto simp: good_peer_row_def)
    then obtain ys where "collect_rows w 3 ?f ?rs = Inr ys" using collect_rows_total [OF w, of ?rs ?f 3] by auto
    with ListPeerSyncStates w show ?thesis by (simp add: eval sqlite_list_peer_sync_states_def)
  qed
qed

sublocale sqlite_backend \<subseteq> sq: live_contract "sqlite_store P" "sqlite_inv P" "sqlite_view P" "ser_tombstone (sq_serde P)" sqlite_fits
  by unfold_locales (rule sqlite_progress [OF codec])

context sqlite_backend
begin

lemmas sqlite_live_contract = sq.live_contract_axioms

end

end
