(* ===== verification/Redb_Table.thy ===== *)
theory Redb_Table
  imports Msgbus_Core "HOL-Library.AList"
begin

text \<open>
  What the redb backend takes from libraries. A redb table with \<open>&str\<close> keys is an ordered map: the
  operations the source calls are a record of functions, and the locale states their documented
  behaviour, with keys compared byte by byte. The URL-safe unpadded base64 of the crate
  \<open>base64\<close> appears as a function on strings of which the source needs that it is injective and that
  its alphabet has no slash. Both locales are interpreted below, on sorted association lists and on
  a base64 encoder.
\<close>

section \<open>Ordered tables\<close>

record ('t, 'v) table_ops =
  tb_empty :: 't
  tb_get :: "'t \<Rightarrow> string \<Rightarrow> 'v option"
  tb_insert :: "'t \<Rightarrow> string \<Rightarrow> 'v \<Rightarrow> 't"
  tb_remove :: "'t \<Rightarrow> string \<Rightarrow> 't"
  tb_range :: "'t \<Rightarrow> string \<Rightarrow> (string \<times> 'v) list"

locale ordered_table =
  fixes T :: "('t, 'v) table_ops"
  assumes get_empty: "tb_get T (tb_empty T) k = None"
    and get_insert: "tb_get T (tb_insert T t k v) k' = (if k' = k then Some v else tb_get T t k')"
    and get_remove: "tb_get T (tb_remove T t k) k' = (if k' = k then None else tb_get T t k')"
    and range_sorted: "sorted (map fst (tb_range T t start))"
    and range_distinct: "distinct (map fst (tb_range T t start))"
    and range_set: "set (tb_range T t start) = {(k, v). tb_get T t k = Some v \<and> start \<le> k}"
begin

text \<open>A scan that starts inside a prefix and stops at the first key outside it sees that prefix's keys.\<close>

lemma scan_prefix:
  assumes "prefix p start"
  shows "takeWhile (\<lambda>kv. prefix p (fst kv)) (tb_range T t start)
    = filter (\<lambda>kv. prefix p (fst kv)) (tb_range T t start)"
  by (rule takeWhile_prefix_filter) (use assms in \<open>auto simp: range_sorted range_set\<close>)

text \<open>
  When the keys with a prefix are \<open>f x\<close> for an order-preserving \<open>f\<close>, the scan lists them in the order of
  the \<open>x\<close>.
\<close>

lemma scan_keys:
  fixes f :: "'k::linorder \<Rightarrow> string"
  assumes p: "prefix p start" and mono: "\<And>x y. f x \<le> f y \<longleftrightarrow> x \<le> y"
    and start: "\<And>x. start \<le> f x \<longleftrightarrow> from \<le> x" and pf: "\<And>x. prefix p (f x)"
    and keys: "\<And>k v. tb_get T t k = Some v \<Longrightarrow> prefix p k \<Longrightarrow> k \<in> range f"
    and fin: "finite (UNIV :: 'k set)"
  shows "takeWhile (\<lambda>kv. prefix p (fst kv)) (tb_range T t start)
    = map (\<lambda>x. (f x, the (tb_get T t (f x)))) (sorted_list_of_set {x. from \<le> x \<and> tb_get T t (f x) \<noteq> None})"
    (is "?scan = map ?g (sorted_list_of_set ?A)")
proof (rule map_inj_on [of fst])
  have finA: "finite ?A" using fin by (rule finite_subset [rotated]) simp
  have inj: "inj f" using mono by (metis injI order_antisym order_refl)
  have "kv \<in> ?g ` ?A" if kv: "kv \<in> set ?scan" for kv
  proof -
    have "kv \<in> set (filter (\<lambda>kv. prefix p (fst kv)) (tb_range T t start))"
      using kv unfolding scan_prefix [OF p] .
    then obtain k v where "kv = (k, v)" "prefix p k" "tb_get T t k = Some v" "start \<le> k"
      unfolding set_filter range_set by auto
    with keys [of k v] start show ?thesis by auto
  qed
  moreover have "?g x \<in> set ?scan" if "x \<in> ?A" for x
    using that pf start by (auto simp: scan_prefix [OF p] range_set)
  ultimately have set_scan: "set ?scan = ?g ` ?A" by blast
  show "inj_on fst (set ?scan \<union> set (map ?g (sorted_list_of_set ?A)))"
    unfolding set_scan using finA by (auto intro!: inj_onI dest: injD [OF inj])
  have "sorted (map fst ?scan)" "distinct (map fst ?scan)"
    using range_sorted [of t start] range_distinct [of t start]
    by (simp_all add: scan_prefix [OF p] sorted_filter distinct_map_filter)
  moreover have "sorted (map f (sorted_list_of_set ?A))"
    using sorted_sorted_list_of_set [of ?A] by (simp add: sorted_map mono)
  moreover have "distinct (map f (sorted_list_of_set ?A))"
    by (simp add: distinct_map inj_on_subset [OF inj])
  moreover have "set (map fst ?scan) = set (map f (sorted_list_of_set ?A))"
    using finA by (simp add: set_scan image_image)
  ultimately show "map fst ?scan = map fst (map ?g (sorted_list_of_set ?A))"
    by (simp add: comp_def sorted_distinct_set_unique)
qed

end

section \<open>Key encoding\<close>

locale key_encoding =
  fixes enc :: "string \<Rightarrow> string"
  assumes enc_inj: "enc a = enc b \<Longrightarrow> a = b"
    and enc_no_slash: "CHR ''/'' \<notin> set (enc a)"

section \<open>Instances\<close>

definition alist_range :: "(string \<times> 'v) list \<Rightarrow> string \<Rightarrow> (string \<times> 'v) list" where
  "alist_range t start = filter (\<lambda>kv. start \<le> fst kv) (sort_key fst (AList.clearjunk t))"

definition alist_table :: "((string \<times> 'v) list, 'v) table_ops" where
  "alist_table =
     \<lparr>tb_empty = [], tb_get = map_of, tb_insert = \<lambda>t k v. AList.update k v t,
      tb_remove = \<lambda>t k. AList.delete k t, tb_range = alist_range\<rparr>"

interpretation alist: ordered_table alist_table
proof unfold_locales
  fix t :: "(string \<times> 'v) list" and start
  have "map_of (AList.clearjunk t) = map_of t" by (simp add: map_of_clearjunk)
  then show "set (tb_range alist_table t start) = {(k, v). tb_get alist_table t k = Some v \<and> start \<le> k}"
    using map_of_eq_Some_iff [OF distinct_clearjunk, of t]
    by (auto simp: alist_table_def alist_range_def)
  show "distinct (map fst (tb_range alist_table t start))"
    using distinct_clearjunk [of t]
    by (auto simp: alist_table_def alist_range_def distinct_map intro: inj_on_subset)
qed (auto simp: alist_table_def alist_range_def update_conv delete_conv sorted_filter)

fun sextets :: "nat list \<Rightarrow> nat list" where
  "sextets [] = []"
| "sextets [a] = [a div 4, (a mod 4) * 16]"
| "sextets [a, b] = [a div 4, (a mod 4) * 16 + b div 16, (b mod 16) * 4]"
| "sextets (a # b # c # rest) =
     [a div 4, (a mod 4) * 16 + b div 16, (b mod 16) * 4 + c div 64, c mod 64] @ sextets rest"

fun octets :: "nat list \<Rightarrow> nat list" where
  "octets [p, q] = [p * 4 + q div 16]"
| "octets [p, q, r] = [p * 4 + q div 16, (q mod 16) * 16 + r div 4]"
| "octets (p # q # r # s # rest) =
     [p * 4 + q div 16, (q mod 16) * 16 + r div 4, (r mod 4) * 64 + s] @ octets rest"
| "octets _ = []"

definition url_alphabet :: string where
  "url_alphabet = ''ABCDEFGHIJKLMNOPQRSTUVWXYZabcdefghijklmnopqrstuvwxyz0123456789-_''"

definition url_base64 :: "string \<Rightarrow> string" where
  "url_base64 s = map (\<lambda>n. url_alphabet ! n) (sextets (map of_char s))"

lemma sextets_bound: "\<forall>a \<in> set xs. a < 256 \<Longrightarrow> n \<in> set (sextets xs) \<Longrightarrow> n < 64"
  by (induction xs rule: sextets.induct) auto

lemma octets_sextets: "\<forall>a \<in> set xs. a < 256 \<Longrightarrow> octets (sextets xs) = xs"
proof (induction xs rule: sextets.induct)
  case (4 a b c rest)
  then have abc: "a < 256" "b < 256" "c < 256" and "octets (sextets rest) = rest" by auto
  moreover from abc have "a div 4 * 4 + ((a mod 4) * 16 + b div 16) div 16 = a"
    "((a mod 4) * 16 + b div 16) mod 16 * 16 + ((b mod 16) * 4 + c div 64) div 4 = b"
    "((b mod 16) * 4 + c div 64) mod 4 * 64 + c mod 64 = c"
    by (simp_all add: div_less_dividend)
  ultimately show ?case by (cases "sextets rest") simp_all
qed auto

interpretation base64: key_encoding url_base64
proof
  have len: "length url_alphabet = 64" and dist: "distinct url_alphabet" and slash: "CHR ''/'' \<notin> set url_alphabet"
    by (simp_all add: url_alphabet_def)
  have octet: "\<forall>a \<in> set (map of_char s :: nat list). a < 256" for s by auto
  show "CHR ''/'' \<notin> set (url_base64 a)" for a
    using sextets_bound [OF octet, of _ a] slash len
    by (auto simp: url_base64_def)
  fix a b
  assume "url_base64 a = url_base64 b"
  moreover have "inj_on ((!) url_alphabet) {..<64}" using dist len by (auto intro!: inj_on_nth)
  ultimately have "sextets (map of_char a) = sextets (map of_char b)"
    using sextets_bound [OF octet] unfolding url_base64_def
    by (auto intro!: map_inj_on [of "(!) url_alphabet"] elim: inj_on_subset)
  then have "map of_char a = (map of_char b :: nat list)"
    using octets_sextets [OF octet] by metis
  then show "a = b" by (simp add: inj_map_eq_map inj_of_char)
qed

end
