(* ===== verification/Redb_Store.thy ===== *)
theory Redb_Store
  imports Store_Interface Serde_Interface Redb_Table
begin

text \<open>
  The redb backend, \<open>crates/msgbus-store-redb/src/lib.rs\<close>: six ordered tables, the string keys that
  place a value in them, and the operations of the trait as write transactions on a copy of the
  tables. Every call into redb that may fail has a number within its operation; the \<open>j\<close>-th step of
  a loop over a range has the loop's number plus \<open>j\<close> times \<open>stride\<close>, which is larger than any number
  in straight-line code, so each interaction can fail on its own.
\<close>

section \<open>Tables and parameters\<close>

record ('b, 'u) redb_db =
  rt_messages :: 'b
  rt_heads :: 'u
  rt_fifo_messages :: 'b
  rt_fifo_sequences :: 'u
  rt_tombstones :: 'b
  rt_peer_sync :: 'b

record ('b, 'u) redb_params =
  rd_serde :: serde
  rd_bytes :: "('b, bytes) table_ops"
  rd_u64 :: "('u, u64) table_ops"
  rd_enc :: "string \<Rightarrow> string"

definition stride :: nat where
  "stride = 32"

definition redb_encode :: "('a \<Rightarrow> string + bytes) \<Rightarrow> 'a \<Rightarrow> bytes res" where
  "redb_encode ser value = map_err Serialization (ser value)"

definition redb_decode :: "(bytes \<Rightarrow> string + 'a) \<Rightarrow> bytes \<Rightarrow> 'a res" where
  "redb_decode de value = map_err Serialization (de value)"

definition redb_effective_limit :: "u32 \<Rightarrow> nat" where
  "redb_effective_limit limit = (if limit = 0 then 100 else min (unat limit) 10000)"

section \<open>Keys\<close>

definition head_key :: "('b, 'u) redb_params \<Rightarrow> topic \<Rightarrow> node_id \<Rightarrow> string" where
  "head_key P topic origin =
     ''head/'' @ rd_enc P (topic_str topic) @ ''/'' @ rd_enc P (node_key origin)"

definition head_key_parts :: "string \<Rightarrow> (string \<times> string) res" where
  "head_key_parts key =
     (let invalid = Inl (Storage (''invalid head key: '' @ key)) in
      if \<not> prefix ''head/'' key then invalid
      else case split_on CHR ''/'' (drop 5 key) of
          [topic, origin] \<Rightarrow> Inr (topic, origin)
        | _ \<Rightarrow> invalid)"

definition message_prefix :: "('b, 'u) redb_params \<Rightarrow> topic \<Rightarrow> node_id \<Rightarrow> string" where
  "message_prefix P topic origin =
     ''msg/'' @ rd_enc P (topic_str topic) @ ''/'' @ rd_enc P (node_key origin) @ ''/''"

definition raw_message_key :: "string \<Rightarrow> string \<Rightarrow> head_id \<Rightarrow> string" where
  "raw_message_key topic_part origin_part head_id =
     ''msg/'' @ topic_part @ ''/'' @ origin_part @ ''/'' @ format_020 head_id"

definition message_key :: "('b, 'u) redb_params \<Rightarrow> topic \<Rightarrow> node_id \<Rightarrow> head_id \<Rightarrow> string" where
  "message_key P topic origin head_id = message_prefix P topic origin @ format_020 head_id"

definition peer_sync_key :: "('b, 'u) redb_params \<Rightarrow> peer_sync_state \<Rightarrow> string" where
  "peer_sync_key P state =
     (let topic = (case ps_topic state of None \<Rightarrow> ''-'' | Some topic \<Rightarrow> topic_str topic);
          origin = (case ps_origin state of None \<Rightarrow> ''-'' | Some origin \<Rightarrow> node_key origin)
      in ''peer-sync/'' @ rd_enc P (ps_peer state) @ ''/'' @ rd_enc P topic @ ''/'' @ rd_enc P origin)"

definition tombstone_prefix :: "('b, 'u) redb_params \<Rightarrow> topic \<Rightarrow> node_id \<Rightarrow> string" where
  "tombstone_prefix P topic origin =
     ''tombstone/'' @ rd_enc P (topic_str topic) @ ''/'' @ rd_enc P (node_key origin) @ ''/''"

definition tombstone_key :: "('b, 'u) redb_params \<Rightarrow> topic \<Rightarrow> node_id \<Rightarrow> head_id \<Rightarrow> head_id \<Rightarrow> string" where
  "tombstone_key P topic origin from to =
     tombstone_prefix P topic origin @ format_020 from @ ''-'' @ format_020 to"

definition fifo_sequence_key :: "('b, 'u) redb_params \<Rightarrow> queue_name \<Rightarrow> string" where
  "fifo_sequence_key P queue = ''fifo-seq/'' @ rd_enc P (queue_str queue)"

definition fifo_prefix :: "('b, 'u) redb_params \<Rightarrow> queue_name \<Rightarrow> string" where
  "fifo_prefix P queue = ''fifo/'' @ rd_enc P (queue_str queue) @ ''/''"

definition fifo_message_key :: "('b, 'u) redb_params \<Rightarrow> queue_name \<Rightarrow> u64 \<Rightarrow> string" where
  "fifo_message_key P queue sequence = fifo_prefix P queue @ format_020 sequence"

section \<open>Opening\<close>

definition redb_empty :: "('b, 'u) redb_params \<Rightarrow> ('b, 'u) redb_db" where
  "redb_empty P =
     \<lparr>rt_messages = tb_empty (rd_bytes P), rt_heads = tb_empty (rd_u64 P),
      rt_fifo_messages = tb_empty (rd_bytes P), rt_fifo_sequences = tb_empty (rd_u64 P),
      rt_tombstones = tb_empty (rd_bytes P), rt_peer_sync = tb_empty (rd_bytes P)\<rparr>"

definition redb_initialize ::
  "('b, 'u) redb_params \<Rightarrow> call_env \<Rightarrow> nat \<Rightarrow> ('b, 'u) redb_db option \<Rightarrow> ('b, 'u) redb_db res" where
  "redb_initialize P w c existing =
     io_then w c (io_then w (c + 1) (io_then w (c + 2) (io_then w (c + 3) (io_then w (c + 4)
       (io_then w (c + 5) (io_then w (c + 6) (io_then w (c + 7)
         (Inr (case existing of None \<Rightarrow> redb_empty P | Some db \<Rightarrow> db)))))))))"

definition redb_open ::
  "('b, 'u) redb_params \<Rightarrow> call_env \<Rightarrow> ('b, 'u) redb_db option \<Rightarrow> ('b, 'u) redb_db res" where
  "redb_open P w file = io_then w 0 (redb_initialize P w 1 file)"

section \<open>The log\<close>

definition redb_current_head_in_txn ::
  "('b, 'u) redb_params \<Rightarrow> call_env \<Rightarrow> nat \<Rightarrow> ('b, 'u) redb_db \<Rightarrow> topic \<Rightarrow> node_id \<Rightarrow> u64 res" where
  "redb_current_head_in_txn P w c txn topic origin =
     io_then w c (io_then w (c + 1)
       (Inr (case tb_get (rd_u64 P) (rt_heads txn) (head_key P topic origin) of None \<Rightarrow> 0 | Some h \<Rightarrow> h)))"

fun marker_loop :: "('b, 'u) redb_params \<Rightarrow> call_env \<Rightarrow> nat \<Rightarrow> string \<Rightarrow> (string \<times> bytes) list
    \<Rightarrow> stored_message \<Rightarrow> stored_message res" where
  "marker_loop P w c pre [] message = io_then w c (Inr message)"
| "marker_loop P w c pre ((key, value) # items) message =
     io_then w c
      (if \<not> prefix pre key then Inr message
       else and_then (redb_decode (de_tombstone (rd_serde P)) value) (\<lambda>tombstone.
         if tr_from_head_id tombstone \<le> sm_head_id message \<and> sm_head_id message \<le> tr_to_head_id tombstone
         then Inr (message\<lparr>sm_deleted := True\<rparr>)
         else marker_loop P w (c + stride) pre items message))"

definition redb_apply_tombstone_markers ::
  "('b, 'u) redb_params \<Rightarrow> call_env \<Rightarrow> nat \<Rightarrow> ('b, 'u) redb_db \<Rightarrow> stored_message \<Rightarrow> stored_message res" where
  "redb_apply_tombstone_markers P w c txn message =
     (if sm_deleted message then Inr message
      else io_then w c
       (let pre = tombstone_prefix P (sm_topic message) (sm_origin message) in
        io_then w (c + 1)
         (marker_loop P w (c + 2) pre (tb_range (rd_bytes P) (rt_tombstones txn) pre) message)))"

definition redb_same_message_except_deleted :: "stored_message \<Rightarrow> stored_message \<Rightarrow> bool" where
  "redb_same_message_except_deleted left right \<longleftrightarrow>
     sm_id left = sm_id right \<and> sm_topic left = sm_topic right \<and> sm_origin left = sm_origin right
     \<and> sm_head_id left = sm_head_id right \<and> sm_payload left = sm_payload right
     \<and> sm_headers left = sm_headers right \<and> sm_created_at_ms left = sm_created_at_ms right"

definition redb_append_message_in_txn ::
  "('b, 'u) redb_params \<Rightarrow> call_env \<Rightarrow> nat \<Rightarrow> nat \<Rightarrow> new_message \<Rightarrow> ('b, 'u) redb_db
     \<Rightarrow> (('b, 'u) redb_db \<times> stored_message) res" where
  "redb_append_message_in_txn P w c i message txn =
     (let key = head_key P (nm_topic message) (nm_origin message) in
      io_then w c (io_then w (c + 1)
       (let current = (case tb_get (rd_u64 P) (rt_heads txn) key of None \<Rightarrow> 0 | Some h \<Rightarrow> h);
            next = saturating_add current 1
        in io_then w (c + 2)
         (let txn = txn\<lparr>rt_heads := tb_insert (rd_u64 P) (rt_heads txn) key next\<rparr>;
              stored = \<lparr>sm_id = nm_id message, sm_topic = nm_topic message, sm_origin = nm_origin message,
                        sm_head_id = next, sm_payload = nm_payload message,
                        sm_headers = nm_headers message, sm_created_at_ms = now w i, sm_deleted = False\<rparr>
          in and_then (redb_apply_tombstone_markers P w (c + 3) txn stored) (\<lambda>stored.
             let key = message_key P (sm_topic stored) (sm_origin stored) (sm_head_id stored) in
             and_then (redb_encode (ser_message (rd_serde P)) stored) (\<lambda>encoded.
             io_then w (c + 6) (io_then w (c + 7)
              (Inr (txn\<lparr>rt_messages := tb_insert (rd_bytes P) (rt_messages txn) key encoded\<rparr>, stored)))))))))"

definition redb_append_message ::
  "('b, 'u) redb_params \<Rightarrow> call_env \<Rightarrow> new_message \<Rightarrow> ('b, 'u) redb_db
     \<Rightarrow> ('b, 'u) redb_db \<times> stored_message res" where
  "redb_append_message P w message db =
     transact db (io_then w 0
       (and_then (redb_append_message_in_txn P w 1 0 message db) (\<lambda>(txn, stored).
        io_then w 9 (Inr (txn, stored)))))"

fun fetch_loop :: "('b, 'u) redb_params \<Rightarrow> call_env \<Rightarrow> nat \<Rightarrow> string \<Rightarrow> nat \<Rightarrow> (string \<times> bytes) list
    \<Rightarrow> stored_message list \<Rightarrow> stored_message list res" where
  "fetch_loop P w c pre limit [] out = io_then w c (Inr out)"
| "fetch_loop P w c pre limit ((key, value) # items) out =
     io_then w c
      (if \<not> prefix pre key then Inr out
       else and_then (redb_decode (de_message (rd_serde P)) value) (\<lambda>message.
         let out = out @ [message] in
         if limit \<le> length out then Inr out
         else fetch_loop P w (c + stride) pre limit items out))"

definition redb_fetch_messages ::
  "('b, 'u) redb_params \<Rightarrow> call_env \<Rightarrow> fetch_query \<Rightarrow> ('b, 'u) redb_db \<Rightarrow> stored_message list res" where
  "redb_fetch_messages P w query db =
     io_then w 0 (io_then w 1
       (let pre = message_prefix P (fq_topic query) (fq_origin query);
            start = message_key P (fq_topic query) (fq_origin query) (fq_from_head_id query)
        in io_then w 2
         (fetch_loop P w 3 pre (redb_effective_limit (fq_limit query))
           (tb_range (rd_bytes P) (rt_messages db) start) [])))"

definition redb_get_head ::
  "('b, 'u) redb_params \<Rightarrow> call_env \<Rightarrow> topic \<Rightarrow> node_id \<Rightarrow> ('b, 'u) redb_db \<Rightarrow> head_id option res" where
  "redb_get_head P w topic origin db =
     io_then w 0 (io_then w 1 (io_then w 2
       (Inr (tb_get (rd_u64 P) (rt_heads db) (head_key P topic origin)))))"

fun heads_loop :: "('b, 'u) redb_params \<Rightarrow> call_env \<Rightarrow> nat \<Rightarrow> ('b, 'u) redb_db \<Rightarrow> (string \<times> u64) list
    \<Rightarrow> topic_head list res" where
  "heads_loop P w c db [] = io_then w c (Inr [])"
| "heads_loop P w c db ((key, head_id) # items) =
     io_then w c
      (and_then (head_key_parts key) (\<lambda>(topic_part, origin_part).
       io_then w (c + 1)
       (and_then
         (and_then
           (ok_or (Storage (''head entry has no message: '' @ key))
             (tb_get (rd_bytes P) (rt_messages db) (raw_message_key topic_part origin_part head_id)))
           (redb_decode (de_message (rd_serde P))))
         (\<lambda>message.
       and_then (heads_loop P w (c + stride) db items) (\<lambda>out.
       Inr (\<lparr>th_topic = sm_topic message, th_origin = sm_origin message, th_head_id = head_id\<rparr> # out))))))"

definition redb_list_heads ::
  "('b, 'u) redb_params \<Rightarrow> call_env \<Rightarrow> ('b, 'u) redb_db \<Rightarrow> topic_head list res" where
  "redb_list_heads P w db =
     io_then w 0 (io_then w 1 (io_then w 2 (io_then w 3
       (heads_loop P w 4 db (tb_range (rd_u64 P) (rt_heads db) [])))))"

definition redb_put_replicated_message ::
  "('b, 'u) redb_params \<Rightarrow> call_env \<Rightarrow> stored_message \<Rightarrow> ('b, 'u) redb_db
     \<Rightarrow> ('b, 'u) redb_db \<times> replicate_result res" where
  "redb_put_replicated_message P w message db =
     (if sm_head_id message = 0
      then (db, Inl (InvalidArgument ''replicated message head_id must be greater than zero''))
      else transact db (io_then w 0
       (and_then (redb_apply_tombstone_markers P w 1 db message) (\<lambda>message.
        let key = message_key P (sm_topic message) (sm_origin message) (sm_head_id message) in
        and_then (redb_current_head_in_txn P w 4 db (sm_topic message) (sm_origin message)) (\<lambda>current_head.
        io_then w 6 (io_then w 7
         (and_then (transpose_opt (map_option (redb_decode (de_message (rd_serde P)))
            (tb_get (rd_bytes P) (rt_messages db) key))) (\<lambda>existing.
          let insert_encoded =
                and_then (redb_encode (ser_message (rd_serde P)) message) (\<lambda>encoded.
                io_then w 8 (Inr (db\<lparr>rt_messages := tb_insert (rd_bytes P) (rt_messages db) key encoded\<rparr>)));
              update_head = (\<lambda>txn.
                io_then w 9 (io_then w 10
                 (let key = head_key P (sm_topic message) (sm_origin message);
                      current = (case tb_get (rd_u64 P) (rt_heads txn) key of None \<Rightarrow> 0 | Some h \<Rightarrow> h)
                  in and_then
                   (if current < sm_head_id message
                    then io_then w 11 (Inr (txn\<lparr>rt_heads := tb_insert (rd_u64 P) (rt_heads txn) key (sm_head_id message)\<rparr>))
                    else Inr txn)
                   (\<lambda>txn. io_then w 12 (Inr (txn, Inserted))))))
          in case existing of
            Some existing \<Rightarrow>
              (if existing = message then Inr (db, AlreadyPresent)
               else if redb_same_message_except_deleted existing message \<and> sm_deleted message
               then and_then insert_encoded update_head
               else Inl (Conflict (''message conflict at topic='' @ topic_str (sm_topic message)
                      @ '' origin='' @ node_key (sm_origin message)
                      @ '' head_id='' @ dec_string (unat (sm_head_id message)))))
          | None \<Rightarrow>
              (if saturating_add current_head 1 < sm_head_id message then
                 Inl (InvalidArgument (''replicated message would create a gap at topic=''
                      @ topic_str (sm_topic message) @ '' origin='' @ node_key (sm_origin message)
                      @ '' local_head='' @ dec_string (unat current_head)
                      @ '' incoming_head='' @ dec_string (unat (sm_head_id message))))
               else and_then insert_encoded update_head)))))))))"

section \<open>Tombstones\<close>

fun tombstone_scan :: "('b, 'u) redb_params \<Rightarrow> call_env \<Rightarrow> nat \<Rightarrow> string \<Rightarrow> head_id \<Rightarrow> (string \<times> bytes) list
    \<Rightarrow> (string \<times> bytes) list res" where
  "tombstone_scan P w c pre to [] = io_then w c (Inr [])"
| "tombstone_scan P w c pre to ((key, value) # items) =
     io_then w c
      (if \<not> prefix pre key then Inr []
       else and_then (redb_decode (de_message (rd_serde P)) value) (\<lambda>message.
         if to < sm_head_id message then Inr []
         else if \<not> sm_deleted message then
           and_then (redb_encode (ser_message (rd_serde P)) (message\<lparr>sm_deleted := True\<rparr>)) (\<lambda>encoded.
           and_then (tombstone_scan P w (c + stride) pre to items) (\<lambda>updates.
           Inr ((key, encoded) # updates)))
         else tombstone_scan P w (c + stride) pre to items))"

fun apply_updates :: "('b, bytes) table_ops \<Rightarrow> call_env \<Rightarrow> nat \<Rightarrow> (string \<times> bytes) list \<Rightarrow> 'b \<times> u64
    \<Rightarrow> ('b \<times> u64) res" where
  "apply_updates T w c [] (messages, changed) = Inr (messages, changed)"
| "apply_updates T w c ((key, value) # updates) (messages, changed) =
     io_then w c
      (apply_updates T w (c + stride) updates (tb_insert T messages key value, saturating_add changed 1))"

definition redb_tombstone_range_in_txn ::
  "('b, 'u) redb_params \<Rightarrow> call_env \<Rightarrow> nat \<Rightarrow> topic \<Rightarrow> node_id \<Rightarrow> head_id \<Rightarrow> head_id \<Rightarrow> u64 \<Rightarrow> ('b, 'u) redb_db
     \<Rightarrow> (('b, 'u) redb_db \<times> u64) res" where
  "redb_tombstone_range_in_txn P w c topic origin from to created_at_ms txn =
     (let pre = message_prefix P topic origin; start = message_key P topic origin from in
      io_then w c (io_then w (c + 1)
       (and_then (tombstone_scan P w (c + 2) pre to (tb_range (rd_bytes P) (rt_messages txn) start)) (\<lambda>updates.
        and_then (apply_updates (rd_bytes P) w (c + 3) updates (rt_messages txn, 0)) (\<lambda>(messages, changed).
        let txn = txn\<lparr>rt_messages := messages\<rparr>;
            tombstone = \<lparr>tr_topic = topic, tr_origin = origin, tr_from_head_id = from,
                         tr_to_head_id = to, tr_created_at_ms = created_at_ms\<rparr>
        in io_then w (c + 4)
         (let key = tombstone_key P topic origin from to in
          and_then (redb_encode (ser_tombstone (rd_serde P)) tombstone) (\<lambda>value.
          io_then w (c + 5)
           (Inr (txn\<lparr>rt_tombstones := tb_insert (rd_bytes P) (rt_tombstones txn) key value\<rparr>, changed)))))))))"

definition redb_tombstone_range ::
  "('b, 'u) redb_params \<Rightarrow> call_env \<Rightarrow> topic \<Rightarrow> node_id \<Rightarrow> head_id \<Rightarrow> head_id \<Rightarrow> ('b, 'u) redb_db
     \<Rightarrow> ('b, 'u) redb_db \<times> u64 res" where
  "redb_tombstone_range P w topic origin from to db =
     (if to < from then (db, Inl (InvalidArgument ''from_head_id must be <= to_head_id''))
      else transact db (io_then w 0
       (and_then (redb_tombstone_range_in_txn P w 1 topic origin from to (now w 0) db)
         (\<lambda>(txn, changed). io_then w 7 (Inr (txn, changed))))))"

definition redb_tombstone_range_with_marker ::
  "('b, 'u) redb_params \<Rightarrow> call_env \<Rightarrow> topic \<Rightarrow> node_id \<Rightarrow> head_id \<Rightarrow> head_id \<Rightarrow> topic \<Rightarrow> node_id
     \<Rightarrow> ('b, 'u) redb_db \<Rightarrow> ('b, 'u) redb_db \<times> (u64 \<times> stored_message) res" where
  "redb_tombstone_range_with_marker P w topic origin from to marker_topic marker_origin db =
     (if to < from then (db, Inl (InvalidArgument ''from_head_id must be <= to_head_id''))
      else transact db (io_then w 0
       (let created_at_ms = now w 0 in
        and_then (redb_tombstone_range_in_txn P w 1 topic origin from to created_at_ms db)
         (\<lambda>(txn, changed).
        let tombstone = \<lparr>tr_topic = topic, tr_origin = origin, tr_from_head_id = from,
                         tr_to_head_id = to, tr_created_at_ms = created_at_ms\<rparr> in
        and_then (redb_encode (ser_tombstone (rd_serde P)) tombstone) (\<lambda>payload.
        and_then (redb_append_message_in_txn P w 7 1
            (new_message_new (uuid w) marker_topic marker_origin payload fmempty) txn)
         (\<lambda>(txn, marker). io_then w 15 (Inr (txn, (changed, marker)))))))))"

section \<open>FIFO queues\<close>

definition redb_enqueue_fifo ::
  "('b, 'u) redb_params \<Rightarrow> call_env \<Rightarrow> new_fifo_message \<Rightarrow> ('b, 'u) redb_db
     \<Rightarrow> ('b, 'u) redb_db \<times> stored_fifo_message res" where
  "redb_enqueue_fifo P w message db =
     transact db (io_then w 0 (io_then w 1
       (let sequence_key = fifo_sequence_key P (nf_queue message) in
        io_then w 2
        (let current = (case tb_get (rd_u64 P) (rt_fifo_sequences db) sequence_key of None \<Rightarrow> 0 | Some n \<Rightarrow> n);
             next = saturating_add current 1
         in io_then w 3
         (let txn = db\<lparr>rt_fifo_sequences := tb_insert (rd_u64 P) (rt_fifo_sequences db) sequence_key next\<rparr>;
              stored = \<lparr>sf_id = nf_id message, sf_queue = nf_queue message, sf_topic = nf_topic message,
                        sf_source = nf_source message, sf_target = nf_target message,
                        sf_payload = nf_payload message, sf_headers = nf_headers message,
                        sf_created_at_ms = now w 0, sf_sequence = next, sf_attempts = 0\<rparr>;
              key = fifo_message_key P (sf_queue stored) (sf_sequence stored)
          in and_then (redb_encode (ser_fifo (rd_serde P)) stored) (\<lambda>value.
             io_then w 4 (io_then w 5
              (let txn = txn\<lparr>rt_fifo_messages := tb_insert (rd_bytes P) (rt_fifo_messages txn) key value\<rparr>
               in io_then w 6 (Inr (txn, stored))))))))))"

text \<open>
  The first item of the range that starts at the queue's prefix, with its key, if it belongs to the
  queue. \<open>peek_fifo\<close> and \<open>update_fifo_front\<close> both begin with this scan.
\<close>

definition redb_front ::
  "('b, 'u) redb_params \<Rightarrow> call_env \<Rightarrow> nat \<Rightarrow> queue_name \<Rightarrow> 'b \<Rightarrow> (string \<times> stored_fifo_message) option res" where
  "redb_front P w c queue fifo =
     (let pre = fifo_prefix P queue in
      io_then w c (io_then w (c + 1)
       (case tb_range (rd_bytes P) fifo pre of
          [] \<Rightarrow> Inr None
        | (key, value) # _ \<Rightarrow>
            (if prefix pre key
             then and_then (redb_decode (de_fifo (rd_serde P)) value) (\<lambda>m. Inr (Some (key, m)))
             else Inr None))))"

definition redb_peek_fifo ::
  "('b, 'u) redb_params \<Rightarrow> call_env \<Rightarrow> queue_name \<Rightarrow> ('b, 'u) redb_db \<Rightarrow> stored_fifo_message option res" where
  "redb_peek_fifo P w queue db =
     io_then w 0 (io_then w 1
       (and_then (redb_front P w 2 queue (rt_fifo_messages db)) (\<lambda>front. Inr (map_option snd front))))"

datatype redb_fifo_front_action = Redb_Ack | Redb_Reject

definition redb_update_fifo_front ::
  "('b, 'u) redb_params \<Rightarrow> call_env \<Rightarrow> queue_name \<Rightarrow> message_id \<Rightarrow> redb_fifo_front_action \<Rightarrow> ('b, 'u) redb_db
     \<Rightarrow> ('b, 'u) redb_db \<times> bool res" where
  "redb_update_fifo_front P w queue message_id action db =
     transact db (io_then w 0 (io_then w 1
       (and_then (redb_front P w 2 queue (rt_fifo_messages db)) (\<lambda>front.
        and_then
         (case front of
            Some (key, message) \<Rightarrow>
              (if sf_id message = message_id then
                 (case action of
                    Redb_Ack \<Rightarrow>
                      io_then w 4 (Inr (db\<lparr>rt_fifo_messages :=
                        tb_remove (rd_bytes P) (rt_fifo_messages db) key\<rparr>, True))
                  | Redb_Reject \<Rightarrow>
                      (let message = message\<lparr>sf_attempts := saturating_add (sf_attempts message) 1\<rparr> in
                       and_then (redb_encode (ser_fifo (rd_serde P)) message) (\<lambda>value.
                       io_then w 4 (Inr (db\<lparr>rt_fifo_messages :=
                         tb_insert (rd_bytes P) (rt_fifo_messages db) key value\<rparr>, True)))))
               else Inr (db, False))
          | None \<Rightarrow> Inr (db, False))
         (\<lambda>(txn, accepted). io_then w 5 (Inr (txn, accepted)))))))"

definition redb_ack_fifo ::
  "('b, 'u) redb_params \<Rightarrow> call_env \<Rightarrow> queue_name \<Rightarrow> message_id \<Rightarrow> ('b, 'u) redb_db
     \<Rightarrow> ('b, 'u) redb_db \<times> bool res" where
  "redb_ack_fifo P w queue message_id db = redb_update_fifo_front P w queue message_id Redb_Ack db"

definition redb_reject_fifo ::
  "('b, 'u) redb_params \<Rightarrow> call_env \<Rightarrow> queue_name \<Rightarrow> message_id \<Rightarrow> ('b, 'u) redb_db
     \<Rightarrow> ('b, 'u) redb_db \<times> bool res" where
  "redb_reject_fifo P w queue message_id db = redb_update_fifo_front P w queue message_id Redb_Reject db"

section \<open>Peer-sync records\<close>

definition redb_record_peer_sync_state ::
  "('b, 'u) redb_params \<Rightarrow> call_env \<Rightarrow> peer_sync_state \<Rightarrow> ('b, 'u) redb_db \<Rightarrow> ('b, 'u) redb_db \<times> unit res" where
  "redb_record_peer_sync_state P w state db =
     transact db (io_then w 0 (io_then w 1
       (let key = peer_sync_key P state in
        io_then w 2
        (and_then (transpose_opt (map_option (redb_decode (de_peer (rd_serde P)))
           (tb_get (rd_bytes P) (rt_peer_sync db) key))) (\<lambda>previous.
        let state =
          (if ps_last_error state \<noteq> None then
             (case previous of
                Some previous \<Rightarrow>
                  (if ps_last_success_at_ms state = 0
                   then state\<lparr>ps_last_success_at_ms := ps_last_success_at_ms previous\<rparr> else state)
                  \<lparr>ps_consecutive_failures := saturating_add (ps_consecutive_failures previous) 1\<rparr>
              | None \<Rightarrow> state\<lparr>ps_consecutive_failures := 1\<rparr>)
           else state\<lparr>ps_consecutive_failures := 0\<rparr>) in
        and_then (redb_encode (ser_peer (rd_serde P)) state) (\<lambda>encoded.
        io_then w 3 (io_then w 4
         (Inr (db\<lparr>rt_peer_sync := tb_insert (rd_bytes P) (rt_peer_sync db) key encoded\<rparr>, ())))))))))"

fun peers_loop :: "('b, 'u) redb_params \<Rightarrow> call_env \<Rightarrow> nat \<Rightarrow> (string \<times> bytes) list \<Rightarrow> peer_sync_state list res" where
  "peers_loop P w c [] = io_then w c (Inr [])"
| "peers_loop P w c ((key, value) # items) =
     io_then w c
      (and_then (redb_decode (de_peer (rd_serde P)) value) (\<lambda>state.
       and_then (peers_loop P w (c + stride) items) (\<lambda>states. Inr (state # states))))"

definition redb_list_peer_sync_states ::
  "('b, 'u) redb_params \<Rightarrow> call_env \<Rightarrow> ('b, 'u) redb_db \<Rightarrow> peer_sync_state list res" where
  "redb_list_peer_sync_states P w db =
     io_then w 0 (io_then w 1 (io_then w 2
       (peers_loop P w 3 (tb_range (rd_bytes P) (rt_peer_sync db) []))))"

section \<open>The trait implementation\<close>

definition redb_store :: "('b, 'u) redb_params \<Rightarrow> ('b, 'u) redb_db msgbus_store" where
  "redb_store P =
     \<lparr>st_append_message = redb_append_message P,
      st_fetch_messages = redb_fetch_messages P,
      st_get_head = redb_get_head P,
      st_list_heads = redb_list_heads P,
      st_put_replicated_message = redb_put_replicated_message P,
      st_tombstone_range = redb_tombstone_range P,
      st_tombstone_range_with_marker = redb_tombstone_range_with_marker P,
      st_enqueue_fifo = redb_enqueue_fifo P,
      st_peek_fifo = redb_peek_fifo P,
      st_ack_fifo = redb_ack_fifo P,
      st_reject_fifo = redb_reject_fifo P,
      st_record_peer_sync_state = redb_record_peer_sync_state P,
      st_list_peer_sync_states = redb_list_peer_sync_states P\<rparr>"

end
