(* ===== verification/Redb_Refine.thy ===== *)
theory Redb_Refine
  imports Store_Run Redb_Store
begin

text \<open>
  The redb backend implements the store contract. A log, a queue or a peer is found in a table
  through the key that the source builds for it; the view reads the tables through these keys, and
  the representation invariant says that a table holds nothing else and that every value decodes to
  the one its key names. The refinement is proved once, in a locale that collects what the backend
  asks of its libraries.
\<close>

section \<open>Keys as functions of the abstract names\<close>

definition log_part :: "('b, 'u) redb_params \<Rightarrow> log_key \<Rightarrow> string" where
  "log_part P l = rd_enc P (fst l) @ ''/'' @ rd_enc P (snd l)"

definition mkey :: "('b, 'u) redb_params \<Rightarrow> log_key \<Rightarrow> u64 \<Rightarrow> string" where
  "mkey P l h = ''msg/'' @ log_part P l @ ''/'' @ format_020 h"

definition hkey :: "('b, 'u) redb_params \<Rightarrow> log_key \<Rightarrow> string" where
  "hkey P l = ''head/'' @ log_part P l"

definition tkey :: "('b, 'u) redb_params \<Rightarrow> log_key \<Rightarrow> u64 \<Rightarrow> u64 \<Rightarrow> string" where
  "tkey P l a b = ''tombstone/'' @ log_part P l @ ''/'' @ format_020 a @ ''-'' @ format_020 b"

definition fkey :: "('b, 'u) redb_params \<Rightarrow> string \<Rightarrow> u64 \<Rightarrow> string" where
  "fkey P q n = ''fifo/'' @ rd_enc P q @ ''/'' @ format_020 n"

definition skey :: "('b, 'u) redb_params \<Rightarrow> string \<Rightarrow> string" where
  "skey P q = ''fifo-seq/'' @ rd_enc P q"

definition dash :: "string option \<Rightarrow> string" where
  "dash x = (case x of None \<Rightarrow> ''-'' | Some s \<Rightarrow> s)"

definition pkey :: "('b, 'u) redb_params \<Rightarrow> peer_key \<Rightarrow> string" where
  "pkey P k = ''peer-sync/'' @ rd_enc P (fst k) @ ''/'' @ rd_enc P (dash (fst (snd k))) @ ''/''
     @ rd_enc P (dash (snd (snd k)))"

lemma redb_keys:
  "message_key P t n h = mkey P (log_of t n) h" "head_key P t n = hkey P (log_of t n)"
  "tombstone_key P t n a b = tkey P (log_of t n) a b" "fifo_message_key P q i = fkey P (queue_str q) i"
  "fifo_sequence_key P q = skey P (queue_str q)" "peer_sync_key P ps = pkey P (peer_key_of ps)"
  "raw_message_key (rd_enc P (fst l)) (rd_enc P (snd l)) h = mkey P l h"
  by (auto simp: message_key_def message_prefix_def mkey_def log_part_def log_of_def head_key_def hkey_def
      tombstone_key_def tombstone_prefix_def tkey_def fifo_message_key_def fifo_prefix_def fkey_def
      fifo_sequence_key_def skey_def peer_sync_key_def pkey_def peer_key_of_def dash_def raw_message_key_def
      split: option.splits)

section \<open>View and invariant\<close>

definition redb_view :: "('b, 'u) redb_params \<Rightarrow> ('b, 'u) redb_db \<Rightarrow> store_view" where
  "redb_view P db =
     \<lparr>v_msg = (\<lambda>(l, h). Option.bind (tb_get (rd_bytes P) (rt_messages db) (mkey P l h))
        (\<lambda>b. ok (de_message (rd_serde P) b))),
      v_head = (\<lambda>l. tb_get (rd_u64 P) (rt_heads db) (hkey P l)),
      v_tomb = (\<lambda>l. {(a, b). tb_get (rd_bytes P) (rt_tombstones db) (tkey P l a b) \<noteq> None}),
      v_fifo = (\<lambda>(q, n). Option.bind (tb_get (rd_bytes P) (rt_fifo_messages db) (fkey P q n))
        (\<lambda>b. ok (de_fifo (rd_serde P) b))),
      v_seq = (\<lambda>q. tb_get (rd_u64 P) (rt_fifo_sequences db) (skey P q)),
      v_peer = (\<lambda>k. Option.bind (tb_get (rd_bytes P) (rt_peer_sync db) (pkey P k))
        (\<lambda>b. Option.bind (ok (de_peer (rd_serde P) b)) (\<lambda>st. if peer_key_of st = k then Some st else None)))\<rparr>"

definition holds :: "('t, 'v) table_ops \<Rightarrow> 't \<Rightarrow> (string \<Rightarrow> 'v \<Rightarrow> bool) \<Rightarrow> bool" where
  "holds T t good \<longleftrightarrow> (\<forall>k v. tb_get T t k = Some v \<longrightarrow> good k v)"

definition good_message :: "('b, 'u) redb_params \<Rightarrow> string \<Rightarrow> bytes \<Rightarrow> bool" where
  "good_message P k b \<longleftrightarrow> (\<exists>m. de_message (rd_serde P) b = Inr m \<and> k = mkey P (message_log m) (sm_head_id m))"

definition good_tombstone :: "('b, 'u) redb_params \<Rightarrow> string \<Rightarrow> bytes \<Rightarrow> bool" where
  "good_tombstone P k b \<longleftrightarrow> (\<exists>r. de_tombstone (rd_serde P) b = Inr r
     \<and> k = tkey P (log_of (tr_topic r) (tr_origin r)) (tr_from_head_id r) (tr_to_head_id r))"

definition good_fifo :: "('b, 'u) redb_params \<Rightarrow> string \<Rightarrow> bytes \<Rightarrow> bool" where
  "good_fifo P k b \<longleftrightarrow> (\<exists>m. de_fifo (rd_serde P) b = Inr m \<and> k = fkey P (queue_str (sf_queue m)) (sf_sequence m))"

definition good_peer :: "('b, 'u) redb_params \<Rightarrow> string \<Rightarrow> bytes \<Rightarrow> bool" where
  "good_peer P k b \<longleftrightarrow> (\<exists>st. de_peer (rd_serde P) b = Inr st \<and> scoped_peer st \<and> k = pkey P (peer_key_of st))"

definition redb_rep :: "('b, 'u) redb_params \<Rightarrow> ('b, 'u) redb_db \<Rightarrow> bool" where
  "redb_rep P db \<longleftrightarrow>
     holds (rd_bytes P) (rt_messages db) (good_message P)
     \<and> holds (rd_u64 P) (rt_heads db) (\<lambda>k _. k \<in> range (hkey P))
     \<and> holds (rd_bytes P) (rt_tombstones db) (good_tombstone P)
     \<and> holds (rd_bytes P) (rt_fifo_messages db) (good_fifo P)
     \<and> holds (rd_bytes P) (rt_peer_sync db) (good_peer P)"

definition redb_inv :: "('b, 'u) redb_params \<Rightarrow> ('b, 'u) redb_db \<Rightarrow> bool" where
  "redb_inv P db \<longleftrightarrow> redb_rep P db \<and> wf_view (redb_view P db)"

locale redb_backend =
  codec: serde_codec "rd_serde P" + bytes: ordered_table "rd_bytes P" + words: ordered_table "rd_u64 P"
  + keys: key_encoding "rd_enc P" for P :: "('b, 'u) redb_params"

lemma redb_view_sel [simp]:
  "v_msg (redb_view P db) (l, h) = Option.bind (tb_get (rd_bytes P) (rt_messages db) (mkey P l h))
     (\<lambda>b. ok (de_message (rd_serde P) b))"
  "v_head (redb_view P db) l = tb_get (rd_u64 P) (rt_heads db) (hkey P l)"
  "v_tomb (redb_view P db) l = {(a, b). tb_get (rd_bytes P) (rt_tombstones db) (tkey P l a b) \<noteq> None}"
  "v_fifo (redb_view P db) (q, n) = Option.bind (tb_get (rd_bytes P) (rt_fifo_messages db) (fkey P q n))
     (\<lambda>b. ok (de_fifo (rd_serde P) b))"
  "v_seq (redb_view P db) q = tb_get (rd_u64 P) (rt_fifo_sequences db) (skey P q)"
  by (simp_all add: redb_view_def)

context redb_backend
begin

lemma enc_eq [simp]: "rd_enc P a = rd_enc P b \<longleftrightarrow> a = b"
  using keys.enc_inj by blast

lemmas enc_sep = keys.enc_no_slash sep_append_eq

lemma log_part_append [simp]:
  "log_part P l @ CHR ''/'' # x = log_part P l' @ CHR ''/'' # x' \<longleftrightarrow> l = l' \<and> x = x'"
  by (auto simp: log_part_def enc_sep prod_eq_iff)

lemma log_part_eq [simp]: "log_part P l = log_part P l' \<longleftrightarrow> l = l'"
  by (auto simp: log_part_def enc_sep prod_eq_iff)

lemma key_eqs [simp]:
  "mkey P l h = mkey P l' h' \<longleftrightarrow> l = l' \<and> h = h'" "hkey P l = hkey P l' \<longleftrightarrow> l = l'"
  "tkey P l a b = tkey P l' a' b' \<longleftrightarrow> l = l' \<and> a = a' \<and> b = b'"
  "fkey P q n = fkey P q' n' \<longleftrightarrow> q = q' \<and> n = n'" "skey P q = skey P q' \<longleftrightarrow> q = q'"
  by (auto simp: mkey_def hkey_def tkey_def fkey_def skey_def enc_sep)

lemma prefix_keys [simp]:
  "prefix (message_prefix P t n) (mkey P l h) \<longleftrightarrow> l = log_of t n"
  "prefix (tombstone_prefix P t n) (tkey P l a b) \<longleftrightarrow> l = log_of t n"
  "prefix (fifo_prefix P q) (fkey P q' i) \<longleftrightarrow> q' = queue_str q"
proof -
  have "message_prefix P t n = ''msg/'' @ log_part P (log_of t n) @ ''/''"
    "tombstone_prefix P t n = ''tombstone/'' @ log_part P (log_of t n) @ ''/''"
    by (simp_all add: message_prefix_def tombstone_prefix_def log_part_def log_of_def)
  then show "prefix (message_prefix P t n) (mkey P l h) \<longleftrightarrow> l = log_of t n"
    "prefix (tombstone_prefix P t n) (tkey P l a b) \<longleftrightarrow> l = log_of t n"
    by (auto simp: mkey_def tkey_def prefix_def)
  show "prefix (fifo_prefix P q) (fkey P q' i) \<longleftrightarrow> q' = queue_str q"
    by (auto simp: fkey_def fifo_prefix_def prefix_def enc_sep)
qed

lemma key_le [simp]:
  "mkey P l h \<le> mkey P l h' \<longleftrightarrow> h \<le> h'" "fkey P q n \<le> fkey P q n' \<longleftrightarrow> n \<le> n'"
  by (simp_all add: mkey_def fkey_def)

lemma pkey_eq:
  assumes "scoped_peer a" "scoped_peer b"
  shows "pkey P (peer_key_of a) = pkey P (peer_key_of b) \<longleftrightarrow> peer_key_of a = peer_key_of b"
proof -
  have "dash (Some (node_key n)) \<noteq> dash None" for n
    by (simp add: dash_def node_key_def append_eq_Cons_conv)
  with assms show ?thesis
    by (cases "ps_origin a"; cases "ps_origin b")
      (auto simp: pkey_def peer_key_of_def enc_sep scoped_peer_def dash_def)
qed

lemma head_key_parts_hkey [simp]: "head_key_parts (hkey P l) = Inr (rd_enc P (fst l), rd_enc P (snd l))"
  by (simp add: head_key_parts_def hkey_def log_part_def keys.enc_no_slash)

section \<open>Writing\<close>

lemmas redb_run = io_then_eq_Inr and_then_eq_Inr transact_eq_Inr redb_encode_def redb_decode_def

lemma holds_insert:
  "ordered_table T \<Longrightarrow> holds T t good \<Longrightarrow> good k v \<Longrightarrow> holds T (tb_insert T t k v) good"
  by (simp add: holds_def ordered_table.get_insert)

lemma holds_remove: "ordered_table T \<Longrightarrow> holds T t good \<Longrightarrow> holds T (tb_remove T t k) good"
  by (simp add: holds_def ordered_table.get_remove)

lemma put_message_view:
  assumes "redb_rep P db" "ser_message (rd_serde P) m = Inr e"
    and k: "k = mkey P (message_log m) (sm_head_id m)"
  shows "redb_rep P (db\<lparr>rt_messages := tb_insert (rd_bytes P) (rt_messages db) k e\<rparr>)"
    "redb_view P (db\<lparr>rt_messages := tb_insert (rd_bytes P) (rt_messages db) k e\<rparr>)
      = (redb_view P db)\<lparr>v_msg := (v_msg (redb_view P db))((message_log m, sm_head_id m) \<mapsto> m)\<rparr>"
proof -
  have de: "de_message (rd_serde P) e = Inr m" by (rule round_tripsD [OF codec.message_json assms(2)])
  then show "redb_rep P (db\<lparr>rt_messages := tb_insert (rd_bytes P) (rt_messages db) k e\<rparr>)"
    using assms(1) k unfolding redb_rep_def
    by (auto intro!: holds_insert bytes.ordered_table_axioms simp: good_message_def)
  show "redb_view P (db\<lparr>rt_messages := tb_insert (rd_bytes P) (rt_messages db) k e\<rparr>)
      = (redb_view P db)\<lparr>v_msg := (v_msg (redb_view P db))((message_log m, sm_head_id m) \<mapsto> m)\<rparr>"
    using de unfolding k by (auto simp: redb_view_def bytes.get_insert fun_eq_iff)
qed

lemma put_head_view:
  assumes "redb_rep P db"
  shows "redb_rep P (db\<lparr>rt_heads := tb_insert (rd_u64 P) (rt_heads db) (hkey P l) h\<rparr>)"
    "redb_view P (db\<lparr>rt_heads := tb_insert (rd_u64 P) (rt_heads db) (hkey P l) h\<rparr>)
      = (redb_view P db)\<lparr>v_head := (v_head (redb_view P db))(l \<mapsto> h)\<rparr>"
proof -
  show "redb_rep P (db\<lparr>rt_heads := tb_insert (rd_u64 P) (rt_heads db) (hkey P l) h\<rparr>)"
    using assms unfolding redb_rep_def by (auto intro!: holds_insert words.ordered_table_axioms)
  show "redb_view P (db\<lparr>rt_heads := tb_insert (rd_u64 P) (rt_heads db) (hkey P l) h\<rparr>)
      = (redb_view P db)\<lparr>v_head := (v_head (redb_view P db))(l \<mapsto> h)\<rparr>"
    by (auto simp: redb_view_def words.get_insert fun_eq_iff)
qed

lemma put_tombstone_view:
  assumes "redb_rep P db" "ser_tombstone (rd_serde P) r = Inr e"
    and l: "l = log_of (tr_topic r) (tr_origin r)" and ab: "a = tr_from_head_id r" "b = tr_to_head_id r"
  shows "redb_rep P (db\<lparr>rt_tombstones := tb_insert (rd_bytes P) (rt_tombstones db) (tkey P l a b) e\<rparr>)"
    "redb_view P (db\<lparr>rt_tombstones := tb_insert (rd_bytes P) (rt_tombstones db) (tkey P l a b) e\<rparr>)
      = (redb_view P db)\<lparr>v_tomb := (v_tomb (redb_view P db))(l := insert (a, b) (v_tomb (redb_view P db) l))\<rparr>"
proof -
  have de: "de_tombstone (rd_serde P) e = Inr r" by (rule round_tripsD [OF codec.tombstone_json assms(2)])
  then show "redb_rep P (db\<lparr>rt_tombstones := tb_insert (rd_bytes P) (rt_tombstones db) (tkey P l a b) e\<rparr>)"
    using assms(1) l ab unfolding redb_rep_def
    by (auto intro!: holds_insert bytes.ordered_table_axioms simp: good_tombstone_def)
  show "redb_view P (db\<lparr>rt_tombstones := tb_insert (rd_bytes P) (rt_tombstones db) (tkey P l a b) e\<rparr>)
      = (redb_view P db)\<lparr>v_tomb := (v_tomb (redb_view P db))(l := insert (a, b) (v_tomb (redb_view P db) l))\<rparr>"
    by (auto simp: redb_view_def bytes.get_insert fun_eq_iff)
qed

lemma put_fifo_view:
  assumes "redb_rep P db" "ser_fifo (rd_serde P) m = Inr e"
    and q: "q = queue_str (sf_queue m)" "n = sf_sequence m"
  shows "redb_rep P (db\<lparr>rt_fifo_messages := tb_insert (rd_bytes P) (rt_fifo_messages db) (fkey P q n) e\<rparr>)"
    "redb_view P (db\<lparr>rt_fifo_messages := tb_insert (rd_bytes P) (rt_fifo_messages db) (fkey P q n) e\<rparr>)
      = (redb_view P db)\<lparr>v_fifo := (v_fifo (redb_view P db))((q, n) \<mapsto> m)\<rparr>"
proof -
  have de: "de_fifo (rd_serde P) e = Inr m" by (rule round_tripsD [OF codec.fifo_json assms(2)])
  then show "redb_rep P (db\<lparr>rt_fifo_messages := tb_insert (rd_bytes P) (rt_fifo_messages db) (fkey P q n) e\<rparr>)"
    using assms(1) q unfolding redb_rep_def
    by (auto intro!: holds_insert bytes.ordered_table_axioms simp: good_fifo_def)
  show "redb_view P (db\<lparr>rt_fifo_messages := tb_insert (rd_bytes P) (rt_fifo_messages db) (fkey P q n) e\<rparr>)
      = (redb_view P db)\<lparr>v_fifo := (v_fifo (redb_view P db))((q, n) \<mapsto> m)\<rparr>"
    using de by (auto simp: redb_view_def bytes.get_insert fun_eq_iff)
qed

lemma redb_remove_fifo_view:
  assumes "redb_rep P db"
  shows "redb_rep P (db\<lparr>rt_fifo_messages := tb_remove (rd_bytes P) (rt_fifo_messages db) (fkey P q n)\<rparr>)"
    "redb_view P (db\<lparr>rt_fifo_messages := tb_remove (rd_bytes P) (rt_fifo_messages db) (fkey P q n)\<rparr>)
      = (redb_view P db)\<lparr>v_fifo := (v_fifo (redb_view P db))((q, n) := None)\<rparr>"
proof -
  show "redb_rep P (db\<lparr>rt_fifo_messages := tb_remove (rd_bytes P) (rt_fifo_messages db) (fkey P q n)\<rparr>)"
    using assms unfolding redb_rep_def by (auto intro!: holds_remove bytes.ordered_table_axioms)
  show "redb_view P (db\<lparr>rt_fifo_messages := tb_remove (rd_bytes P) (rt_fifo_messages db) (fkey P q n)\<rparr>)
      = (redb_view P db)\<lparr>v_fifo := (v_fifo (redb_view P db))((q, n) := None)\<rparr>"
    by (auto simp: redb_view_def bytes.get_remove fun_eq_iff)
qed

section \<open>The log\<close>

lemma rep_messageD:
  assumes "redb_rep P db" "tb_get (rd_bytes P) (rt_messages db) k = Some b"
  obtains m where "de_message (rd_serde P) b = Inr m" "k = mkey P (message_log m) (sm_head_id m)"
  using assms by (auto simp: redb_rep_def holds_def good_message_def)

lemma view_msg_iff:
  assumes "redb_rep P db"
  shows "v_msg (redb_view P db) (l, h) = None \<longleftrightarrow> tb_get (rd_bytes P) (rt_messages db) (mkey P l h) = None"
proof (cases "tb_get (rd_bytes P) (rt_messages db) (mkey P l h)")
  case (Some b)
  obtain m where "de_message (rd_serde P) b = Inr m" by (rule rep_messageD [OF assms Some])
  with Some show ?thesis by simp
qed simp

lemma marker_loop_result:
  assumes "marker_loop P w c pre items m = Inr m'"
    and "\<forall>kv \<in> set (takeWhile (\<lambda>kv. prefix pre (fst kv)) items). de_tombstone (rd_serde P) (snd kv) = Inr (r kv)"
  shows "m' = (if \<exists>kv \<in> set (takeWhile (\<lambda>kv. prefix pre (fst kv)) items).
      tr_from_head_id (r kv) \<le> sm_head_id m \<and> sm_head_id m \<le> tr_to_head_id (r kv)
    then m\<lparr>sm_deleted := True\<rparr> else m)"
  using assms
  by (induction P w c pre items m rule: marker_loop.induct)
    (auto simp: redb_run split: if_splits)

lemma markers_view:
  assumes rep: "redb_rep P db" and run: "redb_apply_tombstone_markers P w c db m = Inr m'"
  shows "m' = mark_deleted (redb_view P db) m"
proof (cases "sm_deleted m")
  case True
  then have "m\<lparr>sm_deleted := True\<rparr> = m" by (cases m) simp
  with True run show ?thesis by (simp add: redb_apply_tombstone_markers_def mark_deleted_def)
next
  case False
  let ?pre = "tombstone_prefix P (sm_topic m) (sm_origin m)" and ?t = "rt_tombstones db"
  let ?items = "takeWhile (\<lambda>kv. prefix ?pre (fst kv)) (tb_range (rd_bytes P) ?t ?pre)"
  let ?r = "\<lambda>kv. the (ok (de_tombstone (rd_serde P) (snd kv)))"
  have items: "set ?items = {(k, b). tb_get (rd_bytes P) ?t k = Some b \<and> prefix ?pre k}"
    unfolding bytes.scan_prefix [OF prefix_order.refl] set_filter bytes.range_set
    by (auto dest: prefix_le)
  have good: "good_tombstone P k b" if "tb_get (rd_bytes P) ?t k = Some b" for k b
    using rep that by (simp add: redb_rep_def holds_def)
  have "\<forall>kv \<in> set ?items. de_tombstone (rd_serde P) (snd kv) = Inr (?r kv)"
    unfolding items by (auto dest!: good simp: good_tombstone_def)
  with run False have "m' = (if \<exists>kv \<in> set ?items. tr_from_head_id (?r kv) \<le> sm_head_id m
      \<and> sm_head_id m \<le> tr_to_head_id (?r kv) then m\<lparr>sm_deleted := True\<rparr> else m)"
    by (intro marker_loop_result) (auto simp: redb_apply_tombstone_markers_def Let_def redb_run)
  moreover have "(\<exists>kv \<in> set ?items. tr_from_head_id (?r kv) \<le> sm_head_id m \<and> sm_head_id m \<le> tr_to_head_id (?r kv))
    \<longleftrightarrow> covered (redb_view P db) (message_log m) (sm_head_id m)"
    (is "?L = ?R")
  proof
    assume ?L
    then obtain k b where kb: "tb_get (rd_bytes P) ?t k = Some b" "prefix ?pre k"
      and cov: "tr_from_head_id (?r (k, b)) \<le> sm_head_id m" "sm_head_id m \<le> tr_to_head_id (?r (k, b))"
      unfolding items by auto
    obtain x where "de_tombstone (rd_serde P) b = Inr x"
      "k = tkey P (log_of (tr_topic x) (tr_origin x)) (tr_from_head_id x) (tr_to_head_id x)"
      using good [OF kb(1)] by (auto simp: good_tombstone_def)
    with kb cov show ?R unfolding covered_def by auto
  next
    assume ?R
    then obtain a b v where t: "tb_get (rd_bytes P) ?t (tkey P (message_log m) a b) = Some v"
      and ab: "a \<le> sm_head_id m" "sm_head_id m \<le> b"
      unfolding covered_def by auto
    have "tr_from_head_id (?r (tkey P (message_log m) a b, v)) = a \<and> tr_to_head_id (?r (tkey P (message_log m) a b, v)) = b"
      using good [OF t] by (auto simp: good_tombstone_def)
    with t ab show ?L unfolding items by (intro bexI [of _ "(tkey P (message_log m) a b, v)"]) auto
  qed
  ultimately show ?thesis by (simp add: mark_deleted_def)
qed

lemma append_in_txn_view:
  assumes rep: "redb_rep P db" and run: "redb_append_message_in_txn P w c i m db = Inr (db', r)"
  shows "redb_rep P db' \<and> spec_append (redb_view P db) m (now w i) = (redb_view P db', r)"
proof -
  let ?l = "log_of (nm_topic m) (nm_origin m)" and ?v = "redb_view P db"
  let ?next = "saturating_add (head_of ?v ?l) 1"
  let ?tx = "db\<lparr>rt_heads := tb_insert (rd_u64 P) (rt_heads db) (hkey P ?l) ?next\<rparr>"
  have cur: "(case tb_get (rd_u64 P) (rt_heads db) (hkey P ?l) of None \<Rightarrow> 0 | Some h \<Rightarrow> h) = head_of ?v ?l"
    by (simp add: head_of_def)
  obtain e where mark: "redb_apply_tombstone_markers P w (c + 3) ?tx (stamp m ?next (now w i)) = Inr r"
    and e: "ser_message (rd_serde P) r = Inr e"
    and db': "db' = ?tx\<lparr>rt_messages := tb_insert (rd_bytes P) (rt_messages ?tx) (mkey P (message_log r) (sm_head_id r)) e\<rparr>"
    using run by (auto simp: redb_append_message_in_txn_def Let_def redb_run redb_keys cur stamp_def)
  have tx: "redb_rep P ?tx" "redb_view P ?tx = ?v\<lparr>v_head := (v_head ?v)(?l \<mapsto> ?next)\<rparr>"
    by (rule put_head_view [OF rep])+
  have r: "r = mark_deleted ?v (stamp m ?next (now w i))"
    using markers_view [OF tx(1) mark] unfolding tx(2) by simp
  have "redb_rep P db'" "redb_view P db' = (redb_view P ?tx)\<lparr>v_msg := (v_msg ?v)((?l, ?next) \<mapsto> r)\<rparr>"
    using put_message_view [OF tx(1) e refl] unfolding db' tx(2) by (simp_all add: r)
  then show ?thesis by (simp add: spec_append_def Let_def r tx(2))
qed

lemma fetch_loop_result:
  assumes "fetch_loop P w c pre limit items out = Inr ms" "length out < limit"
    and "\<forall>kv \<in> set (takeWhile (\<lambda>kv. prefix pre (fst kv)) items). de_message (rd_serde P) (snd kv) = Inr (g kv)"
  shows "ms = out @ map g (take (limit - length out) (takeWhile (\<lambda>kv. prefix pre (fst kv)) items))"
  using assms
proof (induction P w c pre limit items out arbitrary: ms rule: fetch_loop.induct)
  case (2 P w c pre limit key val items out)
  show ?case
  proof (cases "prefix pre key")
    case True
    then have g: "de_message (rd_serde P) val = Inr (g (key, val))" using 2 by auto
    show ?thesis
    proof (cases "limit \<le> Suc (length out)")
      case True
      then have "limit - length out = Suc 0" using 2 by simp
      with True \<open>prefix pre key\<close> 2 g show ?thesis by (auto simp: redb_run)
    next
      case False
      then have "limit - length out = Suc (limit - Suc (length out))" using 2 by simp
      with False \<open>prefix pre key\<close> 2 g show ?thesis by (auto simp: redb_run)
    qed
  qed (use 2 in \<open>auto simp: redb_run\<close>)
qed (auto simp: redb_run)

lemma message_scan:
  assumes rep: "redb_rep P db"
  shows "takeWhile (\<lambda>kv. prefix (message_prefix P t n) (fst kv))
      (tb_range (rd_bytes P) (rt_messages db) (message_key P t n from))
    = map (\<lambda>h. (mkey P (log_of t n) h, the (tb_get (rd_bytes P) (rt_messages db) (mkey P (log_of t n) h))))
        (sorted_list_of_set (heads_from (redb_view P db) (log_of t n) from))"
proof -
  have "takeWhile (\<lambda>kv. prefix (message_prefix P t n) (fst kv))
      (tb_range (rd_bytes P) (rt_messages db) (message_key P t n from))
    = map (\<lambda>h. (mkey P (log_of t n) h, the (tb_get (rd_bytes P) (rt_messages db) (mkey P (log_of t n) h))))
        (sorted_list_of_set {h. from \<le> h \<and> tb_get (rd_bytes P) (rt_messages db) (mkey P (log_of t n) h) \<noteq> None})"
  proof (rule bytes.scan_keys)
    fix k b assume "tb_get (rd_bytes P) (rt_messages db) k = Some b" "prefix (message_prefix P t n) k"
    then show "k \<in> range (mkey P (log_of t n))" by (auto elim!: rep_messageD [OF rep])
  qed (auto simp: redb_keys)
  then show ?thesis by (simp only: heads_from_def view_msg_iff [OF rep])
qed

lemma redb_fetch_view:
  assumes rep: "redb_rep P db" and run: "redb_fetch_messages P w q db = Inr ms"
  shows "ms = spec_fetch (redb_view P db) (log_of (fq_topic q) (fq_origin q)) (fq_from_head_id q) (fq_limit q)"
proof -
  let ?v = "redb_view P db" and ?l = "log_of (fq_topic q) (fq_origin q)" and ?B = "rd_bytes P"
  let ?hs = "sorted_list_of_set (heads_from ?v ?l (fq_from_head_id q))" and ?pre = "message_prefix P (fq_topic q) (fq_origin q)"
  let ?items = "tb_range ?B (rt_messages db) (message_key P (fq_topic q) (fq_origin q) (fq_from_head_id q))"
  let ?g = "\<lambda>kv. the (ok (de_message (rd_serde P) (snd kv)))"
  note scan = message_scan [OF rep, of "fq_topic q" "fq_origin q" "fq_from_head_id q"]
  have msg: "de_message (rd_serde P) b = Inr (the (v_msg ?v (?l, h)))"
    if "tb_get ?B (rt_messages db) (mkey P ?l h) = Some b" for h b
    by (rule rep_messageD [OF rep that]) (use that in simp)
  have stored: "\<exists>b. tb_get ?B (rt_messages db) (mkey P ?l h) = Some b" if "h \<in> set ?hs" for h
    using that view_msg_iff [OF rep, of ?l h] by (auto simp: heads_from_def)
  have g: "?g (mkey P ?l h, the (tb_get ?B (rt_messages db) (mkey P ?l h))) = the (v_msg ?v (?l, h))" if "h \<in> set ?hs" for h
    using stored [OF that] msg by auto
  have "\<forall>kv \<in> set (takeWhile (\<lambda>kv. prefix ?pre (fst kv)) ?items). de_message (rd_serde P) (snd kv) = Inr (?g kv)"
    unfolding scan using stored msg by fastforce
  with run have "ms = [] @ map ?g (take (redb_effective_limit (fq_limit q) - length ([] :: stored_message list))
      (takeWhile (\<lambda>kv. prefix ?pre (fst kv)) ?items))"
    by (intro fetch_loop_result) (auto simp: redb_fetch_messages_def redb_run Let_def redb_effective_limit_def unat_gt_0)
  also have "\<dots> = map ?g (take (page_size (fq_limit q)) (takeWhile (\<lambda>kv. prefix ?pre (fst kv)) ?items))"
    by (simp add: redb_effective_limit_def page_size_def)
  also have "\<dots> = map (\<lambda>h. the (v_msg ?v (?l, h))) (take (page_size (fq_limit q)) ?hs)"
    unfolding scan take_map map_map comp_def by (rule map_cong [OF refl]) (rule g, erule in_set_takeD)
  finally show ?thesis by (simp only: spec_fetch_def)
qed

lemma heads_loop_result:
  assumes "heads_loop P w c db items = Inr hs"
    and "\<forall>kv \<in> set items. fst kv = hkey P (l kv) \<and> v_msg (redb_view P db) (l kv, snd kv) = Some (m kv)"
  shows "hs = map (\<lambda>kv. \<lparr>th_topic = sm_topic (m kv), th_origin = sm_origin (m kv), th_head_id = snd kv\<rparr>) items"
  using assms
proof (induction items arbitrary: c hs)
  case (Cons kv items)
  define L h x where "L = l kv" "h = snd kv" "x = m kv"
  have kv: "kv = (hkey P L, h)" and "v_msg (redb_view P db) (L, h) = Some x"
    using Cons.prems(2) by (auto simp: L_h_x_def prod_eq_iff)
  then obtain b where "tb_get (rd_bytes P) (rt_messages db) (mkey P L h) = Some b" "de_message (rd_serde P) b = Inr x"
    by (auto simp: Option.bind_eq_Some_conv)
  with Cons.prems(1) kv obtain hs' where "heads_loop P w (c + stride) db items = Inr hs'"
    "hs = \<lparr>th_topic = sm_topic x, th_origin = sm_origin x, th_head_id = h\<rparr> # hs'"
    by (auto simp: redb_run redb_keys)
  with Cons.IH [of "c + stride" hs'] Cons.prems(2) show ?case by (simp add: L_h_x_def)
qed (auto simp: redb_run)

lemma redb_list_heads_view:
  assumes inv: "redb_inv P db" and run: "redb_list_heads P w db = Inr hs"
  shows "\<exists>ls. distinct ls \<and> set ls = dom (v_head (redb_view P db)) \<and> hs = map (head_entry (redb_view P db)) ls"
proof -
  let ?v = "redb_view P db" and ?items = "tb_range (rd_u64 P) (rt_heads db) []"
  have rep: "redb_rep P db" and wf: "wf_view ?v" using inv by (auto simp: redb_inv_def)
  define l where "l kv = inv (hkey P) (fst kv)" for kv :: "string \<times> u64"
  define m where "m kv = the (v_msg ?v (l kv, snd kv))" for kv
  have items: "set ?items = {(k, h). tb_get (rd_u64 P) (rt_heads db) k = Some h}"
    by (auto simp: words.range_set)
  have inj: "inj (hkey P)" by (rule injI) simp
  have good: "fst kv = hkey P (l kv) \<and> v_msg ?v (l kv, snd kv) = Some (m kv) \<and> v_head ?v (l kv) = Some (snd kv)"
    if kv: "kv \<in> set ?items" for kv
  proof -
    have k: "tb_get (rd_u64 P) (rt_heads db) (fst kv) = Some (snd kv)" using kv unfolding items by (cases kv) simp
    then obtain l' where l': "fst kv = hkey P l'" using rep by (auto simp: redb_rep_def holds_def)
    then have "l kv = l'" by (simp add: l_def inv_f_f [OF inj])
    moreover have "v_head ?v l' = Some (snd kv)" using k l' by simp
    ultimately show ?thesis using wf_view_head_stored [OF wf, of l' "snd kv"] l' by (auto simp: m_def)
  qed
  have "hs = map (\<lambda>kv. \<lparr>th_topic = sm_topic (m kv), th_origin = sm_origin (m kv), th_head_id = snd kv\<rparr>) ?items"
    by (rule heads_loop_result) (use run good in \<open>auto simp: redb_list_heads_def redb_run simp del: redb_view_sel\<close>)
  also have "\<dots> = map (head_entry ?v) (map l ?items)"
    using good by (simp add: head_entry_def Let_def m_def del: redb_view_sel)
  finally have "hs = map (head_entry ?v) (map l ?items)" .
  moreover have "inj_on l (set ?items)"
    using good by (intro inj_onI) (metis prod_eq_iff option.inject)
  then have "distinct (map l ?items)"
    using words.range_distinct [of "rt_heads db" "[]"] by (simp add: distinct_map)
  moreover have "set (map l ?items) = dom (v_head ?v)"
  proof (intro set_eqI iffI)
    fix x assume "x \<in> dom (v_head ?v)"
    then obtain h where "(hkey P x, h) \<in> set ?items" unfolding items by auto
    moreover have "l (hkey P x, h) = x" by (simp add: l_def inv_f_f [OF inj])
    ultimately show "x \<in> set (map l ?items)" by force
  qed (use good in \<open>auto simp del: redb_view_sel\<close>)
  ultimately show ?thesis by blast
qed

lemma redb_same_message_iff: "redb_same_message_except_deleted x y \<longleftrightarrow> same_except_deleted x y"
  by (cases x; cases y) (auto simp: redb_same_message_except_deleted_def same_except_deleted_def)

lemma redb_put_view:
  assumes inv: "redb_inv P db" and run: "redb_put_replicated_message P w m db = (db', Inr r)"
  shows "redb_inv P db' \<and> spec_put (redb_view P db) m = Some (redb_view P db', r)"
proof -
  let ?v = "redb_view P db"
  let ?m = "mark_deleted ?v m" and ?l = "message_log m" and ?h = "sm_head_id m"
  let ?ins = "\<lambda>e. db\<lparr>rt_messages := tb_insert (rd_bytes P) (rt_messages db) (mkey P ?l ?h) e\<rparr>"
  have rep: "redb_rep P db" and wf: "wf_view ?v" using inv by (auto simp: redb_inv_def)
  have h: "?h \<noteq> 0" using run by (auto simp: redb_put_replicated_message_def)
  have head: "(case tb_get (rd_u64 P) (rt_heads db) (hkey P ?l) of None \<Rightarrow> 0 | Some h \<Rightarrow> h) = head_of ?v ?l"
    by (simp add: head_of_def)
  from run h obtain m' where mark: "redb_apply_tombstone_markers P w 1 db m = Inr m'"
    by (auto simp: redb_put_replicated_message_def redb_run Let_def)
  have m': "m' = ?m" by (rule markers_view [OF rep mark])
  from run h mark m' obtain x where
    sel: "transpose_opt (map_option (redb_decode (de_message (rd_serde P))) (tb_get (rd_bytes P) (rt_messages db) (mkey P ?l ?h))) = Inr x"
    by (auto simp: redb_put_replicated_message_def io_then_eq_Inr and_then_eq_Inr transact_eq_Inr Let_def redb_keys)
  have x: "x = v_msg ?v (?l, ?h)"
    using sel by (cases "tb_get (rd_bytes P) (rt_messages db) (mkey P ?l ?h)")
      (auto simp: redb_run transpose_opt_eq_Inr)
  note runs = redb_put_replicated_message_def io_then_eq_Inr and_then_eq_Inr transact_eq_Inr Let_def redb_keys
    redb_same_message_iff head redb_current_head_in_txn_def
  have "redb_rep P db' \<and> spec_put ?v m = Some (redb_view P db', r)"
  proof (cases x)
    case (Some old)
    have "?h \<le> head_of ?v ?l" using wf_view_gapless [OF wf, of ?l ?h] x Some by (auto simp del: redb_view_sel)
    then consider "old = ?m" "db' = db" "r = AlreadyPresent"
      | e where "old \<noteq> ?m" "same_except_deleted old ?m" "sm_deleted ?m" "r = Inserted"
        "redb_encode (ser_message (rd_serde P)) ?m = Inr e" "db' = ?ins e"
      using run h mark m' sel Some by (auto simp: runs split: if_splits)
    then show ?thesis
    proof cases
      case 1
      with rep spec_put_old [OF x [symmetric, unfolded Some] h] show ?thesis by simp
    next
      case 2
      from 2(5) have "ser_message (rd_serde P) ?m = Inr e" by (simp add: redb_encode_def)
      from put_message_view [OF rep this refl] 2 spec_put_old [OF x [symmetric, unfolded Some] h]
      show ?thesis by simp
    qed
  next
    case None
    from run h mark m' sel None obtain e where gap: "\<not> saturating_add (head_of ?v ?l) 1 < ?h"
      and e: "redb_encode (ser_message (rd_serde P)) ?m = Inr e" and r: "r = Inserted"
      and db': "db' = (if head_of ?v ?l < ?h then (?ins e)\<lparr>rt_heads := tb_insert (rd_u64 P) (rt_heads (?ins e)) (hkey P ?l) ?h\<rparr>
        else ?ins e)"
      by (auto simp: runs split: if_splits)
    from e have "ser_message (rd_serde P) ?m = Inr e" by (simp add: redb_encode_def)
    note ins = put_message_view [OF rep this refl, simplified]
    from put_head_view [OF ins(1), of ?l ?h] ins spec_put_new [OF x [symmetric, unfolded None] h] gap r
    show ?thesis unfolding db' by auto
  qed
  with spec_put_wf [OF wf, of m] show ?thesis by (simp add: redb_inv_def)
qed

section \<open>Tombstones\<close>

lemma tombstone_scan_result:
  assumes "tombstone_scan P w c pre to items = Inr us"
    and "\<forall>kv \<in> set (takeWhile (\<lambda>kv. prefix pre (fst kv)) items). de_message (rd_serde P) (snd kv) = Inr (g kv)"
  shows "us = map (\<lambda>kv. (fst kv, the (ok (ser_message (rd_serde P) ((g kv)\<lparr>sm_deleted := True\<rparr>)))))
    (filter (\<lambda>kv. \<not> sm_deleted (g kv))
      (takeWhile (\<lambda>kv. sm_head_id (g kv) \<le> to) (takeWhile (\<lambda>kv. prefix pre (fst kv)) items)))"
  using assms
proof (induction P w c pre to items arbitrary: us rule: tombstone_scan.induct)
  case (2 P w c pre to key val items)
  show ?case
  proof (cases "prefix pre key")
    case True
    then have g: "de_message (rd_serde P) val = Inr (g (key, val))" using 2 by auto
    have tail: "\<forall>kv \<in> set (takeWhile (\<lambda>kv. prefix pre (fst kv)) items). de_message (rd_serde P) (snd kv) = Inr (g kv)"
      using 2 True by auto
    show ?thesis
    proof (cases "to < sm_head_id (g (key, val))")
      case True
      with \<open>prefix pre key\<close> 2 g show ?thesis by (auto simp: redb_run)
    next
      case False
      with \<open>prefix pre key\<close> 2 g tail show ?thesis by (auto simp: redb_run split: if_splits)
    qed
  qed (use 2 in \<open>auto simp: redb_run\<close>)
qed (auto simp: redb_run)

lemma apply_updates_result:
  assumes "apply_updates (rd_bytes P) w c us (t, n) = Inr (t', n')"
    and "distinct (map fst us)" and "unat n + length us < 2 ^ 64"
  shows "n' = n + of_nat (length us)
    \<and> (\<forall>k. tb_get (rd_bytes P) t' k = (case map_of us k of None \<Rightarrow> tb_get (rd_bytes P) t k | Some v \<Rightarrow> Some v))"
  using assms
proof (induction us arbitrary: c t n)
  case (Cons kv us)
  obtain k v where kv: "kv = (k, v)" by force
  have new: "map_of us k = None" using Cons.prems(2) kv by (simp add: map_of_eq_None_iff)
  have n: "n \<noteq> - 1" using Cons.prems(3) by (auto simp: unsigned_minus_1_eq_mask mask_eq_exp_minus_1)
  have "saturating_add n 1 = n + 1" "unat (n + 1) = Suc (unat n)" using n by (simp_all add: saturating_add_1 unat_plus_one)
  then show ?case
    using Cons.IH [of "c + stride" "tb_insert (rd_bytes P) t k v" "n + 1"] Cons.prems kv
    by (simp add: redb_run bytes.get_insert algebra_simps new split: option.split)
qed simp

lemma select_cong:
  assumes "\<And>x. x \<in> set xs \<Longrightarrow> f x = f' x \<and> A x = A' x \<and> B x = B' x"
  shows "map f (filter A (takeWhile B xs)) = map f' (filter A' (takeWhile B' xs))"
  using assms by (induction xs) auto

lemma takeWhile_le_sorted: "sorted xs \<Longrightarrow> takeWhile (\<lambda>x. x \<le> b) xs = filter (\<lambda>x. x \<le> (b :: u64)) xs"
proof (induction xs)
  case (Cons x xs)
  then have "x \<le> b" if "y \<in> set xs" "y \<le> b" for y using that by (auto intro: order_trans)
  then have "\<not> x \<le> b \<Longrightarrow> filter (\<lambda>x. x \<le> b) xs = []" by (auto simp: filter_empty_conv)
  with Cons show ?case by simp
qed simp

lemma tombstone_updates:
  assumes rep: "redb_rep P db" and wf: "wf_view (redb_view P db)"
    and run: "tombstone_scan P w c (message_prefix P t n) to
      (tb_range (rd_bytes P) (rt_messages db) (message_key P t n from)) = Inr us"
  defines "hs \<equiv> sorted_list_of_set (tombstone_hits (redb_view P db) (log_of t n) from to)"
    and "del \<equiv> \<lambda>h. (the (v_msg (redb_view P db) (log_of t n, h)))\<lparr>sm_deleted := True\<rparr>"
  shows "us = map (\<lambda>h. (mkey P (log_of t n) h, the (ok (ser_message (rd_serde P) (del h))))) hs"
proof -
  let ?v = "redb_view P db" and ?l = "log_of t n" and ?B = "rd_bytes P"
  let ?all = "sorted_list_of_set (heads_from ?v ?l from)"
  let ?kv = "\<lambda>h. (mkey P ?l h, the (tb_get ?B (rt_messages db) (mkey P ?l h)))"
  let ?g = "\<lambda>kv. the (ok (de_message (rd_serde P) (snd kv)))"
  note scan = message_scan [OF rep, of t n "from"]
  have g: "de_message (rd_serde P) (snd (?kv h)) = Inr (the (v_msg ?v (?l, h)))" "sm_head_id (the (v_msg ?v (?l, h))) = h"
    if "h \<in> set ?all" for h
  proof -
    from that obtain b where b: "tb_get ?B (rt_messages db) (mkey P ?l h) = Some b"
      using view_msg_iff [OF rep, of ?l h] by (auto simp: heads_from_def)
    obtain m where "de_message (rd_serde P) b = Inr m" "mkey P ?l h = mkey P (message_log m) (sm_head_id m)"
      by (rule rep_messageD [OF rep b])
    with b show "de_message (rd_serde P) (snd (?kv h)) = Inr (the (v_msg ?v (?l, h)))"
      "sm_head_id (the (v_msg ?v (?l, h))) = h"
      by simp_all
  qed
  then have "us = map (\<lambda>kv. (fst kv, the (ok (ser_message (rd_serde P) ((?g kv)\<lparr>sm_deleted := True\<rparr>)))))
    (filter (\<lambda>kv. \<not> sm_deleted (?g kv)) (takeWhile (\<lambda>kv. sm_head_id (?g kv) \<le> to) (map ?kv ?all)))"
    using tombstone_scan_result [OF run, of ?g, unfolded scan] by auto
  also have "\<dots> = map (\<lambda>h. (mkey P ?l h, the (ok (ser_message (rd_serde P) (del h)))))
    (filter (\<lambda>h. \<not> sm_deleted (the (v_msg ?v (?l, h)))) (takeWhile (\<lambda>h. h \<le> to) ?all))"
    unfolding takeWhile_map filter_map map_map comp_def
    by (rule select_cong) (use g in \<open>auto simp: del_def simp del: redb_view_sel\<close>)
  also have "filter (\<lambda>h. \<not> sm_deleted (the (v_msg ?v (?l, h)))) (takeWhile (\<lambda>h. h \<le> to) ?all) = hs"
    unfolding hs_def
    by (rule sorted_distinct_unique)
      (auto simp: sorted_wrt_filter takeWhile_le_sorted tombstone_hits_def heads_from_def simp del: redb_view_sel)
  finally show ?thesis .
qed

lemma map_of_map_inj:
  "inj f \<Longrightarrow> map_of (map (\<lambda>x. (f x, g x)) xs) (f y) = (if y \<in> set xs then Some (g y) else None)"
  by (induction xs) (auto simp: inj_eq)

lemma hits_count:
  assumes "wf_view v"
  shows "card (tombstone_hits v l a b) < 2 ^ 64"
proof -
  have "0 \<notin> tombstone_hits v l a b" using wf_view_gapless [OF assms, of l 0] by (auto simp: tombstone_hits_def)
  then have "card (tombstone_hits v l a b) < card (UNIV :: u64 set)" by (intro psubset_card_mono) auto
  then show ?thesis by (simp add: card_word)
qed

lemma tombstone_messages_view:
  assumes rep: "redb_rep P db" and wf: "wf_view (redb_view P db)"
    and scan: "tombstone_scan P w c (message_prefix P t n) b
      (tb_range (rd_bytes P) (rt_messages db) (message_key P t n a)) = Inr us"
    and upd: "apply_updates (rd_bytes P) w c' us (rt_messages db, 0) = Inr (msgs, k)"
  shows "redb_rep P (db\<lparr>rt_messages := msgs\<rparr>)"
    "redb_view P (db\<lparr>rt_messages := msgs\<rparr>)
      = (redb_view P db)\<lparr>v_msg := delete_between (log_of t n) a b (v_msg (redb_view P db))\<rparr>"
    "k = of_nat (card (tombstone_hits (redb_view P db) (log_of t n) a b))"
proof -
  let ?v = "redb_view P db" and ?l = "log_of t n" and ?B = "rd_bytes P"
  let ?H = "tombstone_hits ?v ?l a b"
  define del where "del h = (the (v_msg ?v (?l, h)))\<lparr>sm_deleted := True\<rparr>" for h
  define e where "e h = the (ok (ser_message (rd_serde P) (del h)))" for h
  have us: "us = map (\<lambda>h. (mkey P ?l h, e h)) (sorted_list_of_set ?H)"
    using tombstone_updates [OF rep wf scan] by (simp only: del_def e_def)
  have inj: "inj (mkey P ?l)" by (rule injI) simp
  have "distinct (map fst us)" by (simp add: us comp_def distinct_map inj_on_subset [OF inj])
  then have k: "k = of_nat (length us)"
    and get: "tb_get ?B msgs x = (case map_of us x of None \<Rightarrow> tb_get ?B (rt_messages db) x | Some v \<Rightarrow> Some v)" for x
    using apply_updates_result [OF upd] hits_count [OF wf] by (simp_all add: us)
  then show "k = of_nat (card ?H)" by (simp add: us)
  have de: "de_message (rd_serde P) (e h) = Inr (del h)" for h
    by (rule round_tripsE [OF codec.message_json, of "del h"]) (simp add: e_def)
  have del: "message_log (del h) = ?l" "sm_head_id (del h) = h" if "h \<in> ?H" for h
    using that wf_view_placed [OF wf, of ?l h] by (auto simp: tombstone_hits_def del_def simp del: redb_view_sel)
  show "redb_rep P (db\<lparr>rt_messages := msgs\<rparr>)"
    using rep del unfolding redb_rep_def holds_def
    by (auto simp: get us good_message_def de split: option.splits dest!: map_of_SomeD)
  have get_key: "tb_get ?B msgs (mkey P l h) = (if l = ?l \<and> h \<in> ?H then Some (e h) else tb_get ?B (rt_messages db) (mkey P l h))" for l h
  proof (cases "l = ?l")
    case True
    then show ?thesis by (simp add: get us map_of_map_inj [OF inj])
  next
    case False
    then have "map_of us (mkey P l h) = None" by (auto simp: us map_of_eq_None_iff)
    with False show ?thesis by (simp add: get)
  qed
  have "v_msg (redb_view P (db\<lparr>rt_messages := msgs\<rparr>)) (l, h) = delete_between ?l a b (v_msg ?v) (l, h)" for l h
  proof (cases "l = ?l \<and> h \<in> ?H")
    case True
    then show ?thesis
      by (auto simp: get_key de delete_between_def tombstone_hits_def del_def)
  next
    case False
    then have "v_msg (redb_view P (db\<lparr>rt_messages := msgs\<rparr>)) (l, h) = v_msg ?v (l, h)" by (auto simp: get_key)
    moreover have "m\<lparr>sm_deleted := True\<rparr> = m" if "sm_deleted m" for m :: stored_message
      using that by (cases m) simp
    ultimately show ?thesis using False
      by (cases "v_msg ?v (l, h)") (auto simp: delete_between_def tombstone_hits_def simp del: redb_view_sel)
  qed
  then have "v_msg (redb_view P (db\<lparr>rt_messages := msgs\<rparr>)) = delete_between ?l a b (v_msg ?v)"
    by (intro ext) (metis surj_pair)
  then show "redb_view P (db\<lparr>rt_messages := msgs\<rparr>) = ?v\<lparr>v_msg := delete_between ?l a b (v_msg ?v)\<rparr>"
    by (simp add: redb_view_def)
qed

lemma tombstone_in_txn_view:
  assumes rep: "redb_rep P db" and wf: "wf_view (redb_view P db)"
    and run: "redb_tombstone_range_in_txn P w c t n a b at db = Inr (db', k)"
  shows "redb_rep P db' \<and> spec_tombstone (redb_view P db) (log_of t n) a b = (redb_view P db', k)"
proof -
  let ?r = "\<lparr>tr_topic = t, tr_origin = n, tr_from_head_id = a, tr_to_head_id = b, tr_created_at_ms = at\<rparr>"
  obtain us msgs e where
    scan: "tombstone_scan P w (c + 2) (message_prefix P t n) b
      (tb_range (rd_bytes P) (rt_messages db) (message_key P t n a)) = Inr us"
    and upd: "apply_updates (rd_bytes P) w (c + 3) us (rt_messages db, 0) = Inr (msgs, k)"
    and e: "ser_tombstone (rd_serde P) ?r = Inr e"
    and db': "db' = (db\<lparr>rt_messages := msgs\<rparr>)\<lparr>rt_tombstones :=
      tb_insert (rd_bytes P) (rt_tombstones (db\<lparr>rt_messages := msgs\<rparr>)) (tkey P (log_of t n) a b) e\<rparr>"
    using run by (auto simp: redb_tombstone_range_in_txn_def Let_def redb_run redb_keys(3) split: prod.splits)
  note msgs = tombstone_messages_view [OF rep wf scan upd]
  from put_tombstone_view [OF msgs(1) e, of "log_of t n" a b] msgs(2,3)
  show ?thesis unfolding db' by (simp add: spec_tombstone_def)
qed

section \<open>FIFO queues\<close>

lemma redb_enqueue_view:
  assumes inv: "redb_inv P db" and run: "redb_enqueue_fifo P w f db = (db', Inr g)"
  shows "redb_inv P db' \<and> spec_enqueue (redb_view P db) f (now w 0) = (redb_view P db', g)"
proof -
  let ?v = "redb_view P db" and ?q = "queue_str (nf_queue f)"
  let ?n = "saturating_add (seq_of ?v ?q) 1"
  let ?tx = "db\<lparr>rt_fifo_sequences := tb_insert (rd_u64 P) (rt_fifo_sequences db) (skey P ?q) ?n\<rparr>"
  have rep: "redb_rep P db" and wf: "wf_view ?v" using inv by (auto simp: redb_inv_def)
  have cur: "(case tb_get (rd_u64 P) (rt_fifo_sequences db) (skey P ?q) of None \<Rightarrow> 0 | Some n \<Rightarrow> n) = seq_of ?v ?q"
    by (simp add: seq_of_def)
  obtain e where g: "g = enqueued f ?n (now w 0)" and e: "ser_fifo (rd_serde P) g = Inr e"
    and db': "db' = ?tx\<lparr>rt_fifo_messages := tb_insert (rd_bytes P) (rt_fifo_messages ?tx) (fkey P ?q ?n) e\<rparr>"
    using run by (auto simp: redb_enqueue_fifo_def Let_def redb_run redb_keys cur enqueued_def)
  have tx: "redb_rep P ?tx" using rep by (simp add: redb_rep_def)
  have view_tx: "redb_view P ?tx = ?v\<lparr>v_seq := (v_seq ?v)(?q \<mapsto> ?n)\<rparr>"
    by (auto simp: redb_view_def words.get_insert fun_eq_iff)
  have "redb_rep P db'" "redb_view P db' = (redb_view P ?tx)\<lparr>v_fifo := (v_fifo (redb_view P ?tx))((?q, ?n) \<mapsto> g)\<rparr>"
    unfolding db' by (rule put_fifo_view [OF tx e]; simp add: g enqueued_def)+
  with view_tx spec_enqueue_wf [OF wf, of f "now w 0"] show ?thesis
    by (simp add: redb_inv_def spec_enqueue_def Let_def g)
qed

lemma fifo_scan:
  assumes rep: "redb_rep P db"
  shows "takeWhile (\<lambda>kv. prefix (fifo_prefix P q) (fst kv)) (tb_range (rd_bytes P) (rt_fifo_messages db) (fifo_prefix P q))
    = map (\<lambda>n. (fkey P (queue_str q) n, the (tb_get (rd_bytes P) (rt_fifo_messages db) (fkey P (queue_str q) n))))
        (sorted_list_of_set (pending (redb_view P db) (queue_str q)))"
proof -
  have good: "good_fifo P k b" if "tb_get (rd_bytes P) (rt_fifo_messages db) k = Some b" for k b
    using rep that by (simp add: redb_rep_def holds_def)
  have "takeWhile (\<lambda>kv. prefix (fifo_prefix P q) (fst kv)) (tb_range (rd_bytes P) (rt_fifo_messages db) (fifo_prefix P q))
    = map (\<lambda>n. (fkey P (queue_str q) n, the (tb_get (rd_bytes P) (rt_fifo_messages db) (fkey P (queue_str q) n))))
        (sorted_list_of_set {n. 0 \<le> n \<and> tb_get (rd_bytes P) (rt_fifo_messages db) (fkey P (queue_str q) n) \<noteq> None})"
  proof (rule bytes.scan_keys)
    fix k b assume "tb_get (rd_bytes P) (rt_fifo_messages db) k = Some b" "prefix (fifo_prefix P q) k"
    then show "k \<in> range (fkey P (queue_str q))" by (auto dest!: good simp: good_fifo_def)
  qed (auto intro: prefix_le)
  moreover have "{n. 0 \<le> n \<and> tb_get (rd_bytes P) (rt_fifo_messages db) (fkey P (queue_str q) n) \<noteq> None}
      = pending (redb_view P db) (queue_str q)"
  proof (intro set_eqI iffI)
    fix n assume "n \<in> {n. 0 \<le> n \<and> tb_get (rd_bytes P) (rt_fifo_messages db) (fkey P (queue_str q) n) \<noteq> None}"
    then obtain b where "tb_get (rd_bytes P) (rt_fifo_messages db) (fkey P (queue_str q) n) = Some b" by auto
    with good [OF this] show "n \<in> pending (redb_view P db) (queue_str q)"
      by (auto simp: pending_def good_fifo_def)
  qed (auto simp: pending_def Option.bind_eq_Some_conv)
  ultimately show ?thesis by simp
qed

lemma front_view:
  assumes rep: "redb_rep P db" and run: "redb_front P w c q (rt_fifo_messages db) = Inr x"
  shows "map_option snd x = spec_front (redb_view P db) (queue_str q)"
    "x = Some (k, m) \<Longrightarrow> k = fkey P (queue_str q) (sf_sequence m) \<and> queue_str (sf_queue m) = queue_str q"
proof -
  let ?v = "redb_view P db" and ?q = "queue_str q" and ?pre = "fifo_prefix P q"
  let ?items = "tb_range (rd_bytes P) (rt_fifo_messages db) ?pre"
  have good: "good_fifo P k b" if "tb_get (rd_bytes P) (rt_fifo_messages db) k = Some b" for k b
    using rep that by (simp add: redb_rep_def holds_def)
  note scan = fifo_scan [OF rep, of q]
  have "map_option snd x = spec_front ?v ?q \<and>
    (\<forall>k m. x = Some (k, m) \<longrightarrow> k = fkey P ?q (sf_sequence m) \<and> queue_str (sf_queue m) = ?q)"
  proof (cases "pending ?v ?q = {}")
    case True
    then have "takeWhile (\<lambda>kv. prefix ?pre (fst kv)) ?items = []" unfolding scan by simp
    then have "x = None" using run
      by (cases ?items) (auto simp: redb_front_def Let_def redb_run split: if_splits)
    with True show ?thesis by (simp add: spec_front_def)
  next
    case False
    let ?n = "Min (pending ?v ?q)"
    have "?n \<in> pending ?v ?q" using False by simp
    then obtain b where b: "tb_get (rd_bytes P) (rt_fifo_messages db) (fkey P ?q ?n) = Some b"
      by (auto simp: pending_def Option.bind_eq_Some_conv)
    then obtain m where m: "de_fifo (rd_serde P) b = Inr m" "queue_str (sf_queue m) = ?q" "sf_sequence m = ?n"
      using good [OF b] by (auto simp: good_fifo_def)
    have "takeWhile (\<lambda>kv. prefix ?pre (fst kv)) ?items = (fkey P ?q ?n, b) #
        map (\<lambda>n. (fkey P ?q n, the (tb_get (rd_bytes P) (rt_fifo_messages db) (fkey P ?q n))))
          (sorted_list_of_set (pending ?v ?q - {?n}))"
      unfolding scan using False b by (simp add: sorted_list_of_set_nonempty)
    then obtain rest where "?items = (fkey P ?q ?n, b) # rest" by (cases ?items) (auto split: if_splits)
    with run m(1) have "x = Some (fkey P ?q ?n, m)" by (auto simp: redb_front_def Let_def redb_run)
    with False b m show ?thesis by (simp add: spec_front_def)
  qed
  then show "map_option snd x = spec_front ?v ?q"
    "x = Some (k, m) \<Longrightarrow> k = fkey P ?q (sf_sequence m) \<and> queue_str (sf_queue m) = ?q" by auto
qed

lemma redb_update_front_view:
  assumes inv: "redb_inv P db" and run: "redb_update_fifo_front P w q i act db = (db', Inr d)"
  shows "redb_inv P db' \<and>
    (case act of Redb_Ack \<Rightarrow> spec_ack (redb_view P db) (queue_str q) i | Redb_Reject \<Rightarrow> spec_reject (redb_view P db) (queue_str q) i)
      = (redb_view P db', d)"
proof -
  let ?v = "redb_view P db" and ?q = "queue_str q"
  have rep: "redb_rep P db" and wf: "wf_view ?v" using inv by (auto simp: redb_inv_def)
  obtain x where x: "redb_front P w 2 q (rt_fifo_messages db) = Inr x"
    using run by (auto simp: redb_update_fifo_front_def redb_run)
  note front = front_view [OF rep x]
  have "redb_rep P db' \<and> (case act of Redb_Ack \<Rightarrow> spec_ack ?v ?q i | Redb_Reject \<Rightarrow> spec_reject ?v ?q i) = (redb_view P db', d)"
  proof (cases "\<exists>k m. x = Some (k, m) \<and> sf_id m = i")
    case False
    then have "db' = db" "d = False" using run x
      by (auto simp: redb_update_fifo_front_def redb_run split: option.splits)
    with False front(1) rep show ?thesis
      by (cases x; cases act) (auto simp: spec_ack_def spec_reject_def split: option.splits)
  next
    case True
    then obtain k m where km: "x = Some (k, m)" "sf_id m = i" by blast
    note k = front(2) [OF km(1)]
    have f: "spec_front ?v ?q = Some m" using front(1) km by simp
    show ?thesis
    proof (cases act)
      case Redb_Ack
      with run x km k have "d = True"
        "db' = db\<lparr>rt_fifo_messages := tb_remove (rd_bytes P) (rt_fifo_messages db) (fkey P ?q (sf_sequence m))\<rparr>"
        by (auto simp: redb_update_fifo_front_def redb_run)
      with redb_remove_fifo_view [OF rep] f km(2) Redb_Ack show ?thesis by (simp add: spec_ack_def)
    next
      case Redb_Reject
      let ?m = "m\<lparr>sf_attempts := saturating_add (sf_attempts m) 1\<rparr>"
      from Redb_Reject run x km k obtain e where e: "d = True" "ser_fifo (rd_serde P) ?m = Inr e"
        "db' = db\<lparr>rt_fifo_messages := tb_insert (rd_bytes P) (rt_fifo_messages db) (fkey P ?q (sf_sequence m)) e\<rparr>"
        by (auto simp: redb_update_fifo_front_def redb_run Let_def)
      with put_fifo_view [OF rep e(2), of ?q "sf_sequence m"] k f km(2) Redb_Reject show ?thesis
        by (simp add: spec_reject_def)
    qed
  qed
  with spec_ack_wf [OF wf, of ?q i] spec_reject_wf [OF wf, of ?q i] show ?thesis
    by (cases act) (auto simp: redb_inv_def)
qed

section \<open>Peer-sync records\<close>

lemma rep_peerD:
  assumes "redb_rep P db" "tb_get (rd_bytes P) (rt_peer_sync db) k = Some b"
  obtains st where "de_peer (rd_serde P) b = Inr st" "scoped_peer st" "k = pkey P (peer_key_of st)"
proof -
  have "good_peer P k b" using assms unfolding redb_rep_def holds_def by blast
  then show thesis using that by (auto simp: good_peer_def)
qed

lemma view_peer:
  "v_peer (redb_view P db) k = Option.bind (tb_get (rd_bytes P) (rt_peer_sync db) (pkey P k))
     (\<lambda>b. Option.bind (ok (de_peer (rd_serde P) b)) (\<lambda>st. if peer_key_of st = k then Some st else None))"
  by (simp add: redb_view_def)

lemma view_peer_scoped:
  assumes rep: "redb_rep P db" and ps: "scoped_peer ps"
  shows "v_peer (redb_view P db) (peer_key_of ps) =
    Option.bind (tb_get (rd_bytes P) (rt_peer_sync db) (pkey P (peer_key_of ps))) (\<lambda>b. ok (de_peer (rd_serde P) b))"
proof (cases "tb_get (rd_bytes P) (rt_peer_sync db) (pkey P (peer_key_of ps))")
  case (Some b)
  obtain st where "de_peer (rd_serde P) b = Inr st" "scoped_peer st" "pkey P (peer_key_of ps) = pkey P (peer_key_of st)"
    by (rule rep_peerD [OF rep Some])
  with pkey_eq [OF ps, of st] Some show ?thesis by (simp add: view_peer)
qed (simp add: view_peer)

lemma put_peer_view:
  assumes rep: "redb_rep P db" and st: "scoped_peer st" "ser_peer (rd_serde P) st = Inr e"
  shows "redb_rep P (db\<lparr>rt_peer_sync := tb_insert (rd_bytes P) (rt_peer_sync db) (pkey P (peer_key_of st)) e\<rparr>)" (is "redb_rep P ?db")
    "redb_view P (db\<lparr>rt_peer_sync := tb_insert (rd_bytes P) (rt_peer_sync db) (pkey P (peer_key_of st)) e\<rparr>)
      = (redb_view P db)\<lparr>v_peer := (v_peer (redb_view P db))(peer_key_of st \<mapsto> st)\<rparr>"
proof -
  have de: "de_peer (rd_serde P) e = Inr st" by (rule round_tripsD [OF codec.peer_json st(2)])
  then show rep': "redb_rep P ?db"
    using rep st unfolding redb_rep_def
    by (auto intro!: holds_insert bytes.ordered_table_axioms simp: good_peer_def)
  have "v_peer (redb_view P ?db) k = ((v_peer (redb_view P db))(peer_key_of st \<mapsto> st)) k" for k
  proof (cases "pkey P k = pkey P (peer_key_of st)")
    case True
    have "v_peer (redb_view P db) k = None" if "k \<noteq> peer_key_of st"
    proof (cases "tb_get (rd_bytes P) (rt_peer_sync db) (pkey P k)")
      case (Some b)
      obtain s' where s': "de_peer (rd_serde P) b = Inr s'" "scoped_peer s'" "pkey P k = pkey P (peer_key_of s')"
        by (rule rep_peerD [OF rep Some])
      then have "peer_key_of s' = peer_key_of st" using pkey_eq [OF st(1) s'(2)] True by (simp only: simp_thms)
      with that show ?thesis by (auto simp: view_peer Some s'(1))
    qed (simp add: view_peer)
    with True de show ?thesis by (simp add: view_peer bytes.get_insert)
  qed (auto simp: view_peer bytes.get_insert)
  then have "v_peer (redb_view P ?db) = (v_peer (redb_view P db))(peer_key_of st \<mapsto> st)" by (intro ext)
  then show "redb_view P ?db = (redb_view P db)\<lparr>v_peer := (v_peer (redb_view P db))(peer_key_of st \<mapsto> st)\<rparr>"
    by (simp add: redb_view_def)
qed

lemma redb_record_view:
  assumes inv: "redb_inv P db" and ps: "scoped_peer ps"
    and run: "redb_record_peer_sync_state P w ps db = (db', Inr u)"
  shows "redb_inv P db' \<and> spec_record_peer (redb_view P db) ps = redb_view P db'"
proof -
  let ?v = "redb_view P db" and ?k = "peer_key_of ps"
  have rep: "redb_rep P db" and wf: "wf_view ?v" using inv by (auto simp: redb_inv_def)
  from run obtain prev where
    prev: "transpose_opt (map_option (redb_decode (de_peer (rd_serde P))) (tb_get (rd_bytes P) (rt_peer_sync db) (pkey P ?k))) = Inr prev"
    by (auto simp: redb_record_peer_sync_state_def redb_run redb_keys Let_def)
  have prev_v: "prev = v_peer ?v ?k"
    using prev unfolding view_peer_scoped [OF rep ps]
    by (cases "tb_get (rd_bytes P) (rt_peer_sync db) (pkey P ?k)") (auto simp: redb_run transpose_opt_eq_Inr)
  have carried: "(if ps_last_error ps \<noteq> None then
      (case prev of Some p \<Rightarrow> (if ps_last_success_at_ms ps = 0
          then ps\<lparr>ps_last_success_at_ms := ps_last_success_at_ms p\<rparr> else ps)
          \<lparr>ps_consecutive_failures := saturating_add (ps_consecutive_failures p) 1\<rparr>
       | None \<Rightarrow> ps\<lparr>ps_consecutive_failures := 1\<rparr>)
      else ps\<lparr>ps_consecutive_failures := 0\<rparr>) = carry_failures prev ps"
    by (cases ps) (auto simp: carry_failures_def split: option.split)
  let ?st = "carry_failures prev ps"
  obtain e where e: "ser_peer (rd_serde P) ?st = Inr e"
    and db': "db' = db\<lparr>rt_peer_sync := tb_insert (rd_bytes P) (rt_peer_sync db) (pkey P (peer_key_of ?st)) e\<rparr>"
    using run unfolding redb_record_peer_sync_state_def Let_def redb_keys prev and_then_simps carried carry_failures_key
    by (auto simp: io_then_eq_Inr and_then_eq_Inr transact_eq_Inr redb_encode_def)
  have "scoped_peer ?st" using ps by (simp add: scoped_peer_def carry_failures_def split: option.split)
  from put_peer_view [OF rep this e] have "redb_rep P db'" "spec_record_peer ?v ps = redb_view P db'"
    unfolding db' by (simp_all add: spec_record_peer_def prev_v)
  moreover note spec_record_peer_wf [OF wf, of ps]
  ultimately show ?thesis by (simp only: redb_inv_def simp_thms)
qed

lemma peers_loop_result:
  assumes "peers_loop P w c items = Inr y" "\<forall>kv \<in> set items. de_peer (rd_serde P) (snd kv) = Inr (g kv)"
  shows "y = map g items"
  using assms by (induction P w c items arbitrary: y rule: peers_loop.induct) (auto simp: redb_run)

lemma redb_list_peers_view:
  assumes inv: "redb_inv P db" and run: "redb_list_peer_sync_states P w db = Inr y"
  shows "\<exists>ks. distinct ks \<and> set ks = dom (v_peer (redb_view P db)) \<and> y = map (\<lambda>k. the (v_peer (redb_view P db) k)) ks"
proof -
  let ?v = "redb_view P db" and ?items = "tb_range (rd_bytes P) (rt_peer_sync db) []"
  have rep: "redb_rep P db" using inv by (simp add: redb_inv_def)
  have items: "set ?items = {(k, b). tb_get (rd_bytes P) (rt_peer_sync db) k = Some b}" by (auto simp: bytes.range_set)
  define g where "g kv = the (ok (de_peer (rd_serde P) (snd kv)))" for kv :: "string \<times> bytes"
  have good: "de_peer (rd_serde P) (snd kv) = Inr (g kv) \<and> fst kv = pkey P (peer_key_of (g kv))
      \<and> v_peer ?v (peer_key_of (g kv)) = Some (g kv)" if kv: "kv \<in> set ?items" for kv
  proof -
    have b: "tb_get (rd_bytes P) (rt_peer_sync db) (fst kv) = Some (snd kv)" using kv unfolding items by (cases kv) simp
    obtain st where "de_peer (rd_serde P) (snd kv) = Inr st" "scoped_peer st" "fst kv = pkey P (peer_key_of st)"
      by (rule rep_peerD [OF rep b])
    with b show ?thesis by (simp add: g_def view_peer)
  qed
  have "y = map g ?items"
    by (rule peers_loop_result) (use run good in \<open>auto simp: redb_list_peer_sync_states_def redb_run\<close>)
  then have "y = map (\<lambda>k. the (v_peer ?v k)) (map (\<lambda>kv. peer_key_of (g kv)) ?items)" using good by simp
  moreover have "inj_on (\<lambda>kv. peer_key_of (g kv)) (set ?items)"
  proof (rule inj_onI)
    fix x y assume xy: "x \<in> set ?items" "y \<in> set ?items" "peer_key_of (g x) = peer_key_of (g y)"
    then have "fst x = fst y" using good by metis
    with xy show "x = y" unfolding items by auto
  qed
  then have "distinct (map (\<lambda>kv. peer_key_of (g kv)) ?items)"
    using bytes.range_distinct [of "rt_peer_sync db" "[]"] by (simp add: distinct_map)
  moreover have "set (map (\<lambda>kv. peer_key_of (g kv)) ?items) = dom (v_peer ?v)"
  proof (intro set_eqI iffI)
    fix k assume "k \<in> dom (v_peer ?v)"
    then obtain b st where b: "tb_get (rd_bytes P) (rt_peer_sync db) (pkey P k) = Some b"
      and st: "de_peer (rd_serde P) b = Inr st" "peer_key_of st = k"
      by (auto simp: view_peer Option.bind_eq_Some_conv split: if_splits)
    then have "(pkey P k, b) \<in> set ?items" "peer_key_of (g (pkey P k, b)) = k" unfolding items by (simp_all add: g_def)
    then show "k \<in> set (map (\<lambda>kv. peer_key_of (g kv)) ?items)" by force
  qed (use good in auto)
  ultimately show ?thesis by blast
qed

section \<open>The contract\<close>

lemma redb_append_view:
  assumes "redb_inv P db" "redb_append_message P w m db = (db', Inr r)"
  shows "redb_inv P db' \<and> spec_append (redb_view P db) m (now w 0) = (redb_view P db', r)"
proof -
  have "redb_append_message_in_txn P w 1 0 m db = Inr (db', r)"
    using assms(2) by (auto simp: redb_append_message_def redb_run split: prod.splits)
  from append_in_txn_view [OF _ this] assms(1) spec_append_wf [of "redb_view P db" m "now w 0"]
  show ?thesis by (auto simp: redb_inv_def)
qed

lemma redb_tombstone_view:
  assumes "redb_inv P db" "redb_tombstone_range P w t n a b db = (db', Inr c)"
  shows "a \<le> b \<and> redb_inv P db' \<and> spec_tombstone (redb_view P db) (log_of t n) a b = (redb_view P db', c)"
proof -
  have ab: "a \<le> b" and "redb_tombstone_range_in_txn P w 1 t n a b (now w 0) db = Inr (db', c)"
    using assms(2) by (auto simp: redb_tombstone_range_def redb_run split: prod.splits if_splits)
  from tombstone_in_txn_view [OF _ _ this(2)] assms(1) spec_tombstone_wf [of "redb_view P db" "log_of t n" a b] ab
  show ?thesis by (auto simp: redb_inv_def)
qed

lemma redb_marker_view:
  assumes inv: "redb_inv P db"
    and run: "redb_tombstone_range_with_marker P w t n a b mt mn db = (db', Inr (c, marker))"
  shows "a \<le> b \<and> redb_inv P db' \<and>
    (\<exists>payload v. ser_tombstone (rd_serde P)
        \<lparr>tr_topic = t, tr_origin = n, tr_from_head_id = a, tr_to_head_id = b, tr_created_at_ms = now w 0\<rparr> = Inr payload
      \<and> spec_tombstone (redb_view P db) (log_of t n) a b = (v, c)
      \<and> spec_append v (new_message_new (uuid w) mt mn payload fmempty) (now w 1) = (redb_view P db', marker))"
proof -
  from run obtain tx payload where ab: "a \<le> b"
    and tomb: "redb_tombstone_range_in_txn P w 1 t n a b (now w 0) db = Inr (tx, c)"
    and payload: "ser_tombstone (rd_serde P)
      \<lparr>tr_topic = t, tr_origin = n, tr_from_head_id = a, tr_to_head_id = b, tr_created_at_ms = now w 0\<rparr> = Inr payload"
    and app: "redb_append_message_in_txn P w 7 1 (new_message_new (uuid w) mt mn payload fmempty) tx = Inr (db', marker)"
    by (auto simp: redb_tombstone_range_with_marker_def redb_run Let_def split: prod.splits if_splits)
  have rep: "redb_rep P db" and wf: "wf_view (redb_view P db)" using inv by (auto simp: redb_inv_def)
  note tomb' = tombstone_in_txn_view [OF rep wf tomb]
  note app' = append_in_txn_view [OF conjunct1 [OF tomb'] app]
  have "wf_view (redb_view P tx)" using spec_tombstone_wf [OF wf, of "log_of t n" a b] tomb' by simp
  from spec_append_wf [OF this, of "new_message_new (uuid w) mt mn payload fmempty" "now w 1"] app'
  have "redb_inv P db'" by (simp add: redb_inv_def)
  then show ?thesis using ab tomb' payload app' by blast
qed

end

lemmas redb_write_defs = redb_append_message_def redb_put_replicated_message_def redb_tombstone_range_def
  redb_tombstone_range_with_marker_def redb_enqueue_fifo_def redb_ack_fifo_def redb_reject_fifo_def
  redb_update_fifo_front_def redb_record_peer_sync_state_def

text \<open>A write that reports an error leaves the tables as they were: the transaction was dropped.\<close>

lemma redb_write_errors:
  "redb_append_message P w m db = (db', Inl e) \<Longrightarrow> db' = db"
  "redb_put_replicated_message P w sm db = (db', Inl e) \<Longrightarrow> db' = db"
  "redb_tombstone_range P w t n a b db = (db', Inl e) \<Longrightarrow> db' = db"
  "redb_tombstone_range_with_marker P w t n a b mt mn db = (db', Inl e) \<Longrightarrow> db' = db"
  "redb_enqueue_fifo P w f db = (db', Inl e) \<Longrightarrow> db' = db"
  "redb_ack_fifo P w q i db = (db', Inl e) \<Longrightarrow> db' = db"
  "redb_reject_fifo P w q i db = (db', Inl e) \<Longrightarrow> db' = db"
  "redb_record_peer_sync_state P w ps db = (db', Inl e) \<Longrightarrow> db' = db"
  unfolding redb_write_defs by (simp_all add: transact_eq_Inl split: if_splits)

lemma redb_store_sel:
  "st_append_message (redb_store P) = redb_append_message P"
  "st_fetch_messages (redb_store P) = redb_fetch_messages P"
  "st_get_head (redb_store P) = redb_get_head P"
  "st_list_heads (redb_store P) = redb_list_heads P"
  "st_put_replicated_message (redb_store P) = redb_put_replicated_message P"
  "st_tombstone_range (redb_store P) = redb_tombstone_range P"
  "st_tombstone_range_with_marker (redb_store P) = redb_tombstone_range_with_marker P"
  "st_enqueue_fifo (redb_store P) = redb_enqueue_fifo P"
  "st_peek_fifo (redb_store P) = redb_peek_fifo P"
  "st_ack_fifo (redb_store P) = redb_ack_fifo P"
  "st_reject_fifo (redb_store P) = redb_reject_fifo P"
  "st_record_peer_sync_state (redb_store P) = redb_record_peer_sync_state P"
  "st_list_peer_sync_states (redb_store P) = redb_list_peer_sync_states P"
  by (simp_all add: redb_store_def)

sublocale redb_backend \<subseteq> rd: msgbus_contract "redb_store P" "redb_inv P" "redb_view P" "ser_tombstone (rd_serde P)"
proof (unfold_locales, unfold redb_store_sel, goal_cases)
  case (1 s)
  then show ?case by (simp add: redb_inv_def)
next
  case (2 s m w s' r)
  from this(1,3) show ?case by (rule redb_append_view)
next
  case (4 s w q ms)
  then show ?case using redb_fetch_view by (simp add: redb_inv_def)
next
  case (5 s w t n ho)
  then show ?case by (auto simp: redb_get_head_def redb_run redb_keys)
next
  case (6 s w hs)
  from this show ?case by (rule redb_list_heads_view)
next
  case (7 s sm w s' p)
  from this(1,3) show ?case by (rule redb_put_view)
next
  case (9 s w t n a b s' c)
  from this show ?case by (rule redb_tombstone_view)
next
  case (11 s mt w t n a b mn s' c marker)
  from this(1,4) show ?case by (rule redb_marker_view)
next
  case (13 s f w s' g)
  from this(1,3) show ?case by (rule redb_enqueue_view)
next
  case (15 s w q' x)
  then show ?case by (auto simp: redb_peek_fifo_def redb_run redb_inv_def dest: front_view(1))
next
  case (16 s w q' i s' d)
  then show ?case using redb_update_front_view [of s w q' i Redb_Ack] by (simp add: redb_ack_fifo_def)
next
  case (18 s w q' i s' d)
  then show ?case using redb_update_front_view [of s w q' i Redb_Reject] by (simp add: redb_reject_fifo_def)
next
  case (20 s ps w s' u)
  from this show ?case by (rule redb_record_view)
next
  case (22 s w y)
  from this show ?case by (rule redb_list_peers_view)
qed (erule redb_write_errors)+

context redb_backend
begin

lemmas redb_contract = rd.msgbus_contract_axioms

end

end
