(* ===== verification/Redb_Live.thy ===== *)
theory Redb_Live
  imports Redb_Refine
begin

text \<open>
  Progress of the redb backend: when no interaction with the engine fails, every call succeeds
  except the ones its source refuses, which are a replicated message that the log cannot take and
  an inverted tombstone range.
\<close>

fun redb_fits :: "call_env \<Rightarrow> store_call \<Rightarrow> store_view \<Rightarrow> bool" where
  "redb_fits w (PutReplicatedMessage m) v \<longleftrightarrow> spec_put v m \<noteq> None"
| "redb_fits w (TombstoneRange t n a b) v \<longleftrightarrow> a \<le> b"
| "redb_fits w (TombstoneRangeWithMarker t n a b mt mn) v \<longleftrightarrow> a \<le> b"
| "redb_fits w _ v \<longleftrightarrow> True"

text \<open>What \<open>put_replicated_message\<close> answers, from the log and the message alone.\<close>

definition put_reply :: "store_view \<Rightarrow> stored_message \<Rightarrow> replicate_result res" where
  "put_reply v m =
     (if sm_head_id m = 0 then Inl (InvalidArgument ''replicated message head_id must be greater than zero'')
      else case v_msg v (message_log m, sm_head_id m) of
        Some old \<Rightarrow>
          (if old = mark_deleted v m then Inr AlreadyPresent
           else if same_except_deleted old m \<and> sm_deleted (mark_deleted v m) then Inr Inserted
           else Inl (Conflict (''message conflict at topic='' @ topic_str (sm_topic m)
                  @ '' origin='' @ node_key (sm_origin m) @ '' head_id='' @ dec_string (unat (sm_head_id m)))))
      | None \<Rightarrow>
          (if saturating_add (head_of v (message_log m)) 1 < sm_head_id m
           then Inl (InvalidArgument (''replicated message would create a gap at topic='' @ topic_str (sm_topic m)
                  @ '' origin='' @ node_key (sm_origin m)
                  @ '' local_head='' @ dec_string (unat (head_of v (message_log m)))
                  @ '' incoming_head='' @ dec_string (unat (sm_head_id m))))
           else Inr Inserted))"

lemma redb_encode_round_trips:
  "round_trips ser de \<Longrightarrow> redb_encode ser x = Inr (the (ok (ser x)))"
  by (erule round_tripsE [of ser de x]) (simp add: redb_encode_def)

context redb_backend
begin

text \<open>Serialising never fails, which as a rewrite rule removes the error branches.\<close>

lemma encode_total:
  "redb_encode (ser_message (rd_serde P)) m = Inr (the (ok (ser_message (rd_serde P) m)))"
  "redb_encode (ser_tombstone (rd_serde P)) r = Inr (the (ok (ser_tombstone (rd_serde P) r)))"
  "redb_encode (ser_fifo (rd_serde P)) f = Inr (the (ok (ser_fifo (rd_serde P) f)))"
  "redb_encode (ser_peer (rd_serde P)) ps = Inr (the (ok (ser_peer (rd_serde P) ps)))"
  by (rule redb_encode_round_trips, rule codec.message_json codec.tombstone_json codec.fifo_json codec.peer_json)+

lemma range_decodes:
  assumes rep: "redb_rep P db"
  shows "\<forall>kv \<in> set (tb_range (rd_bytes P) (rt_messages db) start). \<exists>m. de_message (rd_serde P) (snd kv) = Inr m"
    "\<forall>kv \<in> set (tb_range (rd_bytes P) (rt_tombstones db) start). \<exists>r. de_tombstone (rd_serde P) (snd kv) = Inr r"
    "\<forall>kv \<in> set (tb_range (rd_bytes P) (rt_fifo_messages db) start). \<exists>m. de_fifo (rd_serde P) (snd kv) = Inr m"
    "\<forall>kv \<in> set (tb_range (rd_bytes P) (rt_peer_sync db) start). \<exists>st. de_peer (rd_serde P) (snd kv) = Inr st"
proof -
  have all: "\<forall>kv \<in> set (tb_range (rd_bytes P) t start). \<exists>x. de (snd kv) = Inr x"
    if "holds (rd_bytes P) t good" "\<And>k b. good k b \<Longrightarrow> \<exists>x. de b = Inr x"
    for t good and de :: "bytes \<Rightarrow> string + 'z"
    using that unfolding bytes.range_set holds_def by fastforce
  show "\<forall>kv \<in> set (tb_range (rd_bytes P) (rt_messages db) start). \<exists>m. de_message (rd_serde P) (snd kv) = Inr m"
    by (rule all [of _ "good_message P"]) (use rep in \<open>auto simp: redb_rep_def good_message_def\<close>)
  show "\<forall>kv \<in> set (tb_range (rd_bytes P) (rt_tombstones db) start). \<exists>r. de_tombstone (rd_serde P) (snd kv) = Inr r"
    by (rule all [of _ "good_tombstone P"]) (use rep in \<open>auto simp: redb_rep_def good_tombstone_def\<close>)
  show "\<forall>kv \<in> set (tb_range (rd_bytes P) (rt_fifo_messages db) start). \<exists>m. de_fifo (rd_serde P) (snd kv) = Inr m"
    by (rule all [of _ "good_fifo P"]) (use rep in \<open>auto simp: redb_rep_def good_fifo_def\<close>)
  show "\<forall>kv \<in> set (tb_range (rd_bytes P) (rt_peer_sync db) start). \<exists>st. de_peer (rd_serde P) (snd kv) = Inr st"
    by (rule all [of _ "good_peer P"]) (use rep in \<open>auto simp: redb_rep_def good_peer_def\<close>)
qed

lemma marker_loop_total:
  assumes "no_fault w" "\<forall>kv \<in> set items. \<exists>r. de_tombstone (rd_serde P) (snd kv) = Inr r"
  shows "\<exists>m'. marker_loop P w c pre items m = Inr m'"
  using assms(2)
proof (induction items arbitrary: c)
  case (Cons kv items)
  then show ?case using assms(1) by (cases kv) (auto simp: redb_decode_def)
qed (use assms(1) in simp)

lemma markers_total:
  assumes rep: "redb_rep P db" and w: "no_fault w"
  shows "redb_apply_tombstone_markers P w c db m = Inr (mark_deleted (redb_view P db) m)"
proof -
  have "\<exists>m'. redb_apply_tombstone_markers P w c db m = Inr m'"
    using w by (auto simp: redb_apply_tombstone_markers_def Let_def intro!: marker_loop_total range_decodes(2) [OF rep])
  then show ?thesis using markers_view [OF rep] by blast
qed

lemma append_in_txn_total:
  assumes rep: "redb_rep P db" and w: "no_fault w"
  shows "\<exists>x. redb_append_message_in_txn P w c i m db = Inr x"
proof -
  have "redb_rep P (db\<lparr>rt_heads := tb_insert (rd_u64 P) (rt_heads db) (head_key P t n) h\<rparr>)" for t n h
    unfolding redb_keys by (rule put_head_view [OF rep])
  from markers_total [OF this w] show ?thesis
    using w by (simp add: redb_append_message_in_txn_def Let_def encode_total)
qed

lemma fetch_loop_total:
  assumes "no_fault w" "\<forall>kv \<in> set items. \<exists>m. de_message (rd_serde P) (snd kv) = Inr m"
  shows "\<exists>ms. fetch_loop P w c pre limit items out = Inr ms"
  using assms(2)
proof (induction items arbitrary: c out)
  case (Cons kv items)
  then show ?case using assms(1) by (cases kv) (auto simp: redb_decode_def Let_def)
qed (use assms(1) in simp)

lemma heads_loop_total:
  assumes "no_fault w" "\<forall>kv \<in> set items. \<exists>l m. fst kv = hkey P l \<and> v_msg (redb_view P db) (l, snd kv) = Some m"
  shows "\<exists>hs. heads_loop P w c db items = Inr hs"
  using assms(2)
proof (induction items arbitrary: c)
  case (Cons kv items)
  then obtain l m where "fst kv = hkey P l" "v_msg (redb_view P db) (l, snd kv) = Some m" by auto
  then obtain b where "kv = (hkey P l, snd kv)" "tb_get (rd_bytes P) (rt_messages db) (mkey P l (snd kv)) = Some b"
    "de_message (rd_serde P) b = Inr m"
    by (cases kv) (auto simp: Option.bind_eq_Some_conv)
  moreover obtain hs where "heads_loop P w (c + stride) db items = Inr hs" using Cons by auto
  ultimately show ?case
    using assms(1) by (cases kv) (auto simp: redb_keys redb_decode_def)
qed (use assms(1) in simp)

lemma list_heads_total:
  assumes inv: "redb_inv P db" and w: "no_fault w"
  shows "\<exists>hs. redb_list_heads P w db = Inr hs"
proof -
  have rep: "redb_rep P db" and wf: "wf_view (redb_view P db)" using inv by (auto simp: redb_inv_def)
  have "\<exists>l m. fst kv = hkey P l \<and> v_msg (redb_view P db) (l, snd kv) = Some m"
    if kv: "kv \<in> set (tb_range (rd_u64 P) (rt_heads db) [])" for kv
  proof -
    have k: "tb_get (rd_u64 P) (rt_heads db) (fst kv) = Some (snd kv)"
      using kv unfolding words.range_set by (cases kv) simp
    then obtain l where l: "fst kv = hkey P l" using rep by (auto simp: redb_rep_def holds_def)
    with k have "v_head (redb_view P db) l = Some (snd kv)" by simp
    with wf_view_head_stored [OF wf] l show ?thesis by blast
  qed
  from heads_loop_total [OF w, of _ db 4] this show ?thesis using w by (auto simp: redb_list_heads_def)
qed

lemma tombstone_scan_total:
  assumes "no_fault w" "\<forall>kv \<in> set items. \<exists>m. de_message (rd_serde P) (snd kv) = Inr m"
  shows "\<exists>us. tombstone_scan P w c pre to items = Inr us"
  using assms(2)
proof (induction items arbitrary: c)
  case (Cons kv items)
  then obtain m us where m: "de_message (rd_serde P) (snd kv) = Inr m"
    and us: "tombstone_scan P w (c + stride) pre to items = Inr us" by fastforce
  with assms(1) show ?case by (cases kv) (simp add: redb_decode_def encode_total)
qed (use assms(1) in simp)

lemma apply_updates_total: "no_fault w \<Longrightarrow> \<exists>x. apply_updates T w c us (t, n) = Inr x"
  by (induction us arbitrary: c t n) auto

lemma tombstone_in_txn_total:
  assumes rep: "redb_rep P db" and w: "no_fault w"
  shows "\<exists>x. redb_tombstone_range_in_txn P w c t n a b at db = Inr x"
proof -
  obtain us where us: "tombstone_scan P w (c + 2) (message_prefix P t n) b
      (tb_range (rd_bytes P) (rt_messages db) (message_key P t n a)) = Inr us"
    using tombstone_scan_total [OF w range_decodes(1) [OF rep]] by blast
  obtain x where x: "apply_updates (rd_bytes P) w (c + 3) us (rt_messages db, 0) = Inr x"
    using apply_updates_total [OF w, of "rd_bytes P" "c + 3" us "rt_messages db" 0] by (elim exE)
  with us w show ?thesis by (cases x) (simp add: redb_tombstone_range_in_txn_def Let_def encode_total)
qed

lemma front_total:
  assumes rep: "redb_rep P db" and w: "no_fault w"
  shows "\<exists>x. redb_front P w c q (rt_fifo_messages db) = Inr x"
proof -
  show ?thesis using w range_decodes(3) [OF rep, of "fifo_prefix P q"]
    by (auto simp: redb_front_def Let_def redb_decode_def split: list.split)
qed

lemma update_front_total:
  assumes rep: "redb_rep P db" and w: "no_fault w"
  shows "\<exists>db' d. redb_update_fifo_front P w q i act db = (db', Inr d)"
proof -
  obtain x where x: "redb_front P w 2 q (rt_fifo_messages db) = Inr x" using front_total [OF rep w] by blast
  with w show ?thesis
    by (cases x; cases act) (auto simp: redb_update_fifo_front_def Let_def encode_total split: prod.split)
qed

lemma peers_loop_total:
  assumes "no_fault w" "\<forall>kv \<in> set items. \<exists>st. de_peer (rd_serde P) (snd kv) = Inr st"
  shows "\<exists>y. peers_loop P w c items = Inr y"
  using assms(2)
proof (induction items arbitrary: c)
  case (Cons kv items)
  then obtain st y where "de_peer (rd_serde P) (snd kv) = Inr st" "peers_loop P w (c + stride) items = Inr y" by fastforce
  then show ?case using assms(1) by (cases kv) (auto simp: redb_decode_def)
qed (use assms(1) in simp)

lemma record_total:
  assumes rep: "redb_rep P db" and w: "no_fault w"
  shows "\<exists>db'. redb_record_peer_sync_state P w ps db = (db', Inr ())"
proof -
  obtain prev where prev: "transpose_opt (map_option (redb_decode (de_peer (rd_serde P)))
      (tb_get (rd_bytes P) (rt_peer_sync db) (peer_sync_key P ps))) = Inr prev"
  proof (cases "tb_get (rd_bytes P) (rt_peer_sync db) (peer_sync_key P ps)")
    case (Some b)
    show thesis by (rule rep_peerD [OF rep Some]) (use Some that in \<open>auto simp: redb_decode_def\<close>)
  qed (use that in simp)
  with w show ?thesis by (simp add: redb_record_peer_sync_state_def Let_def encode_total)
qed

lemma put_total:
  assumes inv: "redb_inv P db" and w: "no_fault w" and fits: "spec_put (redb_view P db) m \<noteq> None"
  shows "\<exists>db' r. redb_put_replicated_message P w m db = (db', Inr r)"
proof -
  let ?v = "redb_view P db" and ?l = "message_log m" and ?h = "sm_head_id m"
  have rep: "redb_rep P db" and wf: "wf_view ?v" using inv by (auto simp: redb_inv_def)
  have h: "?h \<noteq> 0" using fits by (auto simp: spec_put_def Let_def)
  have head: "(case tb_get (rd_u64 P) (rt_heads db) (hkey P ?l) of None \<Rightarrow> 0 | Some h \<Rightarrow> h) = head_of ?v ?l"
    by (simp add: head_of_def)
  note eval = redb_put_replicated_message_def Let_def redb_keys redb_same_message_iff head redb_current_head_in_txn_def
    encode_total markers_total [OF rep w]
  show ?thesis
  proof (cases "v_msg ?v (?l, ?h)")
    case (Some old)
    then obtain b where b: "tb_get (rd_bytes P) (rt_messages db) (mkey P ?l ?h) = Some b" "de_message (rd_serde P) b = Inr old"
      by (auto simp: Option.bind_eq_Some_conv)
    with fits h w show ?thesis
      by (auto simp: eval redb_decode_def spec_put_old [OF Some h] split: if_splits)
  next
    case None
    then have "tb_get (rd_bytes P) (rt_messages db) (mkey P ?l ?h) = None" using view_msg_iff [OF rep] by blast
    with fits h w show ?thesis
      by (auto simp: eval spec_put_new [OF None h] split: if_splits)
  qed
qed

lemma put_outcome:
  assumes inv: "redb_inv P db" and w: "no_fault w"
  shows "snd (redb_put_replicated_message P w m db) = put_reply (redb_view P db) m"
proof -
  let ?v = "redb_view P db" and ?l = "message_log m" and ?h = "sm_head_id m"
  have rep: "redb_rep P db" using inv by (simp add: redb_inv_def)
  have head: "(case tb_get (rd_u64 P) (rt_heads db) (hkey P ?l) of None \<Rightarrow> 0 | Some h \<Rightarrow> h) = head_of ?v ?l"
    by (simp add: head_of_def)
  have same: "same_except_deleted old (mark_deleted v m) = same_except_deleted old m" for old v
    by (simp add: same_except_deleted_def mark_deleted_def)
  note eval = redb_put_replicated_message_def Let_def redb_keys redb_same_message_iff head redb_current_head_in_txn_def
    encode_total markers_total [OF rep w] put_reply_def same
  show ?thesis
  proof (cases "v_msg ?v (?l, ?h)")
    case (Some old)
    then obtain b where b: "tb_get (rd_bytes P) (rt_messages db) (mkey P ?l ?h) = Some b" "de_message (rd_serde P) b = Inr old"
      by (auto simp: Option.bind_eq_Some_conv)
    with Some w show ?thesis by (simp add: eval redb_decode_def) blast
  next
    case None
    then have "tb_get (rd_bytes P) (rt_messages db) (mkey P ?l ?h) = None" using view_msg_iff [OF rep] by blast
    with None w show ?thesis by (simp add: eval)
  qed
qed

lemma redb_progress:
  assumes inv: "redb_inv P s" and w: "no_fault w" and fits: "redb_fits w c (redb_view P s)"
  shows "\<exists>s' r. perform (redb_store P) w c s = (s', Inr r)"
proof -
  have rep: "redb_rep P s" and wf: "wf_view (redb_view P s)" using inv by (auto simp: redb_inv_def)
  show ?thesis
  proof (cases c)
    case (AppendMessage m)
    from append_in_txn_total [OF rep w, of 1 0 m] AppendMessage w show ?thesis
      by (auto simp: redb_store_sel map_ok_eq_Inr redb_append_message_def)
  next
    case (FetchMessages q)
    let ?pre = "message_prefix P (fq_topic q) (fq_origin q)"
    from fetch_loop_total [OF w range_decodes(1) [OF rep], of 3 ?pre "redb_effective_limit (fq_limit q)"
        "message_key P (fq_topic q) (fq_origin q) (fq_from_head_id q)" "[]"] FetchMessages w show ?thesis
      by (auto simp: redb_store_sel map_ok_eq_Inr redb_fetch_messages_def Let_def)
  next
    case (TombstoneRange t n a b)
    with fits have "\<not> b < a" by simp
    with tombstone_in_txn_total [OF rep w, of 1 t n a b "now w 0"] TombstoneRange w show ?thesis
      by (auto simp: redb_store_sel map_ok_eq_Inr redb_tombstone_range_def)
  next
    case (TombstoneRangeWithMarker t n a b mt mn)
    with fits have ab: "\<not> b < a" by simp
    obtain tx k where tx: "redb_tombstone_range_in_txn P w 1 t n a b (now w 0) s = Inr (tx, k)"
      using tombstone_in_txn_total [OF rep w, of 1 t n a b "now w 0"] by auto
    then have "redb_rep P tx" using tombstone_in_txn_view [OF rep wf] by blast
    from append_in_txn_total [OF this w] have "\<exists>y m. redb_append_message_in_txn P w 7 1 x tx = Inr (y, m)" for x by simp
    then obtain y m where "redb_append_message_in_txn P w 7 1 (new_message_new (uuid w) mt mn
        (the (ok (ser_tombstone (rd_serde P) \<lparr>tr_topic = t, tr_origin = n, tr_from_head_id = a, tr_to_head_id = b,
          tr_created_at_ms = now w 0\<rparr>))) fmempty) tx = Inr (y, m)" by blast
    with ab tx TombstoneRangeWithMarker w show ?thesis
      by (simp add: redb_store_sel map_ok_eq_Inr redb_tombstone_range_with_marker_def Let_def encode_total)
  next
    case (EnqueueFifo f)
    with w show ?thesis by (simp add: redb_store_sel map_ok_eq_Inr redb_enqueue_fifo_def Let_def encode_total)
  next
    case (PeekFifo q)
    from front_total [OF rep w, of 2 q] PeekFifo w show ?thesis
      by (auto simp: redb_store_sel map_ok_eq_Inr redb_peek_fifo_def)
  next
    case (RecordPeerSyncState ps)
    from record_total [OF rep w, of ps] RecordPeerSyncState show ?thesis by (auto simp: redb_store_sel map_ok_eq_Inr)
  next
    case ListPeerSyncStates
    from peers_loop_total [OF w range_decodes(4) [OF rep], of 3 "[]"] ListPeerSyncStates w show ?thesis
      by (auto simp: redb_store_sel map_ok_eq_Inr redb_list_peer_sync_states_def)
  next
    case (GetHead t n)
    with w show ?thesis by (simp add: redb_store_sel map_ok_eq_Inr redb_get_head_def)
  next
    case ListHeads
    with list_heads_total [OF inv w] show ?thesis by (auto simp: redb_store_sel map_ok_eq_Inr)
  next
    case (PutReplicatedMessage m)
    with put_total [OF inv w, of m] fits show ?thesis by (auto simp: redb_store_sel map_ok_eq_Inr)
  next
    case (AckFifo q i)
    with update_front_total [OF rep w, of q i Redb_Ack] show ?thesis
      by (auto simp: redb_store_sel map_ok_eq_Inr redb_ack_fifo_def)
  next
    case (RejectFifo q i)
    with update_front_total [OF rep w, of q i Redb_Reject] show ?thesis
      by (auto simp: redb_store_sel map_ok_eq_Inr redb_reject_fifo_def)
  qed
qed

end

sublocale redb_backend \<subseteq> rd: live_contract "redb_store P" "redb_inv P" "redb_view P" "ser_tombstone (rd_serde P)" redb_fits
  by unfold_locales (rule redb_progress)

context redb_backend
begin

lemmas redb_live_contract = rd.live_contract_axioms

end

end
