(* ===== verification/Byte_Codec.thy ===== *)
theory Byte_Codec
  imports Serde_Interface
begin

text \<open>
  A concrete codec for the types that the program stores as JSON. It stands in for \<open>serde_json\<close>
  where a closed example has to run: every value is written as a self-delimiting byte string, and
  the interpretation at the end discharges the round trip that \<open>serde_codec\<close> asks for, so the
  theorems that rest on that locale are not vacuous.
\<close>

section \<open>Self-delimiting readers\<close>

type_synonym 'a reader = "bytes \<Rightarrow> ('a \<times> bytes) option"

definition reads :: "('a \<Rightarrow> bytes) \<Rightarrow> 'a reader \<Rightarrow> bool" where
  "reads put get \<longleftrightarrow> (\<forall>x rest. get (put x @ rest) = Some (x, rest))"

named_theorems reading \<open>which reader inverts which writer\<close>

lemma reads_append: "reads put get \<Longrightarrow> get (put x @ rest) = Some (x, rest)"
  by (simp add: reads_def)

fun put_nat :: "nat \<Rightarrow> bytes" where
  "put_nat n = (if n = 0 then [0] else (if even n then 1 else 2) # put_nat (n div 2))"

declare put_nat.simps [simp del]

fun get_nat :: "nat reader" where
  "get_nat [] = None"
| "get_nat (b # bs) =
     (if b = 0 then Some (0, bs)
      else map_option (\<lambda>(n, rest). (2 * n + (if b = 1 then 0 else 1), rest)) (get_nat bs))"

definition put_word :: "'a::len word \<Rightarrow> bytes" where
  "put_word x = put_nat (unat x)"

definition get_word :: "'a::len word reader" where
  "get_word bs = map_option (\<lambda>(n, rest). (of_nat n, rest)) (get_nat bs)"

fun put_list :: "('a \<Rightarrow> bytes) \<Rightarrow> 'a list \<Rightarrow> bytes" where
  "put_list put [] = [0]"
| "put_list put (x # xs) = 1 # put x @ put_list put xs"

fun get_list_upto :: "nat \<Rightarrow> 'a reader \<Rightarrow> 'a list reader" where
  "get_list_upto 0 get bs = None"
| "get_list_upto (Suc k) get [] = None"
| "get_list_upto (Suc k) get (b # bs) =
     (if b = 0 then Some ([], bs)
      else case get bs of None \<Rightarrow> None
        | Some (x, rest) \<Rightarrow> map_option (\<lambda>(xs, rest'). (x # xs, rest')) (get_list_upto k get rest))"

definition get_list :: "'a reader \<Rightarrow> 'a list reader" where
  "get_list get bs = get_list_upto (length bs) get bs"

definition put_pair :: "('a \<Rightarrow> bytes) \<Rightarrow> ('b \<Rightarrow> bytes) \<Rightarrow> 'a \<times> 'b \<Rightarrow> bytes" where
  "put_pair pa pb x = pa (fst x) @ pb (snd x)"

definition get_pair :: "'a reader \<Rightarrow> 'b reader \<Rightarrow> ('a \<times> 'b) reader" where
  "get_pair ga gb bs =
     (case ga bs of None \<Rightarrow> None
      | Some (a, rest) \<Rightarrow> map_option (\<lambda>(b, rest'). ((a, b), rest')) (gb rest))"

definition put_option :: "('a \<Rightarrow> bytes) \<Rightarrow> 'a option \<Rightarrow> bytes" where
  "put_option put x = (case x of None \<Rightarrow> [0] | Some a \<Rightarrow> 1 # put a)"

definition get_option :: "'a reader \<Rightarrow> 'a option reader" where
  "get_option get bs =
     (case bs of [] \<Rightarrow> None
      | b # rest \<Rightarrow> (if b = 0 then Some (None, rest) else map_option (\<lambda>(a, r). (Some a, r)) (get rest)))"

definition get_via :: "('a \<Rightarrow> 'b) \<Rightarrow> 'a reader \<Rightarrow> 'b reader" where
  "get_via f get bs = map_option (\<lambda>(a, rest). (f a, rest)) (get bs)"

definition put_bool :: "bool \<Rightarrow> bytes" where
  "put_bool b = [if b then 1 else 0]"

definition get_bool :: "bool reader" where
  "get_bool bs = (case bs of [] \<Rightarrow> None | b # rest \<Rightarrow> Some (b \<noteq> 0, rest))"

lemma get_put_nat [reading]: "reads put_nat get_nat"
proof -
  have "get_nat (put_nat n @ rest) = Some (n, rest)" for n rest
    by (induction n rule: put_nat.induct) (subst put_nat.simps, auto elim: evenE oddE)
  then show ?thesis by (simp add: reads_def)
qed

lemma get_put_word [reading]: "reads put_word get_word"
  using get_put_nat by (simp add: reads_def put_word_def get_word_def)

lemma get_put_bool [reading]: "reads put_bool get_bool"
  by (simp add: reads_def put_bool_def get_bool_def)

lemma get_put_pair [reading]: "reads pa ga \<Longrightarrow> reads pb gb \<Longrightarrow> reads (put_pair pa pb) (get_pair ga gb)"
  by (simp add: reads_def put_pair_def get_pair_def)

lemma get_put_option [reading]: "reads put get \<Longrightarrow> reads (put_option put) (get_option get)"
  by (auto simp: reads_def put_option_def get_option_def split: option.split)

lemma get_put_via: "reads put get \<Longrightarrow> (\<And>x. f (g x) = x) \<Longrightarrow> reads (\<lambda>x. put (g x)) (get_via f get)"
  by (simp add: reads_def get_via_def)

lemma length_put_list: "length xs < length (put_list put xs)"
  by (induction xs) simp_all

lemma get_put_list [reading]:
  assumes "reads put get"
  shows "reads (put_list put) (get_list get)"
proof -
  have "length xs < k \<Longrightarrow> get_list_upto k get (put_list put xs @ rest) = Some (xs, rest)" for xs k rest
  proof (induction xs arbitrary: k)
    case Nil
    then show ?case by (cases k) simp_all
  next
    case (Cons x xs)
    then show ?case by (cases k) (simp_all add: reads_append [OF assms])
  qed
  then show ?thesis
    by (simp add: reads_def get_list_def trans_less_add1 [OF length_put_list])
qed

section \<open>Writers of the stored types\<close>

definition put_char :: "char \<Rightarrow> bytes" where
  "put_char c = [of_nat (of_char c)]"

definition get_char :: "char reader" where
  "get_char bs = (case bs of [] \<Rightarrow> None | b # rest \<Rightarrow> Some (char_of (unat b), rest))"

definition put_byte :: "u8 \<Rightarrow> bytes" where
  "put_byte b = [b]"

definition get_byte :: "u8 reader" where
  "get_byte bs = (case bs of [] \<Rightarrow> None | b # rest \<Rightarrow> Some (b, rest))"

abbreviation "put_string \<equiv> put_list put_char"
abbreviation "get_string \<equiv> get_list get_char"
abbreviation "put_bytes \<equiv> put_list put_byte"
abbreviation "get_bytes \<equiv> get_list get_byte"

definition put_node :: "node_id \<Rightarrow> bytes" where
  "put_node n = put_pair put_string (put_pair put_string put_string) (tenant_id n, bl_name n, device_id n)"

definition get_node :: "node_id reader" where
  "get_node = get_via (\<lambda>(t, b, d). \<lparr>tenant_id = t, bl_name = b, device_id = d\<rparr>)
     (get_pair get_string (get_pair get_string get_string))"

definition put_headers :: "headers \<Rightarrow> bytes" where
  "put_headers h = put_list (put_pair put_string put_string) (sorted_list_of_fmap h)"

definition get_headers :: "headers reader" where
  "get_headers = get_via fmap_of_list (get_list (get_pair get_string get_string))"

definition put_topic :: "topic \<Rightarrow> bytes" where
  "put_topic t = put_string (topic_str t)"

definition get_topic :: "topic reader" where
  "get_topic = get_via Topic get_string"

definition put_message :: "stored_message \<Rightarrow> bytes" where
  "put_message m =
     put_pair put_string (put_pair put_topic (put_pair put_node (put_pair put_word
       (put_pair put_bytes (put_pair put_headers (put_pair put_word put_bool))))))
     (message_id_str (sm_id m), sm_topic m, sm_origin m, sm_head_id m, sm_payload m, sm_headers m,
      sm_created_at_ms m, sm_deleted m)"

definition get_message :: "stored_message reader" where
  "get_message = get_via (\<lambda>(i, t, n, h, p, hs, c, d).
       \<lparr>sm_id = MessageId i, sm_topic = t, sm_origin = n, sm_head_id = h, sm_payload = p,
        sm_headers = hs, sm_created_at_ms = c, sm_deleted = d\<rparr>)
     (get_pair get_string (get_pair get_topic (get_pair get_node (get_pair get_word
       (get_pair get_bytes (get_pair get_headers (get_pair get_word get_bool)))))))"

definition put_fifo :: "stored_fifo_message \<Rightarrow> bytes" where
  "put_fifo m =
     put_pair put_string (put_pair put_string (put_pair put_topic (put_pair put_node (put_pair put_node
       (put_pair put_bytes (put_pair put_headers (put_pair put_word (put_pair put_word put_word))))))))
     (message_id_str (sf_id m), queue_str (sf_queue m), sf_topic m, sf_source m, sf_target m,
      sf_payload m, sf_headers m, sf_created_at_ms m, sf_sequence m, sf_attempts m)"

definition get_fifo :: "stored_fifo_message reader" where
  "get_fifo = get_via (\<lambda>(i, q, t, s, d, p, hs, c, n, a).
       \<lparr>sf_id = MessageId i, sf_queue = QueueName q, sf_topic = t, sf_source = s, sf_target = d,
        sf_payload = p, sf_headers = hs, sf_created_at_ms = c, sf_sequence = n, sf_attempts = a\<rparr>)
     (get_pair get_string (get_pair get_string (get_pair get_topic (get_pair get_node (get_pair get_node
       (get_pair get_bytes (get_pair get_headers (get_pair get_word (get_pair get_word get_word)))))))))"

definition put_tombstone :: "tombstone_range \<Rightarrow> bytes" where
  "put_tombstone r =
     put_pair put_topic (put_pair put_node (put_pair put_word (put_pair put_word put_word)))
     (tr_topic r, tr_origin r, tr_from_head_id r, tr_to_head_id r, tr_created_at_ms r)"

definition get_tombstone :: "tombstone_range reader" where
  "get_tombstone = get_via (\<lambda>(t, n, a, b, c).
       \<lparr>tr_topic = t, tr_origin = n, tr_from_head_id = a, tr_to_head_id = b, tr_created_at_ms = c\<rparr>)
     (get_pair get_topic (get_pair get_node (get_pair get_word (get_pair get_word get_word))))"

definition put_peer :: "peer_sync_state \<Rightarrow> bytes" where
  "put_peer p =
     put_pair put_string (put_pair (put_option put_topic) (put_pair (put_option put_node)
       (put_pair put_word (put_pair put_word (put_pair put_word (put_pair put_word
       (put_pair put_word (put_pair put_word (put_option put_string)))))))))
     (ps_peer p, ps_topic p, ps_origin p, ps_local_head p, ps_remote_head p, ps_last_synced_head p,
      ps_last_attempt_at_ms p, ps_last_success_at_ms p, ps_consecutive_failures p, ps_last_error p)"

definition get_peer :: "peer_sync_state reader" where
  "get_peer = get_via (\<lambda>(n, t, d, a, b, c, e, f, g, err).
       \<lparr>ps_peer = n, ps_topic = t, ps_origin = d, ps_local_head = a, ps_remote_head = b,
        ps_last_synced_head = c, ps_last_attempt_at_ms = e, ps_last_success_at_ms = f,
        ps_consecutive_failures = g, ps_last_error = err\<rparr>)
     (get_pair get_string (get_pair (get_option get_topic) (get_pair (get_option get_node)
       (get_pair get_word (get_pair get_word (get_pair get_word (get_pair get_word
       (get_pair get_word (get_pair get_word (get_option get_string))))))))))"

lemma fmap_of_sorted_list: "fmap_of_list (sorted_list_of_fmap m) = m"
proof (rule fmap_ext)
  fix k
  show "fmlookup (fmap_of_list (sorted_list_of_fmap m)) k = fmlookup m k"
  proof (cases "k |\<in>| fmdom m")
    case True
    then show ?thesis
      by (simp add: fmlookup_of_list sorted_list_of_fmap_def sorted_list_of_fset.rep_eq map_of_map_restrict)
        (auto simp: fmlookup_dom_iff)
  next
    case False
    then show ?thesis
      by (simp add: fmlookup_of_list sorted_list_of_fmap_def sorted_list_of_fset.rep_eq map_of_map_restrict fmdom_notD)
  qed
qed

lemma get_put_char [reading]: "reads put_char get_char"
proof -
  have "unat (of_nat (of_char c) :: u8) = of_char c" for c
    using of_char_mod_256 [of c, where ?'a = nat] by (simp add: unat_of_nat)
  then show ?thesis by (simp add: reads_def put_char_def get_char_def)
qed

lemma get_put_byte [reading]: "reads put_byte get_byte"
  by (simp add: reads_def put_byte_def get_byte_def)

lemma get_put_node [reading]: "reads put_node get_node"
  unfolding put_node_def [abs_def] get_node_def by (rule get_put_via) (simp_all add: reading)

lemma get_put_headers [reading]: "reads put_headers get_headers"
  unfolding put_headers_def [abs_def] get_headers_def
  by (rule get_put_via) (simp_all add: reading fmap_of_sorted_list)

lemma get_put_topic [reading]: "reads put_topic get_topic"
  unfolding put_topic_def [abs_def] get_topic_def by (rule get_put_via) (simp_all add: reading)

lemma get_put_message [reading]: "reads put_message get_message"
  unfolding put_message_def [abs_def] get_message_def by (rule get_put_via) (simp_all add: reading)

lemma get_put_fifo [reading]: "reads put_fifo get_fifo"
  unfolding put_fifo_def [abs_def] get_fifo_def by (rule get_put_via) (simp_all add: reading)

lemma get_put_tombstone [reading]: "reads put_tombstone get_tombstone"
  unfolding put_tombstone_def [abs_def] get_tombstone_def by (rule get_put_via) (simp_all add: reading)

lemma get_put_peer [reading]: "reads put_peer get_peer"
  unfolding put_peer_def [abs_def] get_peer_def by (rule get_put_via) (simp_all add: reading)

section \<open>The codec\<close>

definition whole :: "'a reader \<Rightarrow> bytes \<Rightarrow> string + 'a" where
  "whole get bs = (case get bs of Some (x, []) \<Rightarrow> Inr x | _ \<Rightarrow> Inl ''malformed value'')"

definition byte_serde :: serde where
  "byte_serde =
     \<lparr>ser_node = \<lambda>x. Inr (put_node x), de_node = whole get_node,
      ser_headers = \<lambda>x. Inr (put_headers x), de_headers = whole get_headers,
      ser_message = \<lambda>x. Inr (put_message x), de_message = whole get_message,
      ser_fifo = \<lambda>x. Inr (put_fifo x), de_fifo = whole get_fifo,
      ser_tombstone = \<lambda>x. Inr (put_tombstone x), de_tombstone = whole get_tombstone,
      ser_peer = \<lambda>x. Inr (put_peer x), de_peer = whole get_peer\<rparr>"

lemma whole_put: "reads put get \<Longrightarrow> whole get (put x) = Inr x"
  using reads_append [of put get x "[]"] by (simp add: whole_def)

lemma round_trips_whole: "reads put get \<Longrightarrow> round_trips (\<lambda>x. Inr (put x)) (whole get)"
  by (simp add: round_trips_def whole_put)

interpretation byte_codec: serde_codec byte_serde
  by unfold_locales (simp_all add: byte_serde_def round_trips_whole reading)

end
