(* ===== verification/Store_History.thy ===== *)
theory Store_History
  imports Store_Run
begin

text \<open>
  What a store keeps over time. A later store extends an earlier one: every message is still at its
  place and at most got marked deleted, no head went back and no tombstone was lost. Every abstract
  call extends the store as long as no log has used up its \<open>u64\<close> heads, and a call raises a head by
  at most one. The last sections say what a page of a fetch consists of and that a queue is served
  like a list: enqueueing appends, and only the front can be acknowledged or rejected.
\<close>

declare split_paired_All [simp del] split_paired_Ex [simp del]

section \<open>Extension\<close>

definition evolved :: "stored_message \<Rightarrow> stored_message \<Rightarrow> bool" where
  "evolved m m' \<longleftrightarrow> m' = m \<or> m' = m\<lparr>sm_deleted := True\<rparr>"

definition extends :: "store_view \<Rightarrow> store_view \<Rightarrow> bool" where
  "extends v v' \<longleftrightarrow>
     (\<forall>k m. v_msg v k = Some m \<longrightarrow> (\<exists>m'. v_msg v' k = Some m' \<and> evolved m m'))
     \<and> (\<forall>l. head_of v l \<le> head_of v' l) \<and> (\<forall>l. v_tomb v l \<subseteq> v_tomb v' l)"

lemma evolved_refl [simp]: "evolved m m"
  by (simp add: evolved_def)

lemma evolved_trans: "evolved a b \<Longrightarrow> evolved b c \<Longrightarrow> evolved a c"
  by (auto simp: evolved_def)

lemma evolved_simps:
  assumes "evolved m m'"
  shows "sm_id m' = sm_id m" "sm_topic m' = sm_topic m" "sm_origin m' = sm_origin m"
    "sm_head_id m' = sm_head_id m" "sm_payload m' = sm_payload m" "sm_headers m' = sm_headers m"
    "sm_created_at_ms m' = sm_created_at_ms m" "sm_deleted m \<Longrightarrow> sm_deleted m'"
  using assms by (auto simp: evolved_def)

lemma extends_refl [simp]: "extends v v"
  by (auto simp: extends_def)

lemma extends_trans: "extends a b \<Longrightarrow> extends b c \<Longrightarrow> extends a c"
  unfolding extends_def by (meson evolved_trans order_trans subset_trans)

lemma extendsD: "extends v v' \<Longrightarrow> v_msg v k = Some m \<Longrightarrow> \<exists>m'. v_msg v' k = Some m' \<and> evolved m m'"
  by (auto simp: extends_def)

lemma extends_head: "extends v v' \<Longrightarrow> head_of v l \<le> head_of v' l"
  by (auto simp: extends_def)

lemma extends_covered: "extends v v' \<Longrightarrow> covered v l h \<Longrightarrow> covered v' l h"
  by (fastforce simp: extends_def covered_def)

lemma extends_add:
  assumes "v_msg v (l, h) = None" "head_of v l \<le> h"
  shows "extends v (v\<lparr>v_head := (v_head v)(l \<mapsto> h), v_msg := (v_msg v)((l, h) \<mapsto> m)\<rparr>)"
  using assms by (auto simp: extends_def head_of_def)

lemma spec_append_extends:
  assumes "wf_view v" "head_of v (log_of (nm_topic m) (nm_origin m)) \<noteq> - 1"
  shows "extends v (fst (spec_append v m at))"
proof -
  let ?l = "log_of (nm_topic m) (nm_origin m)"
  let ?n = "saturating_add (head_of v ?l) 1"
  have "v_msg v (?l, ?n) = None"
    using saturating_add_1_less [OF assms(2)] wf_view_none [OF assms(1)] by blast
  then show ?thesis unfolding spec_append_def Let_def fst_conv by (rule extends_add) (rule saturating_add_1_le)
qed

lemma spec_put_extends:
  assumes wf: "wf_view v" and put: "spec_put v m = Some (v', r)"
  shows "extends v v'"
proof (cases "v_msg v (message_log m, sm_head_id m)")
  case None
  have h: "sm_head_id m \<noteq> 0" and gap: "\<not> saturating_add (head_of v (message_log m)) 1 < sm_head_id m"
    using put None by (auto simp: spec_put_def Let_def split: if_splits)
  from wf_view_head_next [OF wf h None gap] put None h gap
  have "v' = v\<lparr>v_head := (v_head v)(message_log m \<mapsto> sm_head_id m),
               v_msg := (v_msg v)((message_log m, sm_head_id m) \<mapsto> mark_deleted v m)\<rparr>"
    and le: "head_of v (message_log m) \<le> sm_head_id m"
    by (auto simp: spec_put_new)
  then show ?thesis using extends_add [OF None le, of "mark_deleted v m"] by simp
next
  case (Some old)
  let ?m = "mark_deleted v m"
  have "sm_head_id m \<noteq> 0" using Some wf_view_none [OF wf, of "message_log m" "sm_head_id m"] by auto
  note put_old = spec_put_old [OF Some this]
  consider "v' = v"
    | "v' = v\<lparr>v_msg := (v_msg v)((message_log m, sm_head_id m) \<mapsto> ?m)\<rparr>" "same_except_deleted old ?m" "sm_deleted ?m"
    using put unfolding put_old by (simp only: option.inject prod.inject split: if_splits) blast+
  then show ?thesis
  proof cases
    case 2
    have "evolved old ?m" using same_except_deleted_replace [OF 2(2,3)] by (simp add: evolved_def)
    with Some 2(1) show ?thesis by (auto simp: extends_def)
  qed simp
qed

lemma spec_tombstone_extends: "extends v (fst (spec_tombstone v l a b))"
  by (auto simp: extends_def spec_tombstone_def delete_between_def evolved_def)

lemma spec_marker_extends:
  assumes "wf_view v" "\<And>l. head_of v l \<noteq> - 1" "spec_marker enc w v t n a b mt mn = Some (v', c, m)"
  shows "extends v v'"
proof -
  obtain payload where p: "v' = fst (spec_append (fst (spec_tombstone v (log_of t n) a b))
      (new_message_new (uuid w) mt mn payload fmempty) (now w 1))"
    using assms(3) by (auto simp: spec_marker_def split: sum.splits prod.splits) (metis fst_conv)
  have "head_of (fst (spec_tombstone v (log_of t n) a b)) l \<noteq> - 1" for l
    using assms(2) [of l] by (simp add: spec_tombstone_def)
  then show ?thesis
    unfolding p using extends_trans [OF spec_tombstone_extends spec_append_extends [OF spec_tombstone_wf [OF assms(1)]]]
    by blast
qed

lemma extends_same_logs:
  "v_msg v' = v_msg v \<Longrightarrow> v_head v' = v_head v \<Longrightarrow> v_tomb v' = v_tomb v \<Longrightarrow> extends v v'"
  by (auto simp: extends_def head_of_def)

lemma spec_call_extends:
  assumes wf: "wf_view v" and room: "\<And>l. head_of v l \<noteq> - 1" and call: "spec_call enc w c v r v'"
  shows "extends v v'"
proof (cases c)
  case (AppendMessage m)
  with call spec_append_extends [OF wf room, of m "now w 0"] show ?thesis by auto
next
  case (PutReplicatedMessage m)
  with call spec_put_extends [OF wf] show ?thesis by auto
next
  case (TombstoneRange t n a b)
  with call spec_tombstone_extends [of v "log_of t n" a b] show ?thesis by auto
next
  case (TombstoneRangeWithMarker t n a b mt mn)
  with call spec_marker_extends [OF wf room] show ?thesis by auto
qed (use call in \<open>auto simp: spec_enqueue_def spec_ack_def spec_reject_def spec_record_peer_def Let_def
        split: option.splits if_splits intro!: extends_same_logs\<close>)

text \<open>A call raises a head by at most one, so a run from small heads never uses a log up.\<close>

lemma unat_saturating_add_1_le: "unat (saturating_add a (1 :: 'w::len word)) \<le> Suc (unat a)"
  by (cases "a = - 1") (simp_all add: saturating_add_1 unat_plus_one)

lemma spec_append_growth: "unat (head_of (fst (spec_append v m at)) l) \<le> Suc (unat (head_of v l))"
  by (simp add: spec_append_def Let_def head_of_def unat_saturating_add_1_le del: head_of_upd_simps split: option.split)

lemma spec_put_growth:
  assumes "spec_put v m = Some (v', r)"
  shows "unat (head_of v' l) \<le> Suc (unat (head_of v l))"
proof -
  have le: "unat h \<le> Suc (unat a)" if "\<not> saturating_add a 1 < h" for a h :: u64
    using that unat_saturating_add_1_le [of a] by (simp add: word_less_nat_alt)
  have head: "head_of (v\<lparr>v_msg := x, v_head := (v_head v)(k \<mapsto> h)\<rparr>) l = (if l = k then h else head_of v l)"
    "head_of (v\<lparr>v_msg := x, v_head := v_head v\<rparr>) l = head_of v l" for x k h
    by (simp_all add: head_of_def)
  have "l = message_log m \<and> head_of v' l = sm_head_id m \<and> \<not> saturating_add (head_of v l) 1 < sm_head_id m
      \<or> head_of v' l = head_of v l"
    using assms by (auto simp: spec_put_def Let_def head split: if_splits option.splits)
  then show ?thesis using le [of "head_of v l" "sm_head_id m"] by auto
qed

lemma spec_call_growth:
  assumes "spec_call enc w c v r v'"
  shows "unat (head_of v' l) \<le> Suc (unat (head_of v l))"
proof (cases c)
  case (AppendMessage m)
  with assms spec_append_growth [of v m "now w 0" l] show ?thesis by auto
next
  case (PutReplicatedMessage m)
  with assms spec_put_growth [of v m v' _ l] show ?thesis by auto
next
  case (TombstoneRangeWithMarker t n a b mt mn)
  with assms obtain payload where "v' = fst (spec_append (fst (spec_tombstone v (log_of t n) a b))
      (new_message_new (uuid w) mt mn payload fmempty) (now w 1))"
    by (auto simp: spec_marker_def split: sum.splits prod.splits) (metis fst_conv)
  then show ?thesis
    using spec_append_growth [of "fst (spec_tombstone v (log_of t n) a b)"] by (simp add: spec_tombstone_def)
qed (use assms in \<open>auto simp: spec_tombstone_def spec_enqueue_def spec_ack_def spec_reject_def spec_record_peer_def Let_def
        split: option.splits if_splits\<close>)

lemma spec_call_wf:
  assumes "wf_view v" "spec_call enc w c v r v'"
  shows "wf_view v'"
proof (cases c)
  case (AppendMessage m)
  with assms spec_append_wf [of v m "now w 0"] show ?thesis by auto
next
  case (PutReplicatedMessage m)
  with assms spec_put_wf show ?thesis by auto
next
  case (TombstoneRange t n a b)
  with assms spec_tombstone_wf [of v "log_of t n" a b] show ?thesis by auto
next
  case (TombstoneRangeWithMarker t n a b mt mn)
  with assms(2) obtain payload where "v' = fst (spec_append (fst (spec_tombstone v (log_of t n) a b))
      (new_message_new (uuid w) mt mn payload fmempty) (now w 1))"
    by (auto simp: spec_marker_def split: sum.splits prod.splits) (metis fst_conv)
  then show ?thesis using spec_append_wf [OF spec_tombstone_wf [OF assms(1)]] by simp
next
  case (EnqueueFifo m)
  with assms spec_enqueue_wf [of v m "now w 0"] show ?thesis by auto
next
  case (AckFifo q i)
  with assms spec_ack_wf [of v "queue_str q" i] show ?thesis by auto
next
  case (RejectFifo q i)
  with assms spec_reject_wf [of v "queue_str q" i] show ?thesis by auto
next
  case (RecordPeerSyncState p)
  with assms spec_record_peer_wf show ?thesis by auto
qed (use assms in auto)

lemma spec_run_extends:
  assumes "wf_view v" "\<And>l. unat (head_of v l) + length cs < 2 ^ 64" "spec_run enc cs v rs v'"
  shows "wf_view v' \<and> extends v v'"
  using assms
proof (induction cs arbitrary: v rs)
  case (Cons wc cs)
  obtain w c where wc: "wc = (w, c)" by force
  have room: "head_of v l \<noteq> - 1" for l
    using Cons.prems(2) [of l] by (auto simp: unsigned_minus_1_eq_mask mask_eq_exp_minus_1)
  have small: "unat (head_of v l) + length cs < 2 ^ 64" for l using Cons.prems(2) [of l] by simp
  show ?case
  proof (cases "\<exists>r rs1 u. rs = Inr r # rs1 \<and> spec_call enc w c v r u \<and> spec_run enc cs u rs1 v'")
    case True
    then obtain r rs1 u where u: "spec_call enc w c v r u" "spec_run enc cs u rs1 v'" by blast
    have "unat (head_of u l) + length cs < 2 ^ 64" for l
      using spec_call_growth [OF u(1), of l] Cons.prems(2) [of l] by simp
    from Cons.IH [OF spec_call_wf [OF Cons.prems(1) u(1)] this u(2)]
    show ?thesis using spec_call_extends [OF Cons.prems(1) room u(1)] extends_trans by blast
  next
    case False
    with Cons.prems(3) wc obtain rs1 where "spec_run enc cs v rs1 v'"
      by (auto split: list.splits sum.splits)
    with Cons.IH [OF Cons.prems(1) small] show ?thesis by blast
  qed
qed simp

lemma spec_run_heads:
  "spec_run enc cs v rs v' \<Longrightarrow> unat (head_of v' l) \<le> unat (head_of v l) + length cs"
proof (induction cs arbitrary: v rs)
  case (Cons wc cs)
  obtain w c where wc: "wc = (w, c)" by force
  show ?case
  proof (cases "\<exists>r rs1 u. rs = Inr r # rs1 \<and> spec_call enc w c v r u \<and> spec_run enc cs u rs1 v'")
    case True
    then obtain r rs1 u where u: "spec_call enc w c v r u" "spec_run enc cs u rs1 v'" by blast
    from Cons.IH [OF u(2)] spec_call_growth [OF u(1), of l] show ?thesis by simp
  next
    case False
    with Cons.prems wc obtain rs1 where "spec_run enc cs v rs1 v'" by (auto split: list.splits sum.splits)
    from Cons.IH [OF this] show ?thesis by simp
  qed
qed simp

section \<open>Pages\<close>

lemma sorted_words_upto:
  fixes a b :: u64
  shows "map unat (sorted_list_of_set {h. a \<le> h \<and> h \<le> b}) = [unat a..<Suc (unat b)]"
proof (rule sorted_distinct_set_unique)
  let ?xs = "sorted_list_of_set {h. a \<le> h \<and> h \<le> b}"
  have "sorted ?xs" "distinct ?xs" by (simp_all del: set_sorted_list_of_set)
  then show "sorted (map unat ?xs)" "distinct (map unat ?xs)"
    by (auto simp: sorted_iff_nth_mono word_le_nat_alt distinct_map inj_on_def word_unat_eq_iff)
  have "n \<in> unat ` {h. a \<le> h \<and> h \<le> b}" if n: "unat a \<le> n" "n \<le> unat b" for n
  proof
    have "n < 2 ^ 64" using n(2) unsigned_less [of b, where ?'a = nat] by simp
    then show *: "n = unat (word_of_nat n :: u64)" by (simp add: unsigned_of_nat take_bit_nat_eq_self)
    show "word_of_nat n \<in> {h. a \<le> h \<and> h \<le> b}" using n * by (simp add: word_le_nat_alt)
  qed
  then show "set (map unat ?xs) = set [unat a..<Suc (unat b)]"
    by (auto simp: word_le_nat_alt)
qed (simp_all del: upt_Suc)

text \<open>
  On a well-formed store a page is the next messages of the log without gaps: it starts at the
  requested head, or at 1, and stops after the page size or at the head of the log.
\<close>

lemma spec_fetch_heads:
  assumes "wf_view v"
  shows "map (\<lambda>m. unat (sm_head_id m)) (spec_fetch v l from limit)
    = take (page_size limit) [max 1 (unat from)..<Suc (unat (head_of v l))]"
proof -
  let ?S = "{h. max from 1 \<le> h \<and> h \<le> head_of v l}"
  have S: "heads_from v l from = ?S"
    unfolding heads_from_def using wf_view_gapless [OF assms] by auto
  have "sm_head_id (the (v_msg v (l, h))) = h" if "h \<in> set (take n (sorted_list_of_set ?S))" for h n
  proof -
    from that have "h \<in> ?S" by (auto dest!: in_set_takeD)
    then obtain m where "v_msg v (l, h) = Some m" using S by (auto simp: heads_from_def)
    then show ?thesis using wf_view_placed [OF assms] by auto
  qed
  then have "map (\<lambda>m. unat (sm_head_id m)) (spec_fetch v l from limit)
      = map unat (take (page_size limit) (sorted_list_of_set ?S))"
    unfolding spec_fetch_def S by (simp del: set_sorted_list_of_set)
  also have "\<dots> = take (page_size limit) [unat (max from 1)..<Suc (unat (head_of v l))]"
    using sorted_words_upto [of "max from 1" "head_of v l"] by (simp add: take_map [symmetric])
  also have "unat (max from 1) = max 1 (unat from)"
    by (simp add: max_def word_le_nat_alt)
  finally show ?thesis .
qed

lemma spec_fetch_stored:
  assumes "wf_view v" "m \<in> set (spec_fetch v l from limit)"
  shows "v_msg v (l, sm_head_id m) = Some m" "message_log m = l" "from \<le> sm_head_id m"
proof -
  from assms(2) obtain h where h: "h \<in> heads_from v l from" "m = the (v_msg v (l, h))"
    by (auto simp: spec_fetch_def dest!: in_set_takeD)
  then have "v_msg v (l, h) = Some m" "from \<le> h" by (auto simp: heads_from_def)
  with wf_view_placed [OF assms(1), of l h m] show "v_msg v (l, sm_head_id m) = Some m" "message_log m = l" "from \<le> sm_head_id m"
    by auto
qed

lemma spec_fetch_Nil:
  assumes "wf_view v"
  shows "spec_fetch v l from limit = [] \<longleftrightarrow> head_of v l < max from 1"
proof -
  have page: "0 < page_size limit" by (simp add: page_size_def word_neq_0_conv [symmetric] unat_gt_0)
  have "spec_fetch v l from limit = [] \<longleftrightarrow> take (page_size limit) [max 1 (unat from)..<Suc (unat (head_of v l))] = []"
    unfolding spec_fetch_heads [OF assms, symmetric] by simp
  also have "\<dots> \<longleftrightarrow> unat (head_of v l) < max 1 (unat from)"
    using page by auto
  also have "\<dots> \<longleftrightarrow> head_of v l < max from 1"
    by (auto simp: word_less_nat_alt max_def word_le_nat_alt)
  finally show ?thesis .
qed

section \<open>Queues\<close>

text \<open>The pending messages of a queue in the order they are served.\<close>

definition queue_of :: "store_view \<Rightarrow> string \<Rightarrow> stored_fifo_message list" where
  "queue_of v q = map (\<lambda>n. the (v_fifo v (q, n))) (sorted_list_of_set (pending v q))"

lemma sorted_list_of_set_Min:
  fixes A :: "u64 set"
  assumes "A \<noteq> {}"
  shows "sorted_list_of_set A = Min A # sorted_list_of_set (A - {Min A})"
  using assms by (simp add: sorted_list_of_set_nonempty)

lemma sorted_list_of_set_snoc:
  fixes A :: "u64 set"
  assumes "\<And>k. k \<in> A \<Longrightarrow> k < n"
  shows "sorted_list_of_set (insert n A) = sorted_list_of_set A @ [n]"
proof (rule sorted_distinct_set_unique)
  show "sorted (sorted_list_of_set (insert n A))" "distinct (sorted_list_of_set (insert n A))"
    by (rule sorted_sorted_list_of_set distinct_sorted_list_of_set)+
  show "sorted (sorted_list_of_set A @ [n])" "distinct (sorted_list_of_set A @ [n])"
    using assms by (auto simp: sorted_append less_imp_le)
  show "set (sorted_list_of_set (insert n A)) = set (sorted_list_of_set A @ [n])"
    unfolding set_append set_sorted_list_of_set [OF finite_u64] by simp
qed

lemma spec_front_queue: "spec_front v q = (case queue_of v q of [] \<Rightarrow> None | m # _ \<Rightarrow> Some m)"
proof (cases "pending v q = {}")
  case True
  then show ?thesis by (simp add: spec_front_def queue_of_def)
next
  case False
  then have "Min (pending v q) \<in> pending v q" by simp
  then show ?thesis
    using False by (auto simp: spec_front_def queue_of_def sorted_list_of_set_Min pending_def)
qed

lemma spec_enqueue_queue:
  assumes "wf_view v" "seq_of v (queue_str (nf_queue m)) \<noteq> - 1" "spec_enqueue v m at = (v', s)"
  shows "queue_of v' (queue_str (nf_queue m)) = queue_of v (queue_str (nf_queue m)) @ [s]"
    and "q \<noteq> queue_str (nf_queue m) \<Longrightarrow> queue_of v' q = queue_of v q"
proof -
  let ?q = "queue_str (nf_queue m)"
  let ?n = "saturating_add (seq_of v ?q) 1"
  have v': "v_fifo v' = (v_fifo v)((?q, ?n) \<mapsto> s)"
    using assms(3) by (auto simp: spec_enqueue_def Let_def)
  have less: "k < ?n" if "k \<in> pending v ?q" for k
    using that wf_view_fifo [OF assms(1)] saturating_add_1_less [OF assms(2)] unfolding pending_def
    by (metis (mono_tags) mem_Collect_eq not_None_eq order_le_less_trans)
  then have fresh: "?n \<notin> pending v ?q" by blast
  have "pending v' ?q = insert ?n (pending v ?q)" by (auto simp: pending_def v')
  moreover have "sorted_list_of_set (insert ?n (pending v ?q)) = sorted_list_of_set (pending v ?q) @ [?n]"
    by (rule sorted_list_of_set_snoc) (use less in auto)
  ultimately show "queue_of v' ?q = queue_of v ?q @ [s]"
    using fresh by (auto simp: queue_of_def v')
  show "q \<noteq> ?q \<Longrightarrow> queue_of v' q = queue_of v q"
    by (simp add: queue_of_def pending_def v')
qed

lemma pending_Min:
  assumes "queue_of v q = m # ms" "wf_view v"
  shows "pending v q \<noteq> {}" "sf_sequence m = Min (pending v q)" "v_fifo v (q, Min (pending v q)) = Some m"
    "ms = map (\<lambda>n. the (v_fifo v (q, n))) (sorted_list_of_set (pending v q - {Min (pending v q)}))"
proof -
  show ne: "pending v q \<noteq> {}" using assms(1) by (auto simp: queue_of_def)
  have "Min (pending v q) \<in> pending v q" using ne by simp
  then show front: "v_fifo v (q, Min (pending v q)) = Some m"
    using assms(1) ne by (auto simp: queue_of_def sorted_list_of_set_Min pending_def)
  show "sf_sequence m = Min (pending v q)" using wf_view_fifo [OF assms(2) front] by simp
  show "ms = map (\<lambda>n. the (v_fifo v (q, n))) (sorted_list_of_set (pending v q - {Min (pending v q)}))"
    using assms(1) ne by (simp add: queue_of_def sorted_list_of_set_Min)
qed

lemma spec_ack_queue:
  assumes "wf_view v" "queue_of v q = m # ms" "sf_id m = i"
  shows "queue_of (fst (spec_ack v q i)) q = ms"
proof -
  note front = pending_Min [OF assms(2,1)]
  let ?n = "Min (pending v q)"
  have v': "v_fifo (fst (spec_ack v q i)) = (v_fifo v)((q, ?n) := None)"
    using assms(2,3) front by (simp add: spec_ack_def spec_front_queue)
  have "pending (fst (spec_ack v q i)) q = pending v q - {?n}"
    by (auto simp: pending_def v' split: if_splits)
  then show ?thesis by (auto simp: queue_of_def v' front(4))
qed

lemma spec_reject_queue:
  assumes "wf_view v" "queue_of v q = m # ms" "sf_id m = i"
  shows "queue_of (fst (spec_reject v q i)) q = m\<lparr>sf_attempts := saturating_add (sf_attempts m) 1\<rparr> # ms"
proof -
  note front = pending_Min [OF assms(2,1)]
  let ?n = "Min (pending v q)"
  let ?m = "m\<lparr>sf_attempts := saturating_add (sf_attempts m) 1\<rparr>"
  have v': "v_fifo (fst (spec_reject v q i)) = (v_fifo v)((q, ?n) \<mapsto> ?m)"
    using assms(2,3) front by (simp add: spec_reject_def spec_front_queue)
  have "pending (fst (spec_reject v q i)) q = insert ?n (pending v q)"
    by (auto simp: pending_def v' split: if_splits)
  then have "pending (fst (spec_reject v q i)) q = pending v q" using front(1) by (simp add: insert_absorb)
  then show ?thesis using front(1) by (auto simp: queue_of_def v' front(4) sorted_list_of_set_Min)
qed

lemma spec_ack_other: "q' \<noteq> q \<Longrightarrow> queue_of (fst (spec_ack v q i)) q' = queue_of v q'"
  by (simp add: spec_ack_def queue_of_def pending_def split: option.split)

lemma spec_reject_other: "q' \<noteq> q \<Longrightarrow> queue_of (fst (spec_reject v q i)) q' = queue_of v q'"
  by (simp add: spec_reject_def queue_of_def pending_def split: option.split)

text \<open>Anything but the front is refused and changes nothing.\<close>

lemma spec_front_refused:
  assumes "case queue_of v q of [] \<Rightarrow> True | m # _ \<Rightarrow> sf_id m \<noteq> i"
  shows "spec_ack v q i = (v, False)" "spec_reject v q i = (v, False)"
  using assms by (auto simp: spec_ack_def spec_reject_def spec_front_queue split: list.splits)

end
