(* ===== verification/Store_Queues.thy ===== *)
theory Store_Queues
  imports Store_History
begin

text \<open>
  The FIFO queues and the peer-sync records of a store as the simple machines they implement. A queue
  is a list: enqueueing appends, peeking looks at the front, an acknowledgement removes the front and
  a rejection counts an attempt on it, and both are refused for any other message. A peer-sync record
  counts the failures since the last success. Every run of the abstract store, and so of a backend,
  is a run of these machines.
\<close>

declare split_paired_All [simp del] split_paired_Ex [simp del]

section \<open>Queues as lists\<close>

type_synonym queues = "string \<Rightarrow> stored_fifo_message list"

fun queue_call :: "call_env \<Rightarrow> store_call \<Rightarrow> queues \<Rightarrow> reply \<Rightarrow> queues \<Rightarrow> bool" where
  "queue_call w (EnqueueFifo m) Q r Q' \<longleftrightarrow>
     (\<exists>n. r = RFifo (enqueued m n (now w 0))
        \<and> Q' = Q(queue_str (nf_queue m) := Q (queue_str (nf_queue m)) @ [enqueued m n (now w 0)]))"
| "queue_call w (PeekFifo q) Q r Q' \<longleftrightarrow>
     Q' = Q \<and> r = RFront (case Q (queue_str q) of [] \<Rightarrow> None | m # _ \<Rightarrow> Some m)"
| "queue_call w (AckFifo q i) Q r Q' \<longleftrightarrow>
     (case Q (queue_str q) of
        [] \<Rightarrow> Q' = Q \<and> r = RFlag False
      | m # ms \<Rightarrow> if sf_id m = i then Q' = Q(queue_str q := ms) \<and> r = RFlag True else Q' = Q \<and> r = RFlag False)"
| "queue_call w (RejectFifo q i) Q r Q' \<longleftrightarrow>
     (case Q (queue_str q) of
        [] \<Rightarrow> Q' = Q \<and> r = RFlag False
      | m # ms \<Rightarrow>
          if sf_id m = i
          then Q' = Q(queue_str q := m\<lparr>sf_attempts := saturating_add (sf_attempts m) 1\<rparr> # ms) \<and> r = RFlag True
          else Q' = Q \<and> r = RFlag False)"
| "queue_call w _ Q r Q' \<longleftrightarrow> Q' = Q"

fun queue_run :: "(call_env \<times> store_call) list \<Rightarrow> queues \<Rightarrow> reply res list \<Rightarrow> queues \<Rightarrow> bool" where
  "queue_run [] Q rs Q' \<longleftrightarrow> rs = [] \<and> Q' = Q"
| "queue_run ((w, c) # cs) Q rs Q' \<longleftrightarrow>
     (case rs of
        [] \<Rightarrow> False
      | Inl e # rs \<Rightarrow> queue_run cs Q rs Q'
      | Inr r # rs \<Rightarrow> (\<exists>Q1. queue_call w c Q r Q1 \<and> queue_run cs Q1 rs Q'))"

lemma queue_of_same: "v_fifo v' = v_fifo v \<Longrightarrow> queue_of v' = queue_of v"
  by (simp add: fun_eq_iff queue_of_def pending_def)

lemma fifo_untouched:
  assumes "spec_call enc w c v r v'" "\<And>m. c \<noteq> EnqueueFifo m" "\<And>q i. c \<noteq> AckFifo q i" "\<And>q i. c \<noteq> RejectFifo q i"
  shows "v_fifo v' = v_fifo v \<and> v_seq v' = v_seq v"
  using assms
  by (cases c) (auto simp: spec_append_def spec_put_def spec_tombstone_def spec_marker_def spec_record_peer_def Let_def
      split: option.splits sum.splits if_splits prod.splits)

lemma spec_call_queue:
  assumes wf: "wf_view v" and room: "\<And>q. seq_of v q \<noteq> - 1" and call: "spec_call enc w c v r v'"
  shows "queue_call w c (queue_of v) r (queue_of v')"
proof (cases c)
  case (EnqueueFifo m)
  with call obtain s where s: "spec_enqueue v m (now w 0) = (v', s)" "r = RFifo s" by auto
  then have "s = enqueued m (saturating_add (seq_of v (queue_str (nf_queue m))) 1) (now w 0)"
    by (simp add: spec_enqueue_def Let_def)
  moreover have "queue_of v' = (queue_of v)(queue_str (nf_queue m) := queue_of v (queue_str (nf_queue m)) @ [s])"
    using spec_enqueue_queue [OF wf room s(1)] by auto
  ultimately show ?thesis using EnqueueFifo s(2) by auto
next
  case (PeekFifo q)
  with call show ?thesis by (simp add: spec_front_queue)
next
  case (AckFifo q i)
  with call have v': "v' = fst (spec_ack v (queue_str q) i)" "r = RFlag (snd (spec_ack v (queue_str q) i))" by auto
  show ?thesis
  proof (cases "\<exists>m ms. queue_of v (queue_str q) = m # ms \<and> sf_id m = i")
    case True
    then obtain m ms where m: "queue_of v (queue_str q) = m # ms" "sf_id m = i" by blast
    then have "queue_of v' = (queue_of v)(queue_str q := ms)"
      unfolding v' using spec_ack_queue [OF wf m] spec_ack_other by fastforce
    with m AckFifo v' show ?thesis by (simp add: spec_ack_def spec_front_queue)
  next
    case False
    with spec_front_refused(1) [where v = v and q = "queue_str q" and i = i] AckFifo v' show ?thesis by (auto split: list.splits)
  qed
next
  case (RejectFifo q i)
  with call have v': "v' = fst (spec_reject v (queue_str q) i)" "r = RFlag (snd (spec_reject v (queue_str q) i))" by auto
  show ?thesis
  proof (cases "\<exists>m ms. queue_of v (queue_str q) = m # ms \<and> sf_id m = i")
    case True
    then obtain m ms where m: "queue_of v (queue_str q) = m # ms" "sf_id m = i" by blast
    then have "queue_of v' = (queue_of v)(queue_str q := m\<lparr>sf_attempts := saturating_add (sf_attempts m) 1\<rparr> # ms)"
      unfolding v' using spec_reject_queue [OF wf m] spec_reject_other by fastforce
    with m RejectFifo v' show ?thesis by (simp add: spec_reject_def spec_front_queue)
  next
    case False
    with spec_front_refused(2) [where v = v and q = "queue_str q" and i = i] RejectFifo v' show ?thesis by (auto split: list.splits)
  qed
qed (use fifo_untouched [OF call] in \<open>auto intro!: queue_of_same\<close>)

lemma spec_call_seq:
  assumes "spec_call enc w c v r v'"
  shows "unat (seq_of v' q) \<le> Suc (unat (seq_of v q))"
proof (cases c)
  case (EnqueueFifo m)
  then show ?thesis
    using assms unat_saturating_add_1_le [of "seq_of v q"] by (auto simp: spec_enqueue_def Let_def)
next
  case (AckFifo q' i)
  with assms show ?thesis by (auto simp: spec_ack_def split: option.splits if_splits)
next
  case (RejectFifo q' i)
  with assms show ?thesis by (auto simp: spec_reject_def split: option.splits if_splits)
qed (use fifo_untouched [OF assms] in \<open>auto simp: seq_of_def\<close>)

lemma spec_run_queue:
  assumes "wf_view v" "\<And>q. unat (seq_of v q) + length cs < 2 ^ 64" "spec_run enc cs v rs v'"
  shows "queue_run cs (queue_of v) rs (queue_of v')"
  using assms
proof (induction cs arbitrary: v rs)
  case (Cons wc cs)
  obtain w c where wc: "wc = (w, c)" by force
  have room: "seq_of v q \<noteq> - 1" for q
    using Cons.prems(2) [of q] by (auto simp: unsigned_minus_1_eq_mask mask_eq_exp_minus_1)
  obtain r rs1 where rs: "rs = r # rs1" using Cons.prems(3) wc by (cases rs) auto
  show ?case
  proof (cases r)
    case (Inl e)
    have "unat (seq_of v q) + length cs < 2 ^ 64" for q using Cons.prems(2) [of q] by simp
    with Cons.IH [OF Cons.prems(1)] Cons.prems(3) wc rs Inl show ?thesis by simp
  next
    case (Inr a)
    with Cons.prems(3) wc rs obtain u where u: "spec_call enc w c v a u" "spec_run enc cs u rs1 v'" by auto
    have "unat (seq_of u q) + length cs < 2 ^ 64" for q
      using spec_call_seq [OF u(1), of q] Cons.prems(2) [of q] by simp
    from Cons.IH [OF spec_call_wf [OF Cons.prems(1) u(1)] this u(2)] spec_call_queue [OF Cons.prems(1) room u(1)]
    show ?thesis using wc rs Inr by auto
  qed
qed simp

lemma spec_run_seq:
  "spec_run enc cs v rs v' \<Longrightarrow> unat (seq_of v' q) \<le> unat (seq_of v q) + length cs"
proof (induction cs arbitrary: v rs)
  case (Cons wc cs)
  obtain w c where wc: "wc = (w, c)" by force
  show ?case
  proof (cases "\<exists>r rs1 u. rs = Inr r # rs1 \<and> spec_call enc w c v r u \<and> spec_run enc cs u rs1 v'")
    case True
    then obtain r rs1 u where u: "spec_call enc w c v r u" "spec_run enc cs u rs1 v'" by blast
    from Cons.IH [OF u(2)] spec_call_seq [OF u(1), of q] show ?thesis by simp
  next
    case False
    with Cons.prems wc obtain rs1 where "spec_run enc cs v rs1 v'" by (auto split: list.splits sum.splits)
    from Cons.IH [OF this] show ?thesis by simp
  qed
qed simp

section \<open>Peer-sync records\<close>

text \<open>Recording one failure after another adds them up, until the counter is full.\<close>

definition failures_of :: "store_view \<Rightarrow> peer_key \<Rightarrow> u32" where
  "failures_of v k = (case v_peer v k of None \<Rightarrow> 0 | Some p \<Rightarrow> ps_consecutive_failures p)"

lemma failures_record:
  "failures_of (spec_record_peer v p) k =
     (if k \<noteq> peer_key_of p then failures_of v k
      else if ps_last_error p = None then 0 else saturating_add (failures_of v k) 1)"
proof -
  have "saturating_add 0 1 = (1 :: u32)" by (simp add: saturating_add_1)
  then show ?thesis
    by (auto simp: failures_of_def spec_record_peer_def carry_failures_def split: option.split)
qed

lemma unat_saturating_add_u32: "unat (saturating_add (a :: u32) 1) = min (Suc (unat a)) (2 ^ 32 - 1)"
proof (cases "a = - 1")
  case False
  have "unat a < 2 ^ 32 - 1"
    using False unsigned_less [of a, where ?'a = nat]
    by (auto simp: word_unat_eq_iff unsigned_minus_1_eq_mask mask_eq_exp_minus_1)
  with False show ?thesis by (simp add: unat_saturating_add_1)
qed (simp add: saturating_add_1 unsigned_minus_1_eq_mask mask_eq_exp_minus_1)

lemma failures_run:
  assumes "list_all (\<lambda>p. peer_key_of p = k \<and> ps_last_error p \<noteq> None) ps"
    and "spec_run enc (map (\<lambda>(w, p). (w, RecordPeerSyncState p)) (zip ws ps)) v (map Inr rs) v'" "length ws = length ps"
  shows "unat (failures_of v' k) = min (unat (failures_of v k) + length ps) (2 ^ 32 - 1)"
  using assms
proof (induction ps arbitrary: ws v rs)
  case (Cons p ps)
  then obtain w ws' where ws: "ws = w # ws'" by (cases ws) auto
  with Cons.prems obtain rs' where run: "spec_run enc (map (\<lambda>(w, p). (w, RecordPeerSyncState p)) (zip ws' ps))
      (spec_record_peer v p) (map Inr rs') v'" by (cases rs) auto
  have "failures_of (spec_record_peer v p) k = saturating_add (failures_of v k) 1"
    using Cons.prems(1) by (simp add: failures_record)
  then have "unat (failures_of (spec_record_peer v p) k) = min (Suc (unat (failures_of v k))) (2 ^ 32 - 1)"
    using unat_saturating_add_u32 by simp
  with Cons.IH [OF _ run] Cons.prems ws show ?case by (simp add: min_def)
next
  case Nil
  then show ?case using unsigned_less [of "failures_of v k", where ?'a = nat] by (simp add: min_def)
qed

end
