(* ===== verification/Msgbus_Examples.thy ===== *)
theory Msgbus_Examples
  imports Sqlite_Live Redb_Live Byte_Codec Store_Queues
begin

text \<open>
  Closed values for the examples that accompany the theorems: an environment in which nothing
  fails, nodes, messages and queue entries, the libraries' parameters instantiated by the byte
  codec, and databases that a few calls have filled.
\<close>

definition demo_env :: call_env where
  "demo_env = \<lparr>clock = (\<lambda>_. Some 7), uuid = ''u'', fault = (\<lambda>_. None)\<rparr>"

definition demo_node :: node_id where
  "demo_node = \<lparr>tenant_id = ''t'', bl_name = ''b'', device_id = ''d''\<rparr>"

definition demo_sqlite :: sqlite_params where
  "demo_sqlite = \<lparr>sq_serde = byte_serde, sq_conversion_text = (\<lambda>m. m), sq_range_text = (\<lambda>_. ''out of range''),
     sq_unique_text = ''UNIQUE constraint failed''\<rparr>"

definition demo_message :: new_message where
  "demo_message = \<lparr>nm_id = MessageId ''m1'', nm_topic = Topic ''a'', nm_origin = demo_node,
     nm_payload = [1, 2], nm_headers = fmempty\<rparr>"

interpretation demo_sqlite: sqlite_backend demo_sqlite
  by (rule sqlite_backend.intro) (simp add: demo_sqlite_def byte_codec.serde_codec_axioms)

lemma sqlite_inv_empty: "sqlite_inv P empty_db"
proof -
  have "sqlite_view P empty_db = empty_view"
    by (simp add: sqlite_view_def empty_db_def empty_view_def fun_eq_iff)
  then show ?thesis by (simp add: sqlite_inv_def sqlite_rep_def empty_db_def)
qed

type_synonym demo_tables = "((string \<times> bytes) list, (string \<times> u64) list) redb_db"

definition demo_redb :: "((string \<times> bytes) list, (string \<times> u64) list) redb_params" where
  "demo_redb = \<lparr>rd_serde = byte_serde, rd_bytes = alist_table, rd_u64 = alist_table, rd_enc = url_base64\<rparr>"

interpretation demo_redb: redb_backend demo_redb
  by (intro redb_backend.intro)
    (simp_all add: demo_redb_def byte_codec.serde_codec_axioms alist.ordered_table_axioms base64.key_encoding_axioms)

lemma redb_inv_empty:
  assumes "ordered_table (rd_bytes P)" "ordered_table (rd_u64 P)"
  shows "redb_inv P (redb_empty P)"
proof -
  have "redb_view P (redb_empty P) = empty_view"
    using assms by (simp add: redb_view_def redb_empty_def empty_view_def ordered_table.get_empty fun_eq_iff)
  then show ?thesis
    using assms by (simp add: redb_inv_def redb_rep_def holds_def redb_empty_def ordered_table.get_empty)
qed

section \<open>Example runs\<close>

lemma demo_env_ok [simp]: "no_fault demo_env" "now demo_env i = 7" "uuid demo_env = ''u''"
  by (simp_all add: no_fault_def demo_env_def now_def now_ms_def)

lemma demo_backends: "sqlite_backend demo_sqlite" "redb_backend demo_redb"
  by (rule demo_sqlite.sqlite_backend_axioms demo_redb.redb_backend_axioms)+

lemma sqlite_view_empty: "sqlite_view P empty_db = empty_view"
  by (simp add: sqlite_view_def empty_db_def empty_view_def fun_eq_iff)

lemma redb_view_empty: "redb_view demo_redb (redb_empty demo_redb) = empty_view"
  by (simp add: redb_view_def redb_empty_def empty_view_def demo_redb_def alist.get_empty fun_eq_iff)

lemma demo_redb_inv: "redb_inv demo_redb (redb_empty demo_redb)"
  by (rule redb_inv_empty) (simp_all add: demo_redb_def alist.ordered_table_axioms)

definition demo_calls :: "(call_env \<times> store_call) list" where
  "demo_calls = [(demo_env, AppendMessage demo_message), (demo_env, GetHead (Topic ''a'') demo_node)]"

definition demo_replies :: "reply res list" where
  "demo_replies = [Inr (RMessage (stamp demo_message 1 7)), Inr (RHead (Some 1))]"

lemma demo_calls_valid: "list_all (\<lambda>(w, c). valid_call w c) demo_calls"
  by code_simp

text \<open>The databases after those calls hold one message and satisfy the invariants.\<close>

definition demo_db :: sqlite_db where
  "demo_db = fst (run (sqlite_store demo_sqlite) demo_calls empty_db)"

definition demo_tables :: demo_tables where
  "demo_tables = fst (run (redb_store demo_redb) demo_calls (redb_empty demo_redb))"

lemma demo_db:
  "sqlite_inv demo_sqlite demo_db"
  "spec_run (ser_tombstone (sq_serde demo_sqlite)) demo_calls empty_view
     (snd (run (sqlite_store demo_sqlite) demo_calls empty_db)) (sqlite_view demo_sqlite demo_db)"
  using msgbus_contract.run_refines [OF sqlite_contract [OF demo_sqlite.codec] sqlite_inv_empty demo_calls_valid surjective_pairing]
  unfolding demo_db_def sqlite_view_empty by blast+

lemma demo_tables:
  "redb_inv demo_redb demo_tables"
  "spec_run (ser_tombstone (rd_serde demo_redb)) demo_calls empty_view
     (snd (run (redb_store demo_redb) demo_calls (redb_empty demo_redb))) (redb_view demo_redb demo_tables)"
  using msgbus_contract.run_refines [OF demo_redb.redb_contract demo_redb_inv demo_calls_valid surjective_pairing]
  unfolding demo_tables_def redb_view_empty by blast+

lemma demo_room:
  "unat (head_of (sqlite_view demo_sqlite demo_db) l) \<le> 2" "unat (head_of (redb_view demo_redb demo_tables) l) \<le> 2"
  "unat (seq_of (sqlite_view demo_sqlite demo_db) q) \<le> 2" "unat (seq_of (redb_view demo_redb demo_tables) q) \<le> 2"
  using spec_run_heads [OF demo_db(2), of l] spec_run_heads [OF demo_tables(2), of l]
    spec_run_seq [OF demo_db(2), of q] spec_run_seq [OF demo_tables(2), of q]
  by (simp_all add: demo_calls_def empty_view_def head_of_def seq_of_def)

end
