(* ===== verification/Store_Properties.thy ===== *)
theory Store_Properties
  imports Msgbus_Examples
begin

text \<open>
  The properties of the two storage backends: both refine the abstract store, always make progress
  within their limits, agree with each other, and keep what they were given. Each property that has
  hypotheses is followed by an instance on concrete data.
\<close>

declare split_paired_All [simp del] split_paired_Ex [simp del]

section \<open>Refinement\<close>

text \<open>
  C2. Whatever sequence of calls is made on a SQLite database that satisfies the representation
  invariant, and whichever interactions with the engine fail, the invariant holds afterwards and
  the replies are those of the abstract store.
\<close>

theorem sqlite_run_refines:
  assumes "sqlite_backend P" "sqlite_inv P db" "list_all (\<lambda>(w, c). valid_call w c) calls"
    and "run (sqlite_store P) calls db = (db', replies)"
  shows "sqlite_inv P db' \<and> spec_run (ser_tombstone (sq_serde P)) calls (sqlite_view P db) replies (sqlite_view P db')"
  using msgbus_contract.run_refines [OF sqlite_contract [OF sqlite_backend.codec [OF assms(1)]] assms(2-4)] .

theorem sqlite_run_refines_witness:
  "snd (run (sqlite_store demo_sqlite) demo_calls empty_db) = demo_replies
   \<and> sqlite_inv demo_sqlite (fst (run (sqlite_store demo_sqlite) demo_calls empty_db))"
proof
  show "snd (run (sqlite_store demo_sqlite) demo_calls empty_db) = demo_replies" by code_simp
  show "sqlite_inv demo_sqlite (fst (run (sqlite_store demo_sqlite) demo_calls empty_db))"
    using sqlite_run_refines [OF demo_backends(1) sqlite_inv_empty demo_calls_valid surjective_pairing] by blast
qed

text \<open>
  C3. The same for the redb backend, over any ordered tables, key encoding and codec with the
  behaviour their libraries document.
\<close>

theorem redb_run_refines:
  assumes "redb_backend P" "redb_inv P db" "list_all (\<lambda>(w, c). valid_call w c) calls"
    and "run (redb_store P) calls db = (db', replies)"
  shows "redb_inv P db' \<and> spec_run (ser_tombstone (rd_serde P)) calls (redb_view P db) replies (redb_view P db')"
  using msgbus_contract.run_refines [OF redb_backend.redb_contract [OF assms(1)] assms(2-4)] .

theorem redb_run_refines_witness:
  "snd (run (redb_store demo_redb) demo_calls (redb_empty demo_redb)) = demo_replies
   \<and> redb_inv demo_redb (fst (run (redb_store demo_redb) demo_calls (redb_empty demo_redb)))"
proof
  show "snd (run (redb_store demo_redb) demo_calls (redb_empty demo_redb)) = demo_replies" by code_simp
  show "redb_inv demo_redb (fst (run (redb_store demo_redb) demo_calls (redb_empty demo_redb)))"
    using redb_run_refines [OF demo_backends(2) demo_redb_inv demo_calls_valid surjective_pairing] by blast
qed

section \<open>Progress\<close>

text \<open>
  C11. A call on a SQLite database succeeds, with the abstract effect, when the engine does not fail
  and the arguments fit the schema: heads, sequence numbers and times below \<open>2\<^sup>6\<^sup>3\<close> and message
  identifiers that are not in use.
\<close>

theorem sqlite_call_succeeds:
  assumes "sqlite_backend P" "sqlite_inv P db" "no_fault w" "valid_call w c" "sqlite_fits w c (sqlite_view P db)"
  shows "\<exists>db' r. perform (sqlite_store P) w c db = (db', Inr r) \<and> sqlite_inv P db'
    \<and> spec_call (ser_tombstone (sq_serde P)) w c (sqlite_view P db) r (sqlite_view P db')"
  using live_contract.perform_total [OF sqlite_backend.sqlite_live_contract [OF assms(1)] assms(2-5)] .

theorem sqlite_call_succeeds_witness:
  "\<exists>db' r. perform (sqlite_store demo_sqlite) demo_env (AppendMessage demo_message) empty_db = (db', Inr r)
    \<and> sqlite_inv demo_sqlite db'
    \<and> spec_call (ser_tombstone (sq_serde demo_sqlite)) demo_env (AppendMessage demo_message) (sqlite_view demo_sqlite empty_db) r
        (sqlite_view demo_sqlite db')"
proof (rule sqlite_call_succeeds [OF demo_backends(1) sqlite_inv_empty])
  show "valid_call demo_env (AppendMessage demo_message)" by code_simp
  show "sqlite_fits demo_env (AppendMessage demo_message) (sqlite_view demo_sqlite empty_db)"
    by (simp add: sqlite_view_empty append_fits_def fits_i64_def id_unused_def empty_view_def head_of_def saturating_add_def)
qed simp

text \<open>
  C10. A call on a redb database succeeds, with the abstract effect, whenever the engine does not fail
  and the source does not refuse the arguments: a replicated message must continue or repeat its
  log, and a tombstone range must not be inverted.
\<close>

theorem redb_call_succeeds:
  assumes "redb_backend P" "redb_inv P db" "no_fault w" "valid_call w c" "redb_fits w c (redb_view P db)"
  shows "\<exists>db' r. perform (redb_store P) w c db = (db', Inr r) \<and> redb_inv P db'
    \<and> spec_call (ser_tombstone (rd_serde P)) w c (redb_view P db) r (redb_view P db')"
  using live_contract.perform_total [OF redb_backend.redb_live_contract [OF assms(1)] assms(2-5)] .

theorem redb_call_succeeds_witness:
  "\<exists>db' r. perform (redb_store demo_redb) demo_env (AppendMessage demo_message) (redb_empty demo_redb) = (db', Inr r)
    \<and> redb_inv demo_redb db'
    \<and> spec_call (ser_tombstone (rd_serde demo_redb)) demo_env (AppendMessage demo_message)
        (redb_view demo_redb (redb_empty demo_redb)) r (redb_view demo_redb db')"
proof (rule redb_call_succeeds [OF demo_backends(2) demo_redb_inv])
  show "valid_call demo_env (AppendMessage demo_message)" by code_simp
qed simp_all

section \<open>Agreement\<close>

text \<open>
  C7. The two backends are interchangeable: from databases that represent the same store, a sequence
  of calls that succeeds on both has the same replies (listings up to order) and leaves databases
  that represent the same store.
\<close>

theorem backends_agree:
  assumes "sqlite_backend P" "redb_backend Q" "ser_tombstone (sq_serde P) = ser_tombstone (rd_serde Q)"
    and "sqlite_inv P db" "redb_inv Q tables" "sqlite_view P db = redb_view Q tables"
    and "list_all (\<lambda>(w, c). valid_call w c) calls"
    and "run (sqlite_store P) calls db = (db', map Inr replies)"
    and "run (redb_store Q) calls tables = (tables', map Inr replies')"
  shows "list_all2 same_reply replies replies' \<and> sqlite_view P db' = redb_view Q tables'"
proof -
  have "spec_run (ser_tombstone (sq_serde P)) calls (sqlite_view P db) (map Inr replies) (sqlite_view P db')"
    using msgbus_contract.run_refines [OF sqlite_contract [OF sqlite_backend.codec [OF assms(1)]] assms(4,7,8)] by simp
  moreover have "spec_run (ser_tombstone (sq_serde P)) calls (sqlite_view P db) (map Inr replies') (redb_view Q tables')"
    using msgbus_contract.run_refines [OF redb_backend.redb_contract [OF assms(2)] assms(5,7,9)] assms(3,6) by simp
  ultimately show ?thesis using spec_run_determined by blast
qed

theorem backends_agree_witness:
  "list_all2 same_reply [RMessage (stamp demo_message 1 7), RHead (Some 1)] [RMessage (stamp demo_message 1 7), RHead (Some 1)]
   \<and> sqlite_view demo_sqlite (fst (run (sqlite_store demo_sqlite) demo_calls empty_db))
       = redb_view demo_redb (fst (run (redb_store demo_redb) demo_calls (redb_empty demo_redb)))"
proof (rule backends_agree [OF demo_backends _ sqlite_inv_empty demo_redb_inv _ demo_calls_valid])
  have "snd (run (sqlite_store demo_sqlite) demo_calls empty_db) = map Inr [RMessage (stamp demo_message 1 7), RHead (Some 1)]"
    by code_simp
  then show "run (sqlite_store demo_sqlite) demo_calls empty_db
      = (fst (run (sqlite_store demo_sqlite) demo_calls empty_db), map Inr [RMessage (stamp demo_message 1 7), RHead (Some 1)])"
    by (simp add: prod_eq_iff)
  have "snd (run (redb_store demo_redb) demo_calls (redb_empty demo_redb)) = map Inr [RMessage (stamp demo_message 1 7), RHead (Some 1)]"
    by code_simp
  then show "run (redb_store demo_redb) demo_calls (redb_empty demo_redb)
      = (fst (run (redb_store demo_redb) demo_calls (redb_empty demo_redb)), map Inr [RMessage (stamp demo_message 1 7), RHead (Some 1)])"
    by (simp add: prod_eq_iff)
  show "ser_tombstone (sq_serde demo_sqlite) = ser_tombstone (rd_serde demo_redb)" by (simp add: demo_sqlite_def demo_redb_def)
  show "sqlite_view demo_sqlite empty_db = redb_view demo_redb (redb_empty demo_redb)"
    by (simp add: sqlite_view_empty redb_view_empty)
qed

end
