(* ===== verification/Store_Guarantees.thy ===== *)
theory Store_Guarantees
  imports Msgbus_Examples Store_Queues
begin

text \<open>
  What a client of a storage backend can rely on, beyond the refinement: history is kept, deletions
  last, pages have no gaps, queues are served in order, failed calls change nothing, and keys and
  integers are encoded without collisions or silent wrap-around.
\<close>

declare split_paired_All [simp del] split_paired_Ex [simp del]

lemmas redb_contracts = redb_backend.redb_contract redb_backend.redb_live_contract
lemmas sqlite_contracts = sqlite_contract [OF sqlite_backend.codec] sqlite_backend.sqlite_live_contract

lemma redb_inv_wf: "redb_inv P db \<Longrightarrow> wf_view (redb_view P db)"
  by (simp add: redb_inv_def)

lemma sqlite_inv_wf: "sqlite_inv P db \<Longrightarrow> wf_view (sqlite_view P db)"
  by (simp add: sqlite_inv_def)

lemma sqlite_heads_small: "sqlite_inv P db \<Longrightarrow> unat (head_of (sqlite_view P db) l) < 2 ^ 63"
proof -
  assume "sqlite_inv P db"
  then have "uint (head_of (sqlite_view P db) l) < 2 ^ 63"
    using head_fits [of P db l] unfolding sqlite_inv_def fits_i64_def by blast
  then have "int (unat (head_of (sqlite_view P db) l)) < 2 ^ 63" by (simp only: uint_nat)
  then show ?thesis by (simp only: of_nat_less_numeral_power_cancel_iff)
qed

section \<open>History\<close>

text \<open>
  C14. A redb database only grows: after any sequence of calls, every message that was stored is still
  there and unchanged but for its deletion mark, no head went back and no tombstone was lost.
\<close>

theorem redb_keeps_history:
  assumes "redb_backend P" "redb_inv P db" "list_all (\<lambda>(w, c). valid_call w c) calls"
    and "\<forall>l. unat (head_of (redb_view P db) l) + length calls < 2 ^ 64"
    and "run (redb_store P) calls db = (db', replies)"
  shows "extends (redb_view P db) (redb_view P db')"
proof -
  have "spec_run (ser_tombstone (rd_serde P)) calls (redb_view P db) replies (redb_view P db')"
    using msgbus_contract.run_refines [OF redb_contracts(1) [OF assms(1)] assms(2,3,5)] by simp
  then show ?thesis using spec_run_extends [OF redb_inv_wf [OF assms(2)]] assms(4) by blast
qed

theorem redb_keeps_history_witness:
  "extends (redb_view demo_redb demo_tables) (redb_view demo_redb (fst (run (redb_store demo_redb) demo_calls demo_tables)))
   \<and> snd (run (redb_store demo_redb) demo_calls demo_tables) = [Inr (RMessage (stamp demo_message 2 7)), Inr (RHead (Some 2))]"
proof
  have "unat (head_of (redb_view demo_redb demo_tables) l) + length demo_calls < 2 ^ 64" for l
    using demo_room(2) [of l] by (simp add: demo_calls_def)
  then show "extends (redb_view demo_redb demo_tables) (redb_view demo_redb (fst (run (redb_store demo_redb) demo_calls demo_tables)))"
    using redb_keeps_history [OF demo_backends(2) demo_tables(1) demo_calls_valid _ surjective_pairing] by blast
  show "snd (run (redb_store demo_redb) demo_calls demo_tables) = [Inr (RMessage (stamp demo_message 2 7)), Inr (RHead (Some 2))]"
    by code_simp
qed

text \<open>
  C13. A deletion lasts: once a range of a SQLite log has been tombstoned, whatever calls follow,
  including replication of undeleted copies from peers, a fetch returns the messages of that range
  marked deleted.
\<close>

theorem sqlite_tombstone_durable:
  assumes P: "sqlite_backend P" and db: "sqlite_inv P db" and calls: "list_all (\<lambda>(w, c). valid_call w c) calls" "length calls < 2 ^ 63"
    and tombstone: "sqlite_tombstone_range P w t n a b db = (db1, Inr c)"
    and run: "run (sqlite_store P) calls db1 = (db2, replies)"
    and fetch: "sqlite_fetch_messages P w' q db2 = Inr ms" "fq_topic q = t" "fq_origin q = n"
    and m: "m \<in> set ms" "a \<le> sm_head_id m" "sm_head_id m \<le> b"
  shows "sm_deleted m"
proof -
  note contract = sqlite_contracts(1) [OF P]
  have "perform (sqlite_store P) w (TombstoneRange t n a b) db = (db1, Inr (RCount c))"
    using tombstone by (simp add: sqlite_store_def map_ok_def)
  from msgbus_contract.perform_ok [OF contract db _ this]
  have db1: "sqlite_inv P db1" and v1: "spec_tombstone (sqlite_view P db) (log_of t n) a b = (sqlite_view P db1, c)" by simp_all
  have "(a, b) \<in> v_tomb (fst (spec_tombstone (sqlite_view P db) (log_of t n) a b)) (log_of t n)"
    by (simp add: spec_tombstone_def)
  then have cov1: "covered (sqlite_view P db1) (log_of t n) (sm_head_id m)"
    using m(2,3) unfolding v1 fst_conv covered_def by blast
  from msgbus_contract.run_refines [OF contract db1 calls(1) run]
  have db2: "sqlite_inv P db2" "spec_run (ser_tombstone (sq_serde P)) calls (sqlite_view P db1) replies (sqlite_view P db2)" by auto
  have "unat (head_of (sqlite_view P db1) l) + length calls < 2 ^ 64" for l
    using sqlite_heads_small [OF db1, of l] calls(2) by simp
  from spec_run_extends [OF sqlite_inv_wf [OF db1] this db2(2)] cov1
  have cov: "covered (sqlite_view P db2) (log_of t n) (sm_head_id m)" using extends_covered by blast
  have "ms = spec_fetch (sqlite_view P db2) (log_of t n) (fq_from_head_id q) (fq_limit q)"
    using msgbus_contract.fetch_ok [OF contract db2(1), of w' q ms] fetch by (simp add: sqlite_store_def)
  with spec_fetch_stored(1) [OF sqlite_inv_wf [OF db2(1)]] m(1)
  have "v_msg (sqlite_view P db2) (log_of t n, sm_head_id m) = Some m" by simp
  with wf_view_covered [OF sqlite_inv_wf [OF db2(1)] _ cov] show ?thesis by blast
qed

definition demo_second :: new_message where
  "demo_second = demo_message\<lparr>nm_id := MessageId ''m2''\<rparr>"

definition demo_tombstoned :: sqlite_db where
  "demo_tombstoned = fst (sqlite_tombstone_range demo_sqlite demo_env (Topic ''a'') demo_node 1 5 demo_db)"

definition demo_after :: sqlite_db where
  "demo_after = fst (run (sqlite_store demo_sqlite) [(demo_env, AppendMessage demo_second)] demo_tombstoned)"

definition demo_query :: fetch_query where
  "demo_query = \<lparr>fq_topic = Topic ''a'', fq_origin = demo_node, fq_from_head_id = 1, fq_limit = 0\<rparr>"

theorem sqlite_tombstone_durable_witness:
  "sm_deleted (stamp demo_second 2 7\<lparr>sm_deleted := True\<rparr>)
   \<and> sqlite_fetch_messages demo_sqlite demo_env demo_query demo_after
       = Inr [stamp demo_message 1 7\<lparr>sm_deleted := True\<rparr>, stamp demo_second 2 7\<lparr>sm_deleted := True\<rparr>]"
proof
  show fetch: "sqlite_fetch_messages demo_sqlite demo_env demo_query demo_after
       = Inr [stamp demo_message 1 7\<lparr>sm_deleted := True\<rparr>, stamp demo_second 2 7\<lparr>sm_deleted := True\<rparr>]"
    by code_simp
  have "snd (sqlite_tombstone_range demo_sqlite demo_env (Topic ''a'') demo_node 1 5 demo_db) = Inr 1" by code_simp
  then have tombstone: "sqlite_tombstone_range demo_sqlite demo_env (Topic ''a'') demo_node 1 5 demo_db = (demo_tombstoned, Inr 1)"
    by (simp add: demo_tombstoned_def prod_eq_iff)
  have run: "run (sqlite_store demo_sqlite) [(demo_env, AppendMessage demo_second)] demo_tombstoned
      = (demo_after, snd (run (sqlite_store demo_sqlite) [(demo_env, AppendMessage demo_second)] demo_tombstoned))"
    by (simp add: demo_after_def del: run.simps)
  have "list_all (\<lambda>(w, c). valid_call w c) [(demo_env, AppendMessage demo_second)]" by code_simp
  then show "sm_deleted (stamp demo_second 2 7\<lparr>sm_deleted := True\<rparr>)"
    by (rule sqlite_tombstone_durable [OF demo_backends(1) demo_db(1) _ _ tombstone run fetch]) (simp_all add: demo_query_def)
qed

section \<open>Pages\<close>

text \<open>
  C25. A fetch from a redb database returns, when the engine does not fail, the next messages of the
  log without gaps: from the requested head (or the first) on, up to the page size and the head.
\<close>

theorem redb_fetch_page:
  assumes "redb_backend P" "redb_inv P db" "no_fault w"
  shows "\<exists>ms. redb_fetch_messages P w q db = Inr ms
    \<and> map (\<lambda>m. unat (sm_head_id m)) ms = take (page_size (fq_limit q))
        [max 1 (unat (fq_from_head_id q))..<Suc (unat (head_of (redb_view P db) (log_of (fq_topic q) (fq_origin q))))]
    \<and> list_all (\<lambda>m. v_msg (redb_view P db) (log_of (fq_topic q) (fq_origin q), sm_head_id m) = Some m) ms"
proof -
  from live_contract.progress [OF redb_contracts(2) [OF assms(1)] assms(2,3), of "FetchMessages q"]
  obtain ms where ms: "redb_fetch_messages P w q db = Inr ms" by (auto simp: map_ok_eq_Inr redb_store_def)
  moreover have "ms = spec_fetch (redb_view P db) (log_of (fq_topic q) (fq_origin q)) (fq_from_head_id q) (fq_limit q)"
    using msgbus_contract.fetch_ok [OF redb_contracts(1) [OF assms(1)] assms(2), of w q ms] ms by (simp add: redb_store_def)
  ultimately show ?thesis
    using spec_fetch_heads [OF redb_inv_wf [OF assms(2)]] spec_fetch_stored(1) [OF redb_inv_wf [OF assms(2)]]
    by (auto simp: list_all_iff)
qed

theorem redb_fetch_page_witness:
  "\<exists>ms. redb_fetch_messages demo_redb demo_env demo_query demo_tables = Inr ms
    \<and> map (\<lambda>m. unat (sm_head_id m)) ms = take (page_size (fq_limit demo_query))
        [max 1 (unat (fq_from_head_id demo_query))..<Suc (unat (head_of (redb_view demo_redb demo_tables)
           (log_of (fq_topic demo_query) (fq_origin demo_query))))]
    \<and> list_all (\<lambda>m. v_msg (redb_view demo_redb demo_tables)
           (log_of (fq_topic demo_query) (fq_origin demo_query), sm_head_id m) = Some m) ms"
  by (rule redb_fetch_page [OF demo_backends(2) demo_tables(1) demo_env_ok(1)])

section \<open>Queues\<close>

text \<open>
  C15. The FIFO queues of a SQLite database are lists: along any sequence of calls an enqueue appends,
  a peek shows the front, and an acknowledgement or rejection acts on the front alone.
\<close>

theorem sqlite_fifo_refines_list:
  assumes "sqlite_backend P" "sqlite_inv P db" "list_all (\<lambda>(w, c). valid_call w c) calls"
    and "\<forall>q. unat (seq_of (sqlite_view P db) q) + length calls < 2 ^ 64"
    and "run (sqlite_store P) calls db = (db', replies)"
  shows "queue_run calls (queue_of (sqlite_view P db)) replies (queue_of (sqlite_view P db'))"
proof -
  have "spec_run (ser_tombstone (sq_serde P)) calls (sqlite_view P db) replies (sqlite_view P db')"
    using msgbus_contract.run_refines [OF sqlite_contracts(1) [OF assms(1)] assms(2,3,5)] by simp
  then show ?thesis using spec_run_queue [OF sqlite_inv_wf [OF assms(2)]] assms(4) by blast
qed

definition demo_fifo :: "string \<Rightarrow> new_fifo_message" where
  "demo_fifo i = \<lparr>nf_id = MessageId i, nf_queue = QueueName ''q'', nf_topic = Topic ''a'', nf_source = demo_node,
     nf_target = demo_node, nf_payload = [3], nf_headers = fmempty\<rparr>"

definition demo_fifo_calls :: "(call_env \<times> store_call) list" where
  "demo_fifo_calls =
     [(demo_env, EnqueueFifo (demo_fifo ''f1'')), (demo_env, EnqueueFifo (demo_fifo ''f2'')),
      (demo_env, AckFifo (QueueName ''q'') (MessageId ''f2'')), (demo_env, AckFifo (QueueName ''q'') (MessageId ''f1'')),
      (demo_env, PeekFifo (QueueName ''q''))]"

theorem sqlite_fifo_refines_list_witness:
  "queue_run demo_fifo_calls (queue_of (sqlite_view demo_sqlite demo_db))
     [Inr (RFifo (enqueued (demo_fifo ''f1'') 1 7)), Inr (RFifo (enqueued (demo_fifo ''f2'') 2 7)), Inr (RFlag False),
      Inr (RFlag True), Inr (RFront (Some (enqueued (demo_fifo ''f2'') 2 7)))]
     (queue_of (sqlite_view demo_sqlite (fst (run (sqlite_store demo_sqlite) demo_fifo_calls demo_db))))"
proof (rule sqlite_fifo_refines_list [OF demo_backends(1) demo_db(1)])
  show "list_all (\<lambda>(w, c). valid_call w c) demo_fifo_calls" by code_simp
  show "\<forall>q. unat (seq_of (sqlite_view demo_sqlite demo_db) q) + length demo_fifo_calls < 2 ^ 64"
  proof
    fix q show "unat (seq_of (sqlite_view demo_sqlite demo_db) q) + length demo_fifo_calls < 2 ^ 64"
      using demo_room(3) [of q] by (simp add: demo_fifo_calls_def)
  qed
  have "snd (run (sqlite_store demo_sqlite) demo_fifo_calls demo_db) =
     [Inr (RFifo (enqueued (demo_fifo ''f1'') 1 7)), Inr (RFifo (enqueued (demo_fifo ''f2'') 2 7)), Inr (RFlag False),
      Inr (RFlag True), Inr (RFront (Some (enqueued (demo_fifo ''f2'') 2 7)))]" by code_simp
  then show "run (sqlite_store demo_sqlite) demo_fifo_calls demo_db =
     (fst (run (sqlite_store demo_sqlite) demo_fifo_calls demo_db),
      [Inr (RFifo (enqueued (demo_fifo ''f1'') 1 7)), Inr (RFifo (enqueued (demo_fifo ''f2'') 2 7)), Inr (RFlag False),
       Inr (RFlag True), Inr (RFront (Some (enqueued (demo_fifo ''f2'') 2 7)))])"
    by (simp add: prod_eq_iff)
qed

section \<open>Peer-sync records\<close>

text \<open>
  C26. A redb database counts failures: recording a number of failures in a row for one peer and log
  leaves the previous count plus that number, and stays at the largest \<open>u32\<close> instead of wrapping.
\<close>

theorem redb_counts_failures:
  assumes "redb_backend P" "redb_inv P db" "length ws = length ps"
    and "list_all (\<lambda>p. scoped_peer p \<and> peer_key_of p = k \<and> ps_last_error p \<noteq> None) ps"
    and "run (redb_store P) (map (\<lambda>(w, p). (w, RecordPeerSyncState p)) (zip ws ps)) db = (db', map Inr replies)"
  shows "unat (failures_of (redb_view P db') k) = min (unat (failures_of (redb_view P db) k) + length ps) (2 ^ 32 - 1)"
proof (rule failures_run [OF _ _ assms(3)])
  show "list_all (\<lambda>p. peer_key_of p = k \<and> ps_last_error p \<noteq> None) ps" using assms(4) by (auto simp: list_all_iff)
  have "list_all (\<lambda>(w, c). valid_call w c) (map (\<lambda>(w, p). (w, RecordPeerSyncState p)) (zip ws ps))"
    using assms(4) by (auto simp: list_all_iff dest: set_zip_rightD)
  from msgbus_contract.run_refines [OF redb_contracts(1) [OF assms(1)] assms(2) this assms(5)]
  show "spec_run (ser_tombstone (rd_serde P)) (map (\<lambda>(w, p). (w, RecordPeerSyncState p)) (zip ws ps)) (redb_view P db)
      (map Inr replies) (redb_view P db')" by simp
qed

definition demo_failure :: peer_sync_state where
  "demo_failure = \<lparr>ps_peer = ''p'', ps_topic = None, ps_origin = None, ps_local_head = 0, ps_remote_head = 0,
     ps_last_synced_head = 0, ps_last_attempt_at_ms = 7, ps_last_success_at_ms = 0, ps_consecutive_failures = 0,
     ps_last_error = Some ''refused''\<rparr>"

definition demo_failures :: "(call_env \<times> store_call) list" where
  "demo_failures = map (\<lambda>(w, p). (w, RecordPeerSyncState p)) (zip [demo_env, demo_env] [demo_failure, demo_failure])"

theorem redb_counts_failures_witness:
  "unat (failures_of (redb_view demo_redb (fst (run (redb_store demo_redb) demo_failures demo_tables))) (''p'', None, None))
   = min (unat (failures_of (redb_view demo_redb demo_tables) (''p'', None, None)) + length [demo_failure, demo_failure]) (2 ^ 32 - 1)"
proof (rule redb_counts_failures [OF demo_backends(2) demo_tables(1)])
  show "list_all (\<lambda>p. scoped_peer p \<and> peer_key_of p = (''p'', None, None) \<and> ps_last_error p \<noteq> None) [demo_failure, demo_failure]"
    by (simp add: scoped_peer_def peer_key_of_def demo_failure_def)
  have "snd (run (redb_store demo_redb) demo_failures demo_tables) = map Inr [RUnit, RUnit]" by code_simp
  then show "run (redb_store demo_redb) (map (\<lambda>(w, p). (w, RecordPeerSyncState p)) (zip [demo_env, demo_env] [demo_failure, demo_failure]))
      demo_tables = (fst (run (redb_store demo_redb) demo_failures demo_tables), map Inr [RUnit, RUnit])"
    unfolding demo_failures_def by (simp only: prod_eq_iff fst_conv snd_conv)
qed simp

section \<open>Errors\<close>


definition demo_broken :: call_env where
  "demo_broken = demo_env\<lparr>fault := \<lambda>i. if i = 4 then Some ''disk full'' else None\<rparr>"


text \<open>
  C12. Replicating a message into a redb database gives, when the engine does not fail, exactly one
  of the five outcomes of the source, decided by the log and the message: refused without a head,
  already present, taken as a deletion, refused as a conflict or as a gap, or inserted.
\<close>

theorem redb_put_outcome:
  assumes "redb_backend P" "redb_inv P db" "no_fault w"
  shows "snd (redb_put_replicated_message P w m db) = put_reply (redb_view P db) m"
  using redb_backend.put_outcome [OF assms] .

theorem redb_put_outcome_witness:
  "snd (redb_put_replicated_message demo_redb demo_env (stamp demo_message 3 7) demo_tables)
     = put_reply (redb_view demo_redb demo_tables) (stamp demo_message 3 7)
   \<and> snd (redb_put_replicated_message demo_redb demo_env (stamp demo_message 3 7) demo_tables)
     = Inl (InvalidArgument ''replicated message would create a gap at topic=a origin=t/b/d local_head=1 incoming_head=3'')"
proof
  show "snd (redb_put_replicated_message demo_redb demo_env (stamp demo_message 3 7) demo_tables)
     = put_reply (redb_view demo_redb demo_tables) (stamp demo_message 3 7)"
    by (rule redb_put_outcome [OF demo_backends(2) demo_tables(1) demo_env_ok(1)])
qed code_simp

section \<open>Keys and integers\<close>

text \<open>
  C30. Parsing a node key accepts exactly the keys of valid nodes whose parts contain no slash, and
  gives that node back.
\<close>

theorem node_key_round_trip: "node_from_key k = Inr n \<longleftrightarrow> k = node_key n \<and> valid_node n \<and> slash_free n"
  by (rule node_from_key_Inr)

definition demo_left :: node_id where
  "demo_left = \<lparr>tenant_id = ''t/b'', bl_name = ''c'', device_id = ''d''\<rparr>"

definition demo_right :: node_id where
  "demo_right = \<lparr>tenant_id = ''t'', bl_name = ''b/c'', device_id = ''d''\<rparr>"


text \<open>
  C32. The message keys of the redb backend sort like the heads of a log, and two keys are equal only
  for the same log and head.
\<close>

theorem message_key_order:
  assumes "redb_backend P"
  shows "(message_key P t n h < message_key P t n h' \<longleftrightarrow> h < h')
    \<and> (message_key P t n h = message_key P t' n' h' \<longleftrightarrow> log_of t n = log_of t' n' \<and> h = h')"
  using redb_backend.key_eqs(1) [OF assms] by (simp add: redb_keys mkey_def)

theorem message_key_order_witness:
  "(message_key demo_redb (Topic ''a'') demo_node 9 < message_key demo_redb (Topic ''a'') demo_node 10 \<longleftrightarrow> (9 :: u64) < 10)
    \<and> (message_key demo_redb (Topic ''a'') demo_node 9 = message_key demo_redb (Topic ''b'') demo_node 9
       \<longleftrightarrow> log_of (Topic ''a'') demo_node = log_of (Topic ''b'') demo_node \<and> (9 :: u64) = 9)"
  using message_key_order [OF demo_backends(2), of "Topic ''a''" demo_node 9 10 "Topic ''b''" demo_node]
    message_key_order [OF demo_backends(2), of "Topic ''a''" demo_node 9 9 "Topic ''b''" demo_node] by blast

text \<open>
  C33. A \<open>u64\<close> reaches a SQLite column unchanged and is read back unchanged, or is refused because it
  does not fit an \<open>i64\<close>; it never wraps.
\<close>

theorem u64_column_round_trip:
  "case u64_to_i64 v of
     Inr i \<Rightarrow> 0 \<le> i \<and> i < 2 ^ 63 \<and> i64_to_u64 i = Inr v
   | Inl e \<Rightarrow> 2 ^ 63 \<le> uint v \<and> e = InvalidArgument (dec_string (unat v) @ '' exceeds i64'')"
  by (simp add: u64_to_i64_def i64_to_u64_def)

end
