(* ===== verification/Server_Proto.thy ===== *)
theory Server_Proto
  imports Msgbus_Core
begin

text \<open>
  The wire types of \<open>proto/msgbus/v1/msgbus.proto\<close> and the conversions between them and the domain
  types in \<open>crates/msgbus-server/src/lib.rs\<close>. A protobuf message is a record; a field of message
  type is optional, a scalar field is not. The gRPC status codes are those of the protocol. The
  lemmas show that a conversion to the wire and back is the identity on the values the server can
  send, and which values the server refuses to read.
\<close>

section \<open>Statuses\<close>

datatype code =
    COk | Cancelled | Unknown | CInvalidArgument | DeadlineExceeded | CNotFound | AlreadyExists
  | PermissionDenied | ResourceExhausted | FailedPrecondition | Aborted | OutOfRange | Unimplemented
  | Internal | Unavailable | DataLoss | Unauthenticated

record status =
  status_code :: code
  status_message :: string

type_synonym 'a rpc = "status + 'a"

definition status :: "code \<Rightarrow> string \<Rightarrow> status" where
  "status c m = \<lparr>status_code = c, status_message = m\<rparr>"

fun status_from_error :: "msgbus_error \<Rightarrow> status" where
  "status_from_error (InvalidArgument message) = status CInvalidArgument message"
| "status_from_error (NotFound message) = status CNotFound message"
| "status_from_error (Conflict message) = status FailedPrecondition message"
| "status_from_error (Storage message) = status Internal message"
| "status_from_error (Serialization message) = status Internal message"

section \<open>Wire messages\<close>

record pb_node =
  pn_tenant_id :: string
  pn_bl_name :: string
  pn_device_id :: string

record message_envelope =
  me_id :: string
  me_topic :: string
  me_origin :: "pb_node option"
  me_head_id :: u64
  me_payload :: bytes
  me_headers :: headers
  me_created_at_ms :: u64
  me_deleted :: bool

record publish_request =
  pr_topic :: string
  pr_origin :: "pb_node option"
  pr_payload :: bytes
  pr_headers :: headers

record fetch_request =
  fr_topic :: string
  fr_origin :: "pb_node option"
  fr_from_head_id :: u64
  fr_limit :: u32

record subscribe_request =
  sr_topic :: string
  sr_origin :: "pb_node option"
  sr_from_head_id :: u64
  sr_replay_limit :: u32

text \<open>
  \<open>PublishResponse\<close>, \<open>FetchResponse\<close> and \<open>SubscribeResponse\<close> have one optional field and are that
  field; so are the responses of the FIFO calls.
\<close>

type_synonym publish_response = "message_envelope option"
type_synonym fetch_response = "message_envelope option"
type_synonym subscribe_response = "message_envelope option"

record get_head_request =
  gr_topic :: string
  gr_origin :: "pb_node option"

record get_head_response =
  gh_head_id :: u64
  gh_found :: bool

record pb_topic_head =
  pt_topic :: string
  pt_origin :: "pb_node option"
  pt_head_id :: u64

record pb_peer_sync_state =
  pp_peer :: string
  pp_topic :: string
  pp_origin :: "pb_node option"
  pp_local_head :: u64
  pp_remote_head :: u64
  pp_last_synced_head :: u64
  pp_last_attempt_at_ms :: u64
  pp_last_success_at_ms :: u64
  pp_consecutive_failures :: u32
  pp_last_error :: string

record delete_range_request =
  dr_topic :: string
  dr_origin :: "pb_node option"
  dr_from_head_id :: u64
  dr_to_head_id :: u64

record fifo_message =
  fm_id :: string
  fm_queue :: string
  fm_topic :: string
  fm_source :: "pb_node option"
  fm_target :: "pb_node option"
  fm_payload :: bytes
  fm_headers :: headers
  fm_created_at_ms :: u64
  fm_sequence :: u64
  fm_attempts :: u32

record enqueue_fifo_request =
  er_queue :: string
  er_topic :: string
  er_source :: "pb_node option"
  er_target :: "pb_node option"
  er_payload :: bytes
  er_headers :: headers

record ack_fifo_request =
  ar_queue :: string
  ar_message_id :: string

record reject_fifo_request =
  rr_queue :: string
  rr_message_id :: string

record health_response =
  hr_status :: string
  hr_node :: "pb_node option"

record ready_response =
  rs_ready :: bool
  rs_status :: string
  rs_error :: string
  rs_node :: "pb_node option"

type_synonym fifo_response = "fifo_message option"

section \<open>Conversions\<close>

definition core_node :: "pb_node \<Rightarrow> node_id rpc" where
  "core_node value =
     (if pn_tenant_id value = [] \<and> pn_bl_name value = [] \<and> pn_device_id value = []
      then Inr \<lparr>tenant_id = [], bl_name = [], device_id = []\<rparr>
      else map_err status_from_error
             (node_new (pn_tenant_id value) (pn_bl_name value) (pn_device_id value)))"

definition proto_node :: "node_id \<Rightarrow> pb_node" where
  "proto_node value =
     \<lparr>pn_tenant_id = tenant_id value, pn_bl_name = bl_name value, pn_device_id = device_id value\<rparr>"

definition map_headers :: "headers \<Rightarrow> headers" where
  "map_headers value = fmap_of_list (sorted_list_of_fmap value)"

definition proto_message :: "stored_message \<Rightarrow> message_envelope" where
  "proto_message value =
     \<lparr>me_id = message_id_str (sm_id value), me_topic = topic_str (sm_topic value),
      me_origin = Some (proto_node (sm_origin value)), me_head_id = sm_head_id value,
      me_payload = sm_payload value, me_headers = map_headers (sm_headers value),
      me_created_at_ms = sm_created_at_ms value, me_deleted = sm_deleted value\<rparr>"

definition core_message :: "message_envelope \<Rightarrow> stored_message rpc" where
  "core_message value =
     and_then (transpose_opt (map_option core_node (me_origin value))) (\<lambda>origin.
     and_then (ok_or (status CInvalidArgument ''message origin is required'') origin) (\<lambda>origin.
     if me_head_id value = 0
     then Inl (status CInvalidArgument ''message head_id must be greater than zero'')
     else
       and_then (map_err status_from_error (message_id_from_string (me_id value))) (\<lambda>id.
       and_then (map_err status_from_error (topic_new (me_topic value))) (\<lambda>topic.
       Inr \<lparr>sm_id = id, sm_topic = topic, sm_origin = origin, sm_head_id = me_head_id value,
            sm_payload = me_payload value, sm_headers = me_headers value,
            sm_created_at_ms = me_created_at_ms value, sm_deleted = me_deleted value\<rparr>))))"

definition proto_topic_head :: "topic_head \<Rightarrow> pb_topic_head" where
  "proto_topic_head value =
     \<lparr>pt_topic = topic_str (th_topic value), pt_origin = Some (proto_node (th_origin value)),
      pt_head_id = th_head_id value\<rparr>"

definition core_topic_head :: "pb_topic_head \<Rightarrow> topic_head rpc" where
  "core_topic_head value =
     and_then (transpose_opt (map_option core_node (pt_origin value))) (\<lambda>origin.
     and_then (ok_or (status CInvalidArgument ''topic head origin is required'') origin) (\<lambda>origin.
     and_then (map_err status_from_error (topic_new (pt_topic value))) (\<lambda>topic.
     Inr \<lparr>th_topic = topic, th_origin = origin, th_head_id = pt_head_id value\<rparr>)))"

definition proto_peer_sync_state :: "peer_sync_state \<Rightarrow> pb_peer_sync_state" where
  "proto_peer_sync_state value =
     \<lparr>pp_peer = ps_peer value,
      pp_topic = (case ps_topic value of None \<Rightarrow> [] | Some topic \<Rightarrow> topic_str topic),
      pp_origin = map_option proto_node (ps_origin value),
      pp_local_head = ps_local_head value, pp_remote_head = ps_remote_head value,
      pp_last_synced_head = ps_last_synced_head value,
      pp_last_attempt_at_ms = ps_last_attempt_at_ms value,
      pp_last_success_at_ms = ps_last_success_at_ms value,
      pp_consecutive_failures = ps_consecutive_failures value,
      pp_last_error = (case ps_last_error value of None \<Rightarrow> [] | Some e \<Rightarrow> e)\<rparr>"

definition proto_fifo :: "stored_fifo_message \<Rightarrow> fifo_message" where
  "proto_fifo value =
     \<lparr>fm_id = message_id_str (sf_id value), fm_queue = queue_str (sf_queue value),
      fm_topic = topic_str (sf_topic value), fm_source = Some (proto_node (sf_source value)),
      fm_target = Some (proto_node (sf_target value)), fm_payload = sf_payload value,
      fm_headers = map_headers (sf_headers value), fm_created_at_ms = sf_created_at_ms value,
      fm_sequence = sf_sequence value, fm_attempts = sf_attempts value\<rparr>"

definition fifo_ack_parts :: "ack_fifo_request \<Rightarrow> (queue_name \<times> message_id) rpc" where
  "fifo_ack_parts request =
     and_then (map_err status_from_error (queue_name_new (ar_queue request))) (\<lambda>queue.
     and_then (map_err status_from_error (message_id_from_string (ar_message_id request))) (\<lambda>message_id.
     Inr (queue, message_id)))"

definition reject_fifo_parts :: "reject_fifo_request \<Rightarrow> (queue_name \<times> message_id) rpc" where
  "reject_fifo_parts request =
     and_then (map_err status_from_error (queue_name_new (rr_queue request))) (\<lambda>queue.
     and_then (map_err status_from_error (message_id_from_string (rr_message_id request))) (\<lambda>message_id.
     Inr (queue, message_id)))"

section \<open>Round trips\<close>

text \<open>A node the server can send: a validated one, or the empty one that stands for the local node.\<close>

definition sendable_node :: "node_id \<Rightarrow> bool" where
  "sendable_node n \<longleftrightarrow> valid_node n \<or> node_is_empty n"

definition sendable :: "stored_message \<Rightarrow> bool" where
  "sendable m \<longleftrightarrow> valid_part (message_id_str (sm_id m)) \<and> valid_part (topic_str (sm_topic m))
     \<and> sendable_node (sm_origin m) \<and> sm_head_id m \<noteq> 0"

lemma map_headers_id [simp]: "map_headers h = h"
  by (rule fmap_ext) (simp add: map_headers_def fmlookup_of_list)

lemma core_node_Inr: "core_node p = Inr n \<longleftrightarrow> p = proto_node n \<and> sendable_node n"
  by (cases p; cases n) (auto simp: core_node_def proto_node_def sendable_node_def node_is_empty_def node_new_Inr valid_node_def
      valid_part_def)

lemma proto_node_inj [simp]: "proto_node m = proto_node n \<longleftrightarrow> m = n"
  by (cases m; cases n) (simp add: proto_node_def)

lemma core_proto_node [simp]: "sendable_node n \<Longrightarrow> core_node (proto_node n) = Inr n"
  by (simp add: core_node_Inr)

text \<open>Reading an envelope succeeds exactly on the envelopes of sendable messages and inverts the writing.\<close>

lemma core_message_Inr: "core_message e = Inr m \<longleftrightarrow> e = proto_message m \<and> sendable m"
  by (cases e; cases m)
    (auto simp: core_message_def proto_message_def sendable_def and_then_eq_Inr transpose_opt_eq_Inr core_node_Inr
      split: option.splits)

lemma core_topic_head_Inr:
  "core_topic_head e = Inr h \<longleftrightarrow>
     e = proto_topic_head h \<and> valid_part (topic_str (th_topic h)) \<and> sendable_node (th_origin h)"
  by (cases e; cases h)
    (auto simp: core_topic_head_def proto_topic_head_def and_then_eq_Inr transpose_opt_eq_Inr core_node_Inr
      split: option.splits)

end
