(* ===== verification/Server_Service.thy ===== *)
theory Server_Service
  imports Store_Run Serde_Interface Server_Proto
begin

text \<open>
  The gRPC service of \<open>crates/msgbus-server/src/lib.rs\<close>: one definition per handler, over any store
  that implements the trait. The state of a server is the state of its store and the history of its
  broadcast channel \<open>published\<close>; a subscriber is a position in that history. A handler runs its
  validation in the order of the source, calls the store once and broadcasts what it stored.
\<close>

section \<open>Fallible steps on a state\<close>

text \<open>\<open>?\<close> on a pure result inside a handler, and on the result of a call that changes the state.\<close>

definition try_on :: "'t \<Rightarrow> 'e + 'a \<Rightarrow> ('a \<Rightarrow> 't \<times> ('e + 'b)) \<Rightarrow> 't \<times> ('e + 'b)" where
  "try_on t r f = (case r of Inl e \<Rightarrow> (t, Inl e) | Inr a \<Rightarrow> f a)"

definition bind_on :: "'t \<times> ('e + 'a) \<Rightarrow> ('t \<Rightarrow> 'a \<Rightarrow> 't \<times> ('e + 'b)) \<Rightarrow> 't \<times> ('e + 'b)" where
  "bind_on tr f = (case tr of (t, Inl e) \<Rightarrow> (t, Inl e) | (t, Inr a) \<Rightarrow> f t a)"

lemma try_on_simps [simp]: "try_on t (Inl e) f = (t, Inl e)" "try_on t (Inr a) f = f a"
  by (simp_all add: try_on_def)

lemma bind_on_simps [simp]: "bind_on (t, Inl e) f = (t, Inl e)" "bind_on (t, Inr a) f = f t a"
  by (simp_all add: bind_on_def)

lemma try_on_eq_Inr: "try_on t r f = (t', Inr b) \<longleftrightarrow> (\<exists>a. r = Inr a \<and> f a = (t', Inr b))"
  by (cases r) auto

lemma try_on_eq_Inl:
  "try_on t r f = (t', Inl e) \<longleftrightarrow> r = Inl e \<and> t' = t \<or> (\<exists>a. r = Inr a \<and> f a = (t', Inl e))"
  by (cases r) auto

lemma bind_on_eq_Inr:
  "bind_on tr f = (t', Inr b) \<longleftrightarrow> (\<exists>t a. tr = (t, Inr a) \<and> f t a = (t', Inr b))"
  by (cases tr; cases "snd tr") auto

lemma bind_on_eq_Inl:
  "bind_on tr f = (t', Inl e) \<longleftrightarrow> tr = (t', Inl e) \<or> (\<exists>t a. tr = (t, Inr a) \<and> f t a = (t', Inl e))"
  by (cases tr; cases "snd tr") auto

section \<open>The service\<close>

definition default_replay_limit :: u32 where
  "default_replay_limit = 100"

definition delete_topic :: string where
  "delete_topic = ''$msgbus.delete''"

record 's service =
  svc_store :: "'s msgbus_store"
  svc_node :: node_id

record 's server =
  sv_store :: 's
  sv_published :: "stored_message list"

definition published_capacity :: nat where
  "published_capacity = 1024"

definition service_new :: "'s msgbus_store \<Rightarrow> node_id \<Rightarrow> 's \<Rightarrow> 's service \<times> 's server" where
  "service_new st node s =
     (\<lparr>svc_store = st, svc_node = node\<rparr>, \<lparr>sv_store = s, sv_published = []\<rparr>)"

definition request_origin :: "'s service \<Rightarrow> pb_node option \<Rightarrow> node_id rpc" where
  "request_origin svc origin =
     (case origin of
        Some origin \<Rightarrow>
          and_then (core_node origin) (\<lambda>node. if node_is_empty node then Inr (svc_node svc) else Inr node)
      | None \<Rightarrow> Inr (svc_node svc))"

definition owned_origin :: "'s service \<Rightarrow> pb_node option \<Rightarrow> node_id rpc" where
  "owned_origin svc origin =
     and_then (request_origin svc origin) (\<lambda>origin.
     if origin = svc_node svc then Inr origin
     else Inl (status PermissionDenied ''writes must use the local daemon origin''))"

definition ensure_application_topic :: "topic \<Rightarrow> unit rpc" where
  "ensure_application_topic topic =
     (if topic_str topic = delete_topic
      then Inl (status PermissionDenied ''$msgbus.delete is reserved for delete markers'')
      else Inr ())"

text \<open>A call of the store from a handler: the error becomes a status.\<close>

definition on_store :: "('s \<Rightarrow> 's \<times> 'a res) \<Rightarrow> 's server \<Rightarrow> 's server \<times> 'a rpc" where
  "on_store f sv = (let (s, r) = f (sv_store sv) in (sv\<lparr>sv_store := s\<rparr>, map_err status_from_error r))"

definition send :: "stored_message \<Rightarrow> 's server \<Rightarrow> 's server" where
  "send m sv = sv\<lparr>sv_published := sv_published sv @ [m]\<rparr>"

section \<open>Handlers\<close>

definition srv_publish ::
  "'s service \<Rightarrow> call_env \<Rightarrow> publish_request \<Rightarrow> 's server \<Rightarrow> 's server \<times> publish_response rpc" where
  "srv_publish svc w request sv =
     try_on sv (map_err status_from_error (topic_new (pr_topic request))) (\<lambda>topic.
     try_on sv (ensure_application_topic topic) (\<lambda>_.
     try_on sv (owned_origin svc (pr_origin request)) (\<lambda>origin.
     let message = new_message_new (uuid w) topic origin (pr_payload request) (pr_headers request) in
     bind_on (on_store (st_append_message (svc_store svc) w message) sv) (\<lambda>sv stored.
     (send stored sv, Inr (Some (proto_message stored)))))))"

definition srv_fetch ::
  "'s service \<Rightarrow> call_env \<Rightarrow> fetch_request \<Rightarrow> 's server \<Rightarrow> fetch_response list rpc" where
  "srv_fetch svc w request sv =
     and_then (map_err status_from_error (topic_new (fr_topic request))) (\<lambda>topic.
     and_then (request_origin svc (fr_origin request)) (\<lambda>origin.
     and_then (map_err status_from_error (st_fetch_messages (svc_store svc) w
       \<lparr>fq_topic = topic, fq_origin = origin, fq_from_head_id = max (fr_from_head_id request) 1,
        fq_limit = fr_limit request\<rparr> (sv_store sv))) (\<lambda>messages.
     Inr (map (\<lambda>message. Some (proto_message message)) messages))))"

definition srv_get_head ::
  "'s service \<Rightarrow> call_env \<Rightarrow> get_head_request \<Rightarrow> 's server \<Rightarrow> get_head_response rpc" where
  "srv_get_head svc w request sv =
     and_then (map_err status_from_error (topic_new (gr_topic request))) (\<lambda>topic.
     and_then (request_origin svc (gr_origin request)) (\<lambda>origin.
     and_then (map_err status_from_error (st_get_head (svc_store svc) w topic origin (sv_store sv))) (\<lambda>head.
     Inr \<lparr>gh_head_id = (case head of None \<Rightarrow> 0 | Some h \<Rightarrow> h), gh_found = (head \<noteq> None)\<rparr>)))"

definition srv_list_heads :: "'s service \<Rightarrow> call_env \<Rightarrow> 's server \<Rightarrow> pb_topic_head list rpc" where
  "srv_list_heads svc w sv =
     and_then (map_err status_from_error (st_list_heads (svc_store svc) w (sv_store sv))) (\<lambda>heads.
     Inr (map proto_topic_head heads))"

definition srv_list_peer_sync_states ::
  "'s service \<Rightarrow> call_env \<Rightarrow> 's server \<Rightarrow> pb_peer_sync_state list rpc" where
  "srv_list_peer_sync_states svc w sv =
     and_then (map_err status_from_error (st_list_peer_sync_states (svc_store svc) w (sv_store sv))) (\<lambda>states.
     Inr (map proto_peer_sync_state states))"

definition srv_delete_range ::
  "'s service \<Rightarrow> call_env \<Rightarrow> delete_range_request \<Rightarrow> 's server \<Rightarrow> 's server \<times> u64 rpc" where
  "srv_delete_range svc w request sv =
     try_on sv (map_err status_from_error (topic_new (dr_topic request))) (\<lambda>topic.
     try_on sv (ensure_application_topic topic) (\<lambda>_.
     try_on sv (owned_origin svc (dr_origin request)) (\<lambda>origin.
     try_on sv (map_err status_from_error (topic_new delete_topic)) (\<lambda>delete_topic.
     bind_on (on_store (st_tombstone_range_with_marker (svc_store svc) w topic origin
         (dr_from_head_id request) (dr_to_head_id request) delete_topic (svc_node svc)) sv)
       (\<lambda>sv (deleted_count, control). (send control sv, Inr deleted_count))))))"

definition srv_enqueue_fifo ::
  "'s service \<Rightarrow> call_env \<Rightarrow> enqueue_fifo_request \<Rightarrow> 's server \<Rightarrow> 's server \<times> fifo_response rpc" where
  "srv_enqueue_fifo svc w request sv =
     try_on sv (map_err status_from_error (queue_name_new (er_queue request))) (\<lambda>queue.
     try_on sv (map_err status_from_error (topic_new (er_topic request))) (\<lambda>topic.
     try_on sv (ensure_application_topic topic) (\<lambda>_.
     try_on sv (owned_origin svc (er_source request)) (\<lambda>source.
     try_on sv (transpose_opt (map_option core_node (er_target request))) (\<lambda>target.
     try_on sv (ok_or (status CInvalidArgument ''target is required'') target) (\<lambda>target.
     bind_on (on_store (st_enqueue_fifo (svc_store svc) w (new_fifo_message_new (uuid w) queue topic
         source target (er_payload request) (er_headers request))) sv)
       (\<lambda>sv stored. (sv, Inr (Some (proto_fifo stored))))))))))"

definition srv_peek_fifo :: "'s service \<Rightarrow> call_env \<Rightarrow> string \<Rightarrow> 's server \<Rightarrow> fifo_response rpc" where
  "srv_peek_fifo svc w queue sv =
     and_then (map_err status_from_error (queue_name_new queue)) (\<lambda>queue.
     and_then (map_err status_from_error (st_peek_fifo (svc_store svc) w queue (sv_store sv))) (\<lambda>message.
     and_then (ok_or (status CNotFound ''fifo queue is empty'') message) (\<lambda>message.
     Inr (Some (proto_fifo message)))))"

definition srv_ack_fifo ::
  "'s service \<Rightarrow> call_env \<Rightarrow> ack_fifo_request \<Rightarrow> 's server \<Rightarrow> 's server \<times> bool rpc" where
  "srv_ack_fifo svc w request sv =
     try_on sv (fifo_ack_parts request) (\<lambda>(queue, message_id).
     on_store (st_ack_fifo (svc_store svc) w queue message_id) sv)"

definition srv_reject_fifo ::
  "'s service \<Rightarrow> call_env \<Rightarrow> reject_fifo_request \<Rightarrow> 's server \<Rightarrow> 's server \<times> bool rpc" where
  "srv_reject_fifo svc w request sv =
     try_on sv (reject_fifo_parts request) (\<lambda>(queue, message_id).
     on_store (st_reject_fifo (svc_store svc) w queue message_id) sv)"

definition srv_health :: "'s service \<Rightarrow> health_response rpc" where
  "srv_health svc = Inr \<lparr>hr_status = ''SERVING'', hr_node = Some (proto_node (svc_node svc))\<rparr>"

definition srv_ready :: "'s service \<Rightarrow> call_env \<Rightarrow> 's server \<Rightarrow> ready_response rpc" where
  "srv_ready svc w sv =
     (case st_list_heads (svc_store svc) w (sv_store sv) of
        Inr _ \<Rightarrow> Inr \<lparr>rs_ready = True, rs_status = ''READY'', rs_error = [],
                     rs_node = Some (proto_node (svc_node svc))\<rparr>
      | Inl err \<Rightarrow> Inr \<lparr>rs_ready = False, rs_status = ''NOT_READY'', rs_error = error_to_string err,
                     rs_node = Some (proto_node (svc_node svc))\<rparr>)"

text \<open>
  \<open>subscribe\<close> first takes its position in the broadcast history and then reads the replay; the task
  it spawns is in \<open>Subscription\<close>.
\<close>

record subscription_start =
  ss_topic :: topic
  ss_origin :: node_id
  ss_from_head_id :: head_id
  ss_position :: nat
  ss_replay :: "stored_message list"

definition subscribe_query :: "'s service \<Rightarrow> subscribe_request \<Rightarrow> fetch_query rpc" where
  "subscribe_query svc request =
     and_then (map_err status_from_error (topic_new (sr_topic request))) (\<lambda>topic.
     and_then (request_origin svc (sr_origin request)) (\<lambda>origin.
     Inr \<lparr>fq_topic = topic, fq_origin = origin, fq_from_head_id = max (sr_from_head_id request) 1,
          fq_limit = (if sr_replay_limit request = 0 then default_replay_limit else sr_replay_limit request)\<rparr>))"

definition srv_subscribe ::
  "'s service \<Rightarrow> call_env \<Rightarrow> subscribe_request \<Rightarrow> 's server \<Rightarrow> subscription_start rpc" where
  "srv_subscribe svc w request sv =
     and_then (subscribe_query svc request) (\<lambda>query.
     let position = length (sv_published sv) in
     and_then (map_err status_from_error (st_fetch_messages (svc_store svc) w query (sv_store sv))) (\<lambda>replay.
     Inr \<lparr>ss_topic = fq_topic query, ss_origin = fq_origin query, ss_from_head_id = fq_from_head_id query,
          ss_position = position, ss_replay = replay\<rparr>))"

section \<open>Control messages\<close>

definition apply_control_message ::
  "serde \<Rightarrow> 's msgbus_store \<Rightarrow> call_env \<Rightarrow> stored_message \<Rightarrow> 's \<Rightarrow> 's \<times> unit rpc" where
  "apply_control_message S st w message s =
     (if topic_str (sm_topic message) \<noteq> delete_topic \<or> sm_deleted message then (s, Inr ())
      else
        try_on s (map_err (\<lambda>err. status CInvalidArgument (''invalid tombstone payload: '' @ err))
          (de_tombstone S (sm_payload message))) (\<lambda>tombstone.
        if sm_origin message \<noteq> tr_origin tombstone
        then (s, Inl (status PermissionDenied ''delete marker origin must match tombstone origin''))
        else
          let (s, r) = st_tombstone_range st w (tr_topic tombstone) (tr_origin tombstone)
                         (tr_from_head_id tombstone) (tr_to_head_id tombstone) s
          in (s, and_then (map_err status_from_error r) (\<lambda>_. Inr ()))))"

text \<open>
  \<open>replay_control_messages\<close>. Every store call of the loops has its own environment, numbered by
  \<open>i\<close>. The inner loop over a page cannot fail to end; the outer one advances only as far as the
  store's answers carry it, so it is a partial function whose value is \<open>None\<close> when it does not return.
\<close>

fun replay_page ::
  "serde \<Rightarrow> 's msgbus_store \<Rightarrow> (nat \<Rightarrow> call_env) \<Rightarrow> stored_message list \<Rightarrow> u64 \<Rightarrow> nat \<Rightarrow> 's
     \<Rightarrow> (nat \<times> 's) \<times> u64 rpc" where
  "replay_page S st ws [] from_head_id i s = ((i, s), Inr from_head_id)"
| "replay_page S st ws (message # messages) from_head_id i s =
     (case apply_control_message S st (ws i) message s of
        (s, Inl e) \<Rightarrow> ((Suc i, s), Inl e)
      | (s, Inr _) \<Rightarrow> replay_page S st ws messages (saturating_add (sm_head_id message) 1) (Suc i) s)"

partial_function (option) replay_log ::
  "serde \<Rightarrow> 's msgbus_store \<Rightarrow> (nat \<Rightarrow> call_env) \<Rightarrow> topic_head \<Rightarrow> u64 \<Rightarrow> nat \<Rightarrow> 's
     \<Rightarrow> ((nat \<times> 's) \<times> unit rpc) option" where
  "replay_log S st ws head from_head_id i s =
     (if from_head_id \<le> th_head_id head then
        (case st_fetch_messages st (ws i) \<lparr>fq_topic = th_topic head, fq_origin = th_origin head,
                fq_from_head_id = from_head_id, fq_limit = 1000\<rparr> s of
           Inl e \<Rightarrow> Some ((Suc i, s), Inl (status_from_error e))
         | Inr messages \<Rightarrow>
             (if messages = [] then Some ((Suc i, s), Inr ())
              else case replay_page S st ws messages from_head_id (Suc i) s of
                  ((i, s), Inl e) \<Rightarrow> Some ((i, s), Inl e)
                | ((i, s), Inr from_head_id) \<Rightarrow> replay_log S st ws head from_head_id i s))
      else Some ((i, s), Inr ()))"

declare replay_log.simps [code]

fun replay_heads ::
  "serde \<Rightarrow> 's msgbus_store \<Rightarrow> (nat \<Rightarrow> call_env) \<Rightarrow> topic_head list \<Rightarrow> nat \<Rightarrow> 's
     \<Rightarrow> ((nat \<times> 's) \<times> unit rpc) option" where
  "replay_heads S st ws [] i s = Some ((i, s), Inr ())"
| "replay_heads S st ws (head # heads) i s =
     (case replay_log S st ws head 1 i s of
        None \<Rightarrow> None
      | Some ((i, s), Inl e) \<Rightarrow> Some ((i, s), Inl e)
      | Some ((i, s), Inr _) \<Rightarrow> replay_heads S st ws heads i s)"

definition replay_control_messages ::
  "serde \<Rightarrow> 's msgbus_store \<Rightarrow> (nat \<Rightarrow> call_env) \<Rightarrow> 's \<Rightarrow> ((nat \<times> 's) \<times> unit rpc) option" where
  "replay_control_messages S st ws s =
     (case st_list_heads st (ws 0) s of
        Inl e \<Rightarrow> Some ((1, s), Inl (status_from_error e))
      | Inr heads \<Rightarrow>
          replay_heads S st ws (filter (\<lambda>head. topic_str (th_topic head) = delete_topic) heads) 1 s)"

end
