(* ===== verification/Server_Laws.thy ===== *)
theory Server_Laws
  imports Server_Service Store_History
begin

text \<open>
  What the handlers do to a store that keeps the contract. A request either leaves the server as it
  was or performs one store call on the server's own node and announces what that call stored;
  from this follow the facts about runs of requests: logs of other nodes are never written, what was
  announced is stored, and nothing is lost.
\<close>

declare split_paired_All [simp del] split_paired_Ex [simp del]

section \<open>Origins\<close>

lemma request_origin_Inr:
  "request_origin svc p = Inr n \<longleftrightarrow>
     n = svc_node svc \<and> (p = None \<or> (\<exists>q. p = Some (proto_node q) \<and> node_is_empty q))
     \<or> p = Some (proto_node n) \<and> valid_node n \<and> \<not> node_is_empty n"
  by (auto simp: request_origin_def and_then_eq_Inr core_node_Inr sendable_node_def split: option.splits if_splits)

lemma owned_origin_Inr: "owned_origin svc p = Inr n \<Longrightarrow> n = svc_node svc"
  by (auto simp: owned_origin_def and_then_eq_Inr split: if_splits)

lemma owned_origin_foreign:
  assumes "valid_node n" "n \<noteq> svc_node svc"
  shows "owned_origin svc (Some (proto_node n)) = Inl (status PermissionDenied ''writes must use the local daemon origin'')"
proof -
  have "\<not> node_is_empty n" using assms(1) by (auto simp: valid_node_def valid_part_def node_is_empty_def)
  with assms show ?thesis by (simp add: owned_origin_def request_origin_def sendable_node_def)
qed

lemma valid_delete_topic [simp]: "valid_part delete_topic"
  by code_simp

lemma ensure_application_topic_Inr [simp]: "ensure_application_topic t = Inr u \<longleftrightarrow> topic_str t \<noteq> delete_topic"
  by (simp add: ensure_application_topic_def)

section \<open>Requests\<close>

datatype rpc_call =
    PublishCall publish_request
  | FetchCall fetch_request
  | SubscribeCall subscribe_request
  | GetHeadCall get_head_request
  | ListHeadsCall
  | ListPeerSyncStatesCall
  | DeleteRangeCall delete_range_request
  | EnqueueFifoCall enqueue_fifo_request
  | PeekFifoCall string
  | AckFifoCall ack_fifo_request
  | RejectFifoCall reject_fifo_request
  | HealthCall
  | ReadyCall

fun after_rpc :: "'s service \<Rightarrow> call_env \<Rightarrow> rpc_call \<Rightarrow> 's server \<Rightarrow> 's server" where
  "after_rpc svc w (PublishCall r) sv = fst (srv_publish svc w r sv)"
| "after_rpc svc w (DeleteRangeCall r) sv = fst (srv_delete_range svc w r sv)"
| "after_rpc svc w (EnqueueFifoCall r) sv = fst (srv_enqueue_fifo svc w r sv)"
| "after_rpc svc w (AckFifoCall r) sv = fst (srv_ack_fifo svc w r sv)"
| "after_rpc svc w (RejectFifoCall r) sv = fst (srv_reject_fifo svc w r sv)"
| "after_rpc svc w _ sv = sv"

fun after_rpcs :: "'s service \<Rightarrow> (call_env \<times> rpc_call) list \<Rightarrow> 's server \<Rightarrow> 's server" where
  "after_rpcs svc [] sv = sv"
| "after_rpcs svc ((w, c) # cs) sv = after_rpcs svc cs (after_rpc svc w c sv)"

text \<open>The store calls a server makes for its clients, and what it announces for each.\<close>

fun owned_call :: "node_id \<Rightarrow> store_call \<Rightarrow> bool" where
  "owned_call n (AppendMessage m) \<longleftrightarrow> nm_origin m = n \<and> topic_str (nm_topic m) \<noteq> delete_topic"
| "owned_call n (TombstoneRangeWithMarker t o' a b mt mn) \<longleftrightarrow>
     o' = n \<and> mn = n \<and> mt = Topic delete_topic \<and> topic_str t \<noteq> delete_topic"
| "owned_call n (EnqueueFifo f) \<longleftrightarrow> nf_source f = n \<and> topic_str (nf_topic f) \<noteq> delete_topic"
| "owned_call n (AckFifo q i) \<longleftrightarrow> True"
| "owned_call n (RejectFifo q i) \<longleftrightarrow> True"
| "owned_call n _ \<longleftrightarrow> False"

fun announced :: "reply \<Rightarrow> stored_message list" where
  "announced (RMessage m) = [m]"
| "announced (RMarked c m) = [m]"
| "announced _ = []"

section \<open>What a request can change\<close>

definition untouched :: "log_key \<Rightarrow> store_view \<Rightarrow> store_view \<Rightarrow> bool" where
  "untouched l v v' \<longleftrightarrow>
     (\<forall>h. v_msg v' (l, h) = v_msg v (l, h)) \<and> v_head v' l = v_head v l \<and> v_tomb v' l = v_tomb v l"

definition all_stored :: "store_view \<Rightarrow> stored_message list \<Rightarrow> bool" where
  "all_stored v ms \<longleftrightarrow>
     (\<forall>m \<in> set ms. \<exists>m'. v_msg v (message_log m, sm_head_id m) = Some m' \<and> evolved m m')"

lemma untouched_trans: "untouched l a b \<Longrightarrow> untouched l b c \<Longrightarrow> untouched l a c"
  by (simp add: untouched_def)

lemma all_stored_extends: "all_stored v ms \<Longrightarrow> extends v v' \<Longrightarrow> all_stored v' ms"
  unfolding all_stored_def by (meson extendsD evolved_trans)

lemma owned_call_untouched:
  assumes "owned_call n c" "spec_call enc w c v r v'" "snd l \<noteq> node_key n"
  shows "untouched l v v'"
proof -
  have l: "l \<noteq> log_of t n" for t using assms(3) by (auto simp: log_of_def)
  show ?thesis
    using assms(1,2) l
    by (cases c)
      (auto simp: untouched_def spec_append_def spec_marker_def spec_tombstone_def delete_between_def spec_enqueue_def spec_ack_def
        spec_reject_def new_message_new_def Let_def split: sum.splits prod.splits option.splits if_splits)
qed

lemma announced_stored:
  assumes "owned_call n c" "spec_call enc w c v r v'"
  shows "\<forall>m \<in> set (announced r). v_msg v' (message_log m, sm_head_id m) = Some m \<and> sm_origin m = n"
  using assms
  by (cases c)
    (auto simp: spec_append_def spec_marker_def spec_tombstone_def new_message_new_def Let_def
      split: sum.splits prod.splits)

lemma on_store_eq_Inr:
  "on_store f sv = (sv', Inr a) \<longleftrightarrow> (\<exists>s. f (sv_store sv) = (s, Inr a) \<and> sv' = sv\<lparr>sv_store := s\<rparr>)"
  by (auto simp: on_store_def split: prod.splits)

lemma on_store_eq_Inl:
  "on_store f sv = (sv', Inl e) \<longleftrightarrow>
     (\<exists>s e'. f (sv_store sv) = (s, Inl e') \<and> sv' = sv\<lparr>sv_store := s\<rparr> \<and> e = status_from_error e')"
  by (cases "f (sv_store sv)"; cases "snd (f (sv_store sv))") (auto simp: on_store_def)

lemmas handler_simps = try_on_eq_Inr try_on_eq_Inl bind_on_eq_Inr bind_on_eq_Inl on_store_eq_Inr on_store_eq_Inl

text \<open>A request leaves the server alone or performs one store call on the server's own node.\<close>

definition rpc_effect :: "'s service \<Rightarrow> call_env \<Rightarrow> 's server \<Rightarrow> 's server \<Rightarrow> bool" where
  "rpc_effect svc w sv sv' \<longleftrightarrow>
     (\<exists>c r. owned_call (svc_node svc) c \<and> valid_call w c
        \<and> perform (svc_store svc) w c (sv_store sv) = (sv_store sv', Inr r)
        \<and> sv_published sv' = sv_published sv @ announced r)"

lemma outcome_cases:
  assumes "\<And>t' a. f = (t', Inr a) \<Longrightarrow> P t t'" "\<And>t' e. f = (t', Inl e) \<Longrightarrow> t' = t"
  shows "fst f = t \<or> P t (fst f)"
  using assms by (cases f; cases "snd f") auto

lemma rpc_effectI:
  "perform (svc_store svc) w c (sv_store sv) = (sv_store sv', Inr r) \<Longrightarrow>
   sv_published sv' = sv_published sv @ announced r \<Longrightarrow> owned_call (svc_node svc) c \<Longrightarrow> valid_call w c \<Longrightarrow>
   rpc_effect svc w sv sv'"
  by (auto simp: rpc_effect_def)

context msgbus_contract
begin

lemma publish_err:
  assumes [simp]: "svc_store svc = st" and "srv_publish svc w r sv = (sv', Inl e)"
  shows "sv' = sv"
  using assms(2) by (auto simp: srv_publish_def Let_def handler_simps dest: append_err)

lemma delete_range_err:
  assumes [simp]: "svc_store svc = st" and "srv_delete_range svc w r sv = (sv', Inl e)"
  shows "sv' = sv"
  using assms(2) by (auto simp: srv_delete_range_def handler_simps split: prod.splits dest: marker_err)

lemma enqueue_fifo_err:
  assumes [simp]: "svc_store svc = st" and "srv_enqueue_fifo svc w r sv = (sv', Inl e)"
  shows "sv' = sv"
  using assms(2) by (auto simp: srv_enqueue_fifo_def handler_simps dest: enqueue_err)

lemma ack_fifo_err:
  assumes [simp]: "svc_store svc = st" and "srv_ack_fifo svc w r sv = (sv', Inl e)"
  shows "sv' = sv"
  using assms(2) by (auto simp: srv_ack_fifo_def handler_simps split: prod.splits dest!: ack_err)

lemma reject_fifo_err:
  assumes [simp]: "svc_store svc = st" and "srv_reject_fifo svc w r sv = (sv', Inl e)"
  shows "sv' = sv"
  using assms(2) by (auto simp: srv_reject_fifo_def handler_simps split: prod.splits dest!: reject_err)

lemma publish_perform:
  assumes "srv_publish svc w r sv = (sv', Inr a)" and [simp]: "svc_store svc = st"
  obtains m where "perform st w (AppendMessage (new_message_new (uuid w) (Topic (pr_topic r)) (svc_node svc) (pr_payload r) (pr_headers r)))
      (sv_store sv) = (sv_store sv', Inr (RMessage m))" "sv_published sv' = sv_published sv @ [m]"
    "a = Some (proto_message m)" "valid_part (pr_topic r)" "pr_topic r \<noteq> delete_topic"
  using assms(1) by (auto simp: srv_publish_def Let_def handler_simps send_def map_ok_def dest!: owned_origin_Inr)

lemma delete_range_perform:
  assumes "srv_delete_range svc w r sv = (sv', Inr c)" and [simp]: "svc_store svc = st"
  obtains m where "perform st w (TombstoneRangeWithMarker (Topic (dr_topic r)) (svc_node svc) (dr_from_head_id r) (dr_to_head_id r)
      (Topic delete_topic) (svc_node svc)) (sv_store sv) = (sv_store sv', Inr (RMarked c m))"
    "sv_published sv' = sv_published sv @ [m]" "valid_part (dr_topic r)" "dr_topic r \<noteq> delete_topic"
  using assms(1) by (auto simp: srv_delete_range_def handler_simps send_def map_ok_def split: prod.splits dest!: owned_origin_Inr)

lemma enqueue_fifo_perform:
  assumes "srv_enqueue_fifo svc w r sv = (sv', Inr a)" and [simp]: "svc_store svc = st"
  obtains m target where "perform st w (EnqueueFifo (new_fifo_message_new (uuid w) (QueueName (er_queue r)) (Topic (er_topic r))
      (svc_node svc) target (er_payload r) (er_headers r))) (sv_store sv) = (sv_store sv', Inr (RFifo m))"
    "sv_published sv' = sv_published sv" "a = Some (proto_fifo m)" "valid_part (er_queue r)" "valid_part (er_topic r)"
    "er_topic r \<noteq> delete_topic"
proof -
  from assms(1) obtain target m s where "st_enqueue_fifo st w (new_fifo_message_new (uuid w) (QueueName (er_queue r))
      (Topic (er_topic r)) (svc_node svc) target (er_payload r) (er_headers r)) (sv_store sv) = (s, Inr m)"
    "sv' = sv\<lparr>sv_store := s\<rparr>" "a = Some (proto_fifo m)" "valid_part (er_queue r)" "valid_part (er_topic r)"
    "er_topic r \<noteq> delete_topic"
    by (auto simp: srv_enqueue_fifo_def handler_simps dest!: owned_origin_Inr)
  then show thesis by (intro that [of target m]) (simp_all add: map_ok_def)
qed

lemma ack_fifo_perform:
  assumes "srv_ack_fifo svc w r sv = (sv', Inr d)" and [simp]: "svc_store svc = st"
  obtains q i where "perform st w (AckFifo q i) (sv_store sv) = (sv_store sv', Inr (RFlag d))"
    "sv_published sv' = sv_published sv" "fifo_ack_parts r = Inr (q, i)"
proof -
  from assms(1) obtain q i s where "st_ack_fifo st w q i (sv_store sv) = (s, Inr d)"
    "sv' = sv\<lparr>sv_store := s\<rparr>" "fifo_ack_parts r = Inr (q, i)"
    by (auto simp: srv_ack_fifo_def handler_simps split: prod.splits)
  then show thesis by (intro that) (simp_all add: map_ok_def)
qed

lemma reject_fifo_perform:
  assumes "srv_reject_fifo svc w r sv = (sv', Inr d)" and [simp]: "svc_store svc = st"
  obtains q i where "perform st w (RejectFifo q i) (sv_store sv) = (sv_store sv', Inr (RFlag d))"
    "sv_published sv' = sv_published sv" "reject_fifo_parts r = Inr (q, i)"
proof -
  from assms(1) obtain q i s where "st_reject_fifo st w q i (sv_store sv) = (s, Inr d)"
    "sv' = sv\<lparr>sv_store := s\<rparr>" "reject_fifo_parts r = Inr (q, i)"
    by (auto simp: srv_reject_fifo_def handler_simps split: prod.splits)
  then show thesis by (intro that) (simp_all add: map_ok_def)
qed

lemma after_rpc_effect:
  assumes svc: "svc_store svc = st" and uuid: "valid_part (uuid w)"
  shows "after_rpc svc w c sv = sv \<or> rpc_effect svc w sv (after_rpc svc w c sv)"
proof (cases c)
  case (PublishCall r)
  have "rpc_effect svc w sv sv'" if "srv_publish svc w r sv = (sv', Inr a)" for sv' a
    by (rule publish_perform [OF that svc], erule rpc_effectI [of svc, unfolded svc])
      (use uuid in \<open>simp_all add: valid_new_def new_message_new_def message_id_new_def\<close>)
  moreover have "sv' = sv" if "srv_publish svc w r sv = (sv', Inl e)" for sv' e
    using that by (rule publish_err [OF svc])
  ultimately show ?thesis unfolding PublishCall after_rpc.simps by (rule outcome_cases)
next
  case (DeleteRangeCall r)
  have "rpc_effect svc w sv sv'" if "srv_delete_range svc w r sv = (sv', Inr a)" for sv' a
    by (rule delete_range_perform [OF that svc], erule rpc_effectI [of svc, unfolded svc])
      (use uuid in \<open>simp_all\<close>)
  moreover have "sv' = sv" if "srv_delete_range svc w r sv = (sv', Inl e)" for sv' e
    using that by (rule delete_range_err [OF svc])
  ultimately show ?thesis unfolding DeleteRangeCall after_rpc.simps by (rule outcome_cases)
next
  case (EnqueueFifoCall r)
  have "rpc_effect svc w sv sv'" if "srv_enqueue_fifo svc w r sv = (sv', Inr a)" for sv' a
    by (rule enqueue_fifo_perform [OF that svc], erule rpc_effectI [of svc, unfolded svc])
      (use uuid in \<open>simp_all add: valid_fifo_def new_fifo_message_new_def message_id_new_def\<close>)
  moreover have "sv' = sv" if "srv_enqueue_fifo svc w r sv = (sv', Inl e)" for sv' e
    using that by (rule enqueue_fifo_err [OF svc])
  ultimately show ?thesis unfolding EnqueueFifoCall after_rpc.simps by (rule outcome_cases)
next
  case (AckFifoCall r)
  have "rpc_effect svc w sv sv'" if "srv_ack_fifo svc w r sv = (sv', Inr a)" for sv' a
    by (rule ack_fifo_perform [OF that svc], erule rpc_effectI [of svc, unfolded svc])
      (use uuid in \<open>simp_all\<close>)
  moreover have "sv' = sv" if "srv_ack_fifo svc w r sv = (sv', Inl e)" for sv' e
    using that by (rule ack_fifo_err [OF svc])
  ultimately show ?thesis unfolding AckFifoCall after_rpc.simps by (rule outcome_cases)
next
  case (RejectFifoCall r)
  have "rpc_effect svc w sv sv'" if "srv_reject_fifo svc w r sv = (sv', Inr a)" for sv' a
    by (rule reject_fifo_perform [OF that svc], erule rpc_effectI [of svc, unfolded svc])
      (use uuid in \<open>simp_all\<close>)
  moreover have "sv' = sv" if "srv_reject_fifo svc w r sv = (sv', Inl e)" for sv' e
    using that by (rule reject_fifo_err [OF svc])
  ultimately show ?thesis unfolding RejectFifoCall after_rpc.simps by (rule outcome_cases)
qed simp_all

lemma rpc_step:
  assumes svc: "svc_store svc = st" and uuid: "valid_part (uuid w)" and inv: "inv (sv_store sv)"
    and room: "\<And>l. head_of (view (sv_store sv)) l \<noteq> - 1" and "sv' = after_rpc svc w c sv"
  shows "inv (sv_store sv')" "extends (view (sv_store sv)) (view (sv_store sv'))"
    "unat (head_of (view (sv_store sv')) l) \<le> Suc (unat (head_of (view (sv_store sv)) l))"
    "snd l \<noteq> node_key (svc_node svc) \<Longrightarrow> untouched l (view (sv_store sv)) (view (sv_store sv'))"
    "all_stored (view (sv_store sv)) (sv_published sv) \<Longrightarrow> all_stored (view (sv_store sv')) (sv_published sv')"
proof -
  consider "sv' = sv" | (effect) d r where "owned_call (svc_node svc) d" "valid_call w d"
      "perform st w d (sv_store sv) = (sv_store sv', Inr r)" "sv_published sv' = sv_published sv @ announced r"
    using after_rpc_effect [OF svc uuid, of c sv] assms(5) by (auto simp: rpc_effect_def svc)
  then have "inv (sv_store sv') \<and> extends (view (sv_store sv)) (view (sv_store sv'))
    \<and> unat (head_of (view (sv_store sv')) l) \<le> Suc (unat (head_of (view (sv_store sv)) l))
    \<and> (snd l \<noteq> node_key (svc_node svc) \<longrightarrow> untouched l (view (sv_store sv)) (view (sv_store sv')))
    \<and> (all_stored (view (sv_store sv)) (sv_published sv) \<longrightarrow> all_stored (view (sv_store sv')) (sv_published sv'))"
  proof cases
    case effect
    from perform_ok [OF inv effect(2,3)]
    have inv': "inv (sv_store sv')" and call: "spec_call encode_tombstone w d (view (sv_store sv)) r (view (sv_store sv'))"
      by auto
    have ext: "extends (view (sv_store sv)) (view (sv_store sv'))"
      by (rule spec_call_extends [OF inv_wf [OF inv] room call])
    have "all_stored (view (sv_store sv')) (announced r)"
      using announced_stored [OF effect(1) call] by (auto simp: all_stored_def)
    then show ?thesis
      using inv' ext spec_call_growth [OF call] owned_call_untouched [OF effect(1) call] all_stored_extends [OF _ ext]
      by (auto simp: effect(4) all_stored_def)
  qed (use inv in \<open>auto simp: untouched_def\<close>)
  then show "inv (sv_store sv')" "extends (view (sv_store sv)) (view (sv_store sv'))"
    "unat (head_of (view (sv_store sv')) l) \<le> Suc (unat (head_of (view (sv_store sv)) l))"
    "snd l \<noteq> node_key (svc_node svc) \<Longrightarrow> untouched l (view (sv_store sv)) (view (sv_store sv'))"
    "all_stored (view (sv_store sv)) (sv_published sv) \<Longrightarrow> all_stored (view (sv_store sv')) (sv_published sv')"
    by blast+
qed

lemma rpc_run:
  assumes svc: "svc_store svc = st"
  shows "list_all (\<lambda>(w, c). valid_part (uuid w)) cs \<Longrightarrow> inv (sv_store sv) \<Longrightarrow>
    \<forall>l. unat (head_of (view (sv_store sv)) l) + length cs < 2 ^ 64 \<Longrightarrow> all_stored (view (sv_store sv)) (sv_published sv) \<Longrightarrow>
    sv' = after_rpcs svc cs sv \<Longrightarrow>
    inv (sv_store sv') \<and> extends (view (sv_store sv)) (view (sv_store sv'))
    \<and> all_stored (view (sv_store sv')) (sv_published sv')
    \<and> (\<forall>l. snd l \<noteq> node_key (svc_node svc) \<longrightarrow> untouched l (view (sv_store sv)) (view (sv_store sv')))"
proof (induction cs arbitrary: sv)
  case (Cons wc cs)
  obtain w c where wc: "wc = (w, c)" by force
  let ?sv = "after_rpc svc w c sv"
  have uuid: "valid_part (uuid w)" using Cons.prems(1) wc by simp
  have room: "head_of (view (sv_store sv)) l \<noteq> - 1" for l
    using Cons.prems(3) by (auto simp: unsigned_minus_1_eq_mask mask_eq_exp_minus_1 dest: spec [of _ l])
  note step = rpc_step [OF svc uuid Cons.prems(2) room refl, where c = c]
  have small: "\<forall>l. unat (head_of (view (sv_store ?sv)) l) + length cs < 2 ^ 64"
  proof
    fix l show "unat (head_of (view (sv_store ?sv)) l) + length cs < 2 ^ 64"
      using step(3) [of l] Cons.prems(3) by (auto dest: spec [of _ l])
  qed
  have "sv' = after_rpcs svc cs ?sv" using Cons.prems(5) wc by simp
  with Cons.IH [OF _ step(1) small step(5) [OF Cons.prems(4)]] Cons.prems(1)
  have ih: "inv (sv_store sv') \<and> extends (view (sv_store ?sv)) (view (sv_store sv'))
    \<and> all_stored (view (sv_store sv')) (sv_published sv')
    \<and> (\<forall>l. snd l \<noteq> node_key (svc_node svc) \<longrightarrow> untouched l (view (sv_store ?sv)) (view (sv_store sv')))" by simp
  then have "extends (view (sv_store sv)) (view (sv_store sv'))" using extends_trans [OF step(2)] by blast
  moreover have "untouched l (view (sv_store sv)) (view (sv_store sv'))" if "snd l \<noteq> node_key (svc_node svc)" for l
    using ih that untouched_trans [OF step(4) [OF that]] by blast
  ultimately show ?case using ih by blast
qed (simp add: untouched_def)

end

end
