(* ===== verification/Subscription.thy ===== *)
theory Subscription
  imports Server_Laws
begin

text \<open>
  Live subscriptions: the task that \<open>subscribe\<close> in \<open>crates/msgbus-server/src/lib.rs\<close> spawns, and how it
  interleaves with requests. The broadcast channel is its history, so a receiver is a position in
  it; a receiver that is more than the capacity behind gets the lag error. The text of that error
  belongs to the channel library and is an argument.

  Two ways of running are modelled. \<open>sys_step\<close> is the fine-grained relation: appending to the store
  and broadcasting are separate steps of concurrent requests, and so are taking the position and
  reading the replay. \<open>serial_run\<close> runs whole handlers one after the other.
\<close>

declare split_paired_All [simp del] split_paired_Ex [simp del]

section \<open>The subscription task\<close>

record subscription =
  sub_topic :: topic
  sub_origin :: node_id
  sub_last_sent :: u64
  sub_replay :: "stored_message list"
  sub_position :: nat
  sub_sent :: "subscribe_response rpc list"
  sub_open :: bool

definition spawn_subscription :: "subscription_start \<Rightarrow> subscription" where
  "spawn_subscription ss =
     \<lparr>sub_topic = ss_topic ss, sub_origin = ss_origin ss,
      sub_last_sent = saturating_sub (ss_from_head_id ss) 1, sub_replay = ss_replay ss,
      sub_position = ss_position ss, sub_sent = [], sub_open = True\<rparr>"

definition tx_send :: "subscribe_response rpc \<Rightarrow> subscription \<Rightarrow> subscription" where
  "tx_send item sub = sub\<lparr>sub_sent := sub_sent sub @ [item]\<rparr>"

text \<open>One round of the replay loop or of the live loop; waiting for a broadcast changes nothing.\<close>

definition sub_round :: "(nat \<Rightarrow> string) \<Rightarrow> stored_message list \<Rightarrow> subscription \<Rightarrow> subscription" where
  "sub_round lag_text published sub =
     (if \<not> sub_open sub then sub
      else case sub_replay sub of
        message # replay \<Rightarrow>
          tx_send (Inr (Some (proto_message message)))
            (sub\<lparr>sub_last_sent := max (sub_last_sent sub) (sm_head_id message), sub_replay := replay\<rparr>)
      | [] \<Rightarrow>
          (if length published \<le> sub_position sub then sub
           else if published_capacity < length published - sub_position sub then
             (tx_send (Inl (status Unavailable (''subscription lagged: ''
                 @ lag_text (length published - sub_position sub - published_capacity)))) sub)
               \<lparr>sub_open := False\<rparr>
           else
             let message = published ! sub_position sub; sub = sub\<lparr>sub_position := Suc (sub_position sub)\<rparr> in
             if sm_topic message = sub_topic sub \<and> sm_origin message = sub_origin sub
                  \<and> sub_last_sent sub < sm_head_id message
             then tx_send (Inr (Some (proto_message message))) (sub\<lparr>sub_last_sent := sm_head_id message\<rparr>)
             else sub))"

text \<open>\<open>tx.send\<close> fails once the client has gone: the task returns.\<close>

definition sub_disconnect :: "subscription \<Rightarrow> subscription" where
  "sub_disconnect sub = sub\<lparr>sub_open := False\<rparr>"

fun envelopes :: "subscribe_response rpc list \<Rightarrow> message_envelope list" where
  "envelopes [] = []"
| "envelopes (Inr (Some e) # xs) = e # envelopes xs"
| "envelopes (_ # xs) = envelopes xs"

definition delivered :: "subscription \<Rightarrow> u64 list" where
  "delivered sub = map me_head_id (envelopes (sub_sent sub))"

lemma envelopes_append [simp]: "envelopes (xs @ ys) = envelopes xs @ envelopes ys"
  by (induction xs rule: envelopes.induct) auto

section \<open>Concurrent requests\<close>

text \<open>
  A broadcast that a finished store call still owes: the stored message for a publish, the marker for
  a delete, and for a replicated message the copy the peer sent, if it was new.
\<close>

fun owed :: "store_call \<Rightarrow> reply \<Rightarrow> stored_message list" where
  "owed (PutReplicatedMessage m) (RReplicated Inserted) = [m]"
| "owed c r = announced r"

datatype sub_phase =
    Idle
  | Positioned fetch_query nat
  | Running subscription

record 's system =
  sys_store :: 's
  sys_inflight :: "stored_message list"
  sys_published :: "stored_message list"
  sys_sub :: sub_phase

inductive sys_step :: "(nat \<Rightarrow> string) \<Rightarrow> 's service \<Rightarrow> 's system \<Rightarrow> 's system \<Rightarrow> bool" for lag_text svc where
  store_call: "valid_call w c \<Longrightarrow> perform (svc_store svc) w c (sys_store y) = (s', Inr r) \<Longrightarrow>
    sys_step lag_text svc y (y\<lparr>sys_store := s', sys_inflight := sys_inflight y @ owed c r\<rparr>)"
| broadcast: "sys_inflight y = xs @ m # zs \<Longrightarrow>
    sys_step lag_text svc y (y\<lparr>sys_inflight := xs @ zs, sys_published := sys_published y @ [m]\<rparr>)"
| position: "sys_sub y = Idle \<Longrightarrow> subscribe_query svc request = Inr q \<Longrightarrow>
    sys_step lag_text svc y (y\<lparr>sys_sub := Positioned q (length (sys_published y))\<rparr>)"
| replay: "sys_sub y = Positioned q n \<Longrightarrow> st_fetch_messages (svc_store svc) w q (sys_store y) = Inr ms \<Longrightarrow>
    sys_step lag_text svc y (y\<lparr>sys_sub := Running (spawn_subscription
      \<lparr>ss_topic = fq_topic q, ss_origin = fq_origin q, ss_from_head_id = fq_from_head_id q,
       ss_position = n, ss_replay = ms\<rparr>)\<rparr>)"
| round: "sys_sub y = Running sub \<Longrightarrow>
    sys_step lag_text svc y (y\<lparr>sys_sub := Running (sub_round lag_text (sys_published y) sub)\<rparr>)"
| disconnect: "sys_sub y = Running sub \<Longrightarrow>
    sys_step lag_text svc y (y\<lparr>sys_sub := Running (sub_disconnect sub)\<rparr>)"

definition sys_init :: "'s \<Rightarrow> 's system" where
  "sys_init s = \<lparr>sys_store = s, sys_inflight = [], sys_published = [], sys_sub = Idle\<rparr>"

text \<open>
  The relation as an interpreter: an event picks the rule and what it leaves open, and the step
  happens if the rule applies. \<open>BroadcastEvent k\<close> sends the \<open>k\<close>-th pending broadcast.
\<close>

datatype sys_event =
    StoreEvent call_env store_call
  | BroadcastEvent nat
  | SubscribeEvent subscribe_request
  | ReplayEvent call_env
  | RoundEvent
  | DisconnectEvent

fun sys_exec :: "(nat \<Rightarrow> string) \<Rightarrow> 's service \<Rightarrow> sys_event \<Rightarrow> 's system \<Rightarrow> 's system option" where
  "sys_exec lag_text svc (StoreEvent w c) y =
     (if valid_call w c then
        (case perform (svc_store svc) w c (sys_store y) of
           (s', Inr r) \<Rightarrow> Some (y\<lparr>sys_store := s', sys_inflight := sys_inflight y @ owed c r\<rparr>)
         | (_, Inl e) \<Rightarrow> None)
      else None)"
| "sys_exec lag_text svc (BroadcastEvent k) y =
     (if k < length (sys_inflight y)
      then Some (y\<lparr>sys_inflight := take k (sys_inflight y) @ drop (Suc k) (sys_inflight y),
                   sys_published := sys_published y @ [sys_inflight y ! k]\<rparr>)
      else None)"
| "sys_exec lag_text svc (SubscribeEvent request) y =
     (case (sys_sub y, subscribe_query svc request) of
        (Idle, Inr q) \<Rightarrow> Some (y\<lparr>sys_sub := Positioned q (length (sys_published y))\<rparr>)
      | _ \<Rightarrow> None)"
| "sys_exec lag_text svc (ReplayEvent w) y =
     (case sys_sub y of
        Positioned q n \<Rightarrow>
          (case st_fetch_messages (svc_store svc) w q (sys_store y) of
             Inr ms \<Rightarrow> Some (y\<lparr>sys_sub := Running (spawn_subscription
                \<lparr>ss_topic = fq_topic q, ss_origin = fq_origin q, ss_from_head_id = fq_from_head_id q,
                 ss_position = n, ss_replay = ms\<rparr>)\<rparr>)
           | Inl e \<Rightarrow> None)
      | _ \<Rightarrow> None)"
| "sys_exec lag_text svc RoundEvent y =
     (case sys_sub y of
        Running sub \<Rightarrow> Some (y\<lparr>sys_sub := Running (sub_round lag_text (sys_published y) sub)\<rparr>)
      | _ \<Rightarrow> None)"
| "sys_exec lag_text svc DisconnectEvent y =
     (case sys_sub y of Running sub \<Rightarrow> Some (y\<lparr>sys_sub := Running (sub_disconnect sub)\<rparr>) | _ \<Rightarrow> None)"

fun sys_exec_all :: "(nat \<Rightarrow> string) \<Rightarrow> 's service \<Rightarrow> sys_event list \<Rightarrow> 's system \<Rightarrow> 's system option" where
  "sys_exec_all lag_text svc [] y = Some y"
| "sys_exec_all lag_text svc (e # es) y = Option.bind (sys_exec lag_text svc e y) (sys_exec_all lag_text svc es)"

lemma sys_exec_step: "sys_exec lag_text svc e y = Some y' \<Longrightarrow> sys_step lag_text svc y y'"
proof (cases e)
  case (BroadcastEvent k)
  assume "sys_exec lag_text svc e y = Some y'"
  with BroadcastEvent have k: "k < length (sys_inflight y)" "y' = y\<lparr>sys_inflight := take k (sys_inflight y) @ drop (Suc k) (sys_inflight y),
      sys_published := sys_published y @ [sys_inflight y ! k]\<rparr>" by (auto split: if_splits)
  show ?thesis unfolding k(2) by (rule sys_step.broadcast [OF id_take_nth_drop [OF k(1)]])
qed (auto split: if_splits prod.splits sum.splits sub_phase.splits intro: sys_step.intros)

lemma sys_exec_all_reachable:
  "sys_exec_all lag_text svc es y = Some y' \<Longrightarrow> (sys_step lag_text svc)\<^sup>*\<^sup>* y y'"
  by (induction es arbitrary: y)
    (auto simp: Option.bind_eq_Some_conv dest!: sys_exec_step intro: converse_rtranclp_into_rtranclp)

section \<open>Deliveries are ordered\<close>

text \<open>
  What has been sent and what is left of the replay form one strictly increasing sequence of heads
  of the subscribed log, none of it before the requested head.
\<close>

definition in_log :: "subscription \<Rightarrow> message_envelope \<Rightarrow> bool" where
  "in_log sub e \<longleftrightarrow> (\<exists>m. e = proto_message m \<and> message_log m = log_of (sub_topic sub) (sub_origin sub))"

definition ordered_sub :: "subscription \<Rightarrow> bool" where
  "ordered_sub sub \<longleftrightarrow>
     sorted_wrt (<) (delivered sub @ map sm_head_id (sub_replay sub))
     \<and> (\<forall>h \<in> set (delivered sub). h \<le> sub_last_sent sub)
     \<and> (\<forall>m \<in> set (sub_replay sub). sub_last_sent sub < sm_head_id m
           \<and> message_log m = log_of (sub_topic sub) (sub_origin sub))
     \<and> (\<forall>e \<in> set (envelopes (sub_sent sub)). in_log sub e)"

lemma tx_send_simps [simp]:
  "sub_topic (tx_send x sub) = sub_topic sub" "sub_origin (tx_send x sub) = sub_origin sub"
  "sub_last_sent (tx_send x sub) = sub_last_sent sub" "sub_replay (tx_send x sub) = sub_replay sub"
  "sub_position (tx_send x sub) = sub_position sub" "sub_open (tx_send x sub) = sub_open sub"
  "sub_sent (tx_send x sub) = sub_sent sub @ [x]"
  by (simp_all add: tx_send_def)

lemma me_head_id_proto [simp]: "me_head_id (proto_message m) = sm_head_id m"
  by (simp add: proto_message_def)

lemma sub_round_cases:
  obtains (same) "sub_round lag_text ms sub = sub"
  | (replay) m ms' where "sub_open sub" "sub_replay sub = m # ms'" "sub_round lag_text ms sub =
      tx_send (Inr (Some (proto_message m))) (sub\<lparr>sub_last_sent := max (sub_last_sent sub) (sm_head_id m), sub_replay := ms'\<rparr>)"
  | (lagged) e where "sub_open sub" "sub_replay sub = []" "sub_round lag_text ms sub = (tx_send (Inl e) sub)\<lparr>sub_open := False\<rparr>"
  | (live) m where "sub_open sub" "sub_replay sub = []" "sub_position sub < length ms" "m = ms ! sub_position sub"
      "sm_topic m = sub_topic sub" "sm_origin m = sub_origin sub" "sub_last_sent sub < sm_head_id m"
      "sub_round lag_text ms sub = tx_send (Inr (Some (proto_message m)))
         (sub\<lparr>sub_position := Suc (sub_position sub), sub_last_sent := sm_head_id m\<rparr>)"
  | (skipped) m where "sub_open sub" "sub_replay sub = []" "sub_position sub < length ms" "m = ms ! sub_position sub"
      "\<not> (sm_topic m = sub_topic sub \<and> sm_origin m = sub_origin sub \<and> sub_last_sent sub < sm_head_id m)"
      "sub_round lag_text ms sub = sub\<lparr>sub_position := Suc (sub_position sub)\<rparr>"
proof (cases "sub_open sub")
  case True
  show thesis
  proof (cases "sub_replay sub")
    case Nil
    let ?n = "length ms - sub_position sub" and ?m = "ms ! sub_position sub"
    consider "length ms \<le> sub_position sub" | "sub_position sub < length ms" "published_capacity < ?n"
      | "sub_position sub < length ms" "\<not> published_capacity < ?n"
      by linarith
    then show thesis
    proof cases
      case 1
      with True Nil show thesis by (intro same) (simp add: sub_round_def)
    next
      case 2
      with True Nil show thesis by (intro lagged) (simp_all add: sub_round_def)
    next
      case 3
      show thesis
      proof (cases "sm_topic ?m = sub_topic sub \<and> sm_origin ?m = sub_origin sub \<and> sub_last_sent sub < sm_head_id ?m")
        case match: True
        with True Nil 3 show thesis by (intro live [OF _ _ _ refl]) (simp_all add: sub_round_def Let_def)
      next
        case False
        with True Nil 3 show thesis by (intro skipped [OF _ _ _ refl]) (auto simp: sub_round_def Let_def)
      qed
    qed
  next
    case (Cons m ms')
    with True show thesis by (intro replay) (simp_all add: sub_round_def)
  qed
qed (use same in \<open>simp add: sub_round_def\<close>)

lemma sub_round_ordered:
  assumes "ordered_sub sub"
  shows "ordered_sub (sub_round lag_text ms sub)"
proof (rule sub_round_cases [of lag_text ms sub])
  fix m ms'
  assume "sub_replay sub = m # ms'" "sub_round lag_text ms sub =
    tx_send (Inr (Some (proto_message m))) (sub\<lparr>sub_last_sent := max (sub_last_sent sub) (sm_head_id m), sub_replay := ms'\<rparr>)"
  with assms show ?thesis
    by (auto simp: ordered_sub_def delivered_def in_log_def sorted_wrt_append max_def less_imp_le)
next
  fix m
  assume live: "sub_replay sub = []" "sm_topic m = sub_topic sub" "sm_origin m = sub_origin sub" "sub_last_sent sub < sm_head_id m"
    "sub_round lag_text ms sub = tx_send (Inr (Some (proto_message m)))
       (sub\<lparr>sub_position := Suc (sub_position sub), sub_last_sent := sm_head_id m\<rparr>)"
  then have "in_log (sub_round lag_text ms sub) (proto_message m)" by (auto simp: in_log_def)
  with assms live show ?thesis
    by (auto simp: ordered_sub_def delivered_def in_log_def sorted_wrt_append intro: order_le_less_trans less_imp_le)
qed (use assms in \<open>auto simp: ordered_sub_def delivered_def in_log_def\<close>)

definition sys_ordered :: "('s \<Rightarrow> bool) \<Rightarrow> 's system \<Rightarrow> bool" where
  "sys_ordered I y \<longleftrightarrow> I (sys_store y) \<and>
     (case sys_sub y of
        Idle \<Rightarrow> True
      | Positioned q n \<Rightarrow> fq_from_head_id q \<noteq> 0
      | Running sub \<Rightarrow> ordered_sub sub)"

lemma subscribe_query_from: "subscribe_query svc r = Inr q \<Longrightarrow> fq_from_head_id q \<noteq> 0"
  by (auto simp: subscribe_query_def and_then_eq_Inr max_def split: if_splits)

lemma unat_saturating_sub_1: "a \<noteq> 0 \<Longrightarrow> Suc (unat (saturating_sub a 1)) = unat (a :: u64)"
  by (simp add: saturating_sub_def word_less_1 unat_sub word_le_nat_alt unat_gt_0 Suc_leI)

context msgbus_contract
begin

lemma spawn_ordered:
  assumes "inv s" "st_fetch_messages st w q s = Inr ms" "fq_from_head_id q \<noteq> 0"
  shows "ordered_sub (spawn_subscription \<lparr>ss_topic = fq_topic q, ss_origin = fq_origin q,
    ss_from_head_id = fq_from_head_id q, ss_position = n, ss_replay = ms\<rparr>)"
proof -
  note wf = inv_wf [OF assms(1)]
  let ?l = "log_of (fq_topic q) (fq_origin q)"
  have ms: "ms = spec_fetch (view s) ?l (fq_from_head_id q) (fq_limit q)" by (rule fetch_ok [OF assms(1,2)])
  have "sorted_wrt (<) (map (\<lambda>m. unat (sm_head_id m)) ms)"
    unfolding ms spec_fetch_heads [OF wf] by (rule sorted_wrt_take [OF sorted_wrt_upt])
  then have "sorted_wrt (<) (map sm_head_id ms)" by (simp add: sorted_wrt_map word_less_nat_alt)
  moreover have "saturating_sub (fq_from_head_id q) 1 < sm_head_id m \<and> message_log m = ?l" if "m \<in> set ms" for m
  proof -
    have "fq_from_head_id q \<le> sm_head_id m" "message_log m = ?l"
      using spec_fetch_stored [OF wf] that unfolding ms by blast+
    then show ?thesis using unat_saturating_sub_1 [OF assms(3)] by (simp add: word_less_nat_alt word_le_nat_alt)
  qed
  ultimately show ?thesis by (simp add: ordered_sub_def spawn_subscription_def delivered_def)
qed

lemma sys_step_ordered:
  assumes "sys_step lag_text svc y y'" and svc: "svc_store svc = st" and ordered: "sys_ordered inv y"
  shows "sys_ordered inv y'"
  using assms(1)
proof (cases rule: sys_step.cases)
  case (store_call w c s' r)
  with ordered perform_ok [of "sys_store y" w c s' r] svc show ?thesis by (auto simp: sys_ordered_def)
next
  case (position request q)
  with ordered subscribe_query_from show ?thesis by (auto simp: sys_ordered_def)
next
  case (replay q n w ms)
  with ordered svc spawn_ordered [of "sys_store y" w q ms n] show ?thesis by (auto simp: sys_ordered_def)
next
  case (round sub)
  with ordered sub_round_ordered show ?thesis by (auto simp: sys_ordered_def)
next
  case (disconnect sub)
  with ordered show ?thesis
    by (auto simp: sys_ordered_def ordered_sub_def sub_disconnect_def delivered_def in_log_def)
qed (use ordered in \<open>auto simp: sys_ordered_def\<close>)

lemma reachable_ordered:
  assumes "(sys_step lag_text svc)\<^sup>*\<^sup>* (sys_init s) y" "svc_store svc = st" "inv s"
  shows "sys_ordered inv y"
  using assms(1)
proof (induction rule: rtranclp_induct)
  case base
  with assms(3) show ?case by (simp add: sys_ordered_def sys_init_def)
next
  case (step y z)
  then show ?case using sys_step_ordered [OF _ assms(2)] by blast
qed

end

section \<open>Whole handlers one after the other\<close>

datatype serial_event = Rpc call_env rpc_call | Round

fun serial_run ::
  "(nat \<Rightarrow> string) \<Rightarrow> 's service \<Rightarrow> serial_event list \<Rightarrow> 's server \<times> subscription \<Rightarrow> 's server \<times> subscription" where
  "serial_run lag_text svc [] x = x"
| "serial_run lag_text svc (Rpc w c # es) (sv, sub) = serial_run lag_text svc es (after_rpc svc w c sv, sub)"
| "serial_run lag_text svc (Round # es) (sv, sub) =
     serial_run lag_text svc es (sv, sub_round lag_text (sv_published sv) sub)"

fun rpcs :: "serial_event list \<Rightarrow> (call_env \<times> rpc_call) list" where
  "rpcs [] = []"
| "rpcs (Rpc w c # es) = (w, c) # rpcs es"
| "rpcs (Round # es) = rpcs es"

lemma owned_call_heads:
  assumes "owned_call n c" "spec_call enc w c v r v'"
  shows "announced r = [] \<and> (\<forall>l. head_of v' l = head_of v l)
    \<or> (\<exists>m. announced r = [m] \<and> sm_origin m = n \<and> sm_head_id m = saturating_add (head_of v (message_log m)) 1
          \<and> (\<forall>l. head_of v' l = (if l = message_log m then sm_head_id m else head_of v l)))"
proof -
  have append: "sm_origin (snd (spec_append u m at)) = nm_origin m
      \<and> sm_head_id (snd (spec_append u m at)) = saturating_add (head_of u (log_of (nm_topic m) (nm_origin m))) 1
      \<and> sm_topic (snd (spec_append u m at)) = nm_topic m
      \<and> (\<forall>l. head_of (fst (spec_append u m at)) l = (if l = log_of (nm_topic m) (nm_origin m)
            then saturating_add (head_of u (log_of (nm_topic m) (nm_origin m))) 1 else head_of u l))" for u m at
    by (simp add: spec_append_def Let_def head_of_def)
  show ?thesis
  proof (cases c)
    case (AppendMessage m)
    with assms append [of v m "now w 0"] show ?thesis by auto
  next
    case (TombstoneRangeWithMarker t o' a b mt mn)
    with assms obtain payload k where eq: "v' = fst (spec_append (fst (spec_tombstone v (log_of t o') a b))
        (new_message_new (uuid w) mt mn payload fmempty) (now w 1))"
      "r = RMarked k (snd (spec_append (fst (spec_tombstone v (log_of t o') a b))
        (new_message_new (uuid w) mt mn payload fmempty) (now w 1)))"
      by (auto simp: spec_marker_def split: sum.splits prod.splits) (metis fst_conv snd_conv)
    have "head_of (fst (spec_tombstone v (log_of t o') a b)) l = head_of v l" for l
      by (simp add: spec_tombstone_def)
    then show ?thesis
      using append [of "fst (spec_tombstone v (log_of t o') a b)" "new_message_new (uuid w) mt mn payload fmempty" "now w 1"]
        assms(1) TombstoneRangeWithMarker by (simp add: eq new_message_new_def)
  qed (use assms in \<open>auto simp: spec_enqueue_def spec_ack_def spec_reject_def Let_def split: option.splits if_splits\<close>)
qed

text \<open>
  The subscriber of the server's own log. Sent and replayed heads are the log from the requested
  head on up to some head, and the broadcasts it has not read yet are the rest.
\<close>

definition matching :: "subscription \<Rightarrow> stored_message \<Rightarrow> bool" where
  "matching sub m \<longleftrightarrow> sm_topic m = sub_topic sub \<and> sm_origin m = sub_origin sub"

definition complete_sub :: "nat \<Rightarrow> nat \<Rightarrow> stored_message list \<Rightarrow> subscription \<Rightarrow> bool" where
  "complete_sub a last_head ms sub \<longleftrightarrow>
     (\<exists>b \<ge> 1. b \<le> Suc last_head
       \<and> map unat (delivered sub) @ map (\<lambda>m. unat (sm_head_id m)) (sub_replay sub) = [a..<max a b]
       \<and> map (\<lambda>m. unat (sm_head_id m)) (filter (matching sub) (drop (sub_position sub) ms)) = [b..<Suc last_head]
       \<and> Suc (unat (sub_last_sent sub)) = a + length (delivered sub) \<and> sub_position sub \<le> length ms)"

lemma upt_eq_snoc_iff: "xs @ x # ys = [a..<b] \<Longrightarrow> x = a + length xs"
proof -
  assume eq: "xs @ x # ys = [a..<b]"
  then have "length xs < length [a..<b]" by (metis length_append length_Cons less_add_Suc1 add_Suc_right)
  then show ?thesis using arg_cong [OF eq, of "\<lambda>zs. zs ! length xs"] by simp
qed

lemma upt_Cons_eq: "x # xs = [a..<b] \<Longrightarrow> x = a \<and> a < b \<and> xs = [Suc a..<b]"
  by (cases "a < b") (auto simp: upt_conv_Cons)

lemma matching_simps [simp]:
  "matching (tx_send x sub) = matching sub" "matching (sub\<lparr>sub_position := n\<rparr>) = matching sub"
  "matching (sub\<lparr>sub_last_sent := h\<rparr>) = matching sub" "matching (sub\<lparr>sub_replay := ms\<rparr>) = matching sub"
  by (auto simp: matching_def fun_eq_iff)

lemma delivered_simps [simp]:
  "delivered (tx_send (Inr (Some e)) sub) = delivered sub @ [me_head_id e]" "delivered (tx_send (Inl x) sub) = delivered sub"
  "delivered (sub\<lparr>sub_position := n\<rparr>) = delivered sub" "delivered (sub\<lparr>sub_last_sent := h\<rparr>) = delivered sub"
  "delivered (sub\<lparr>sub_replay := ms\<rparr>) = delivered sub" "delivered (sub\<lparr>sub_open := d\<rparr>) = delivered sub"
  by (simp_all add: delivered_def)

lemma complete_replay:
  assumes "complete_sub a last_head ms sub" "sub_replay sub = m # ms'"
  shows "complete_sub a last_head ms (tx_send (Inr (Some (proto_message m)))
    (sub\<lparr>sub_last_sent := max (sub_last_sent sub) (sm_head_id m), sub_replay := ms'\<rparr>))"
proof -
  from assms obtain b where b: "1 \<le> b" "b \<le> Suc last_head"
    "map unat (delivered sub) @ unat (sm_head_id m) # map (\<lambda>m. unat (sm_head_id m)) ms' = [a..<max a b]"
    "map (\<lambda>m. unat (sm_head_id m)) (filter (matching sub) (drop (sub_position sub) ms)) = [b..<Suc last_head]"
    "Suc (unat (sub_last_sent sub)) = a + length (delivered sub)" "sub_position sub \<le> length ms"
    by (auto simp: complete_sub_def)
  have "unat (sm_head_id m) = a + length (delivered sub)" using upt_eq_snoc_iff [OF b(3)] by simp
  moreover from this b(5) have "max (sub_last_sent sub) (sm_head_id m) = sm_head_id m"
    by (simp add: max_def word_le_nat_alt)
  ultimately show ?thesis
    unfolding complete_sub_def using b by (intro exI [of _ b]) simp
qed

lemma complete_live:
  assumes "complete_sub a last_head ms sub" "sub_replay sub = []" "sub_position sub < length ms" "m = ms ! sub_position sub"
    "matching sub m" "sub_last_sent sub < sm_head_id m"
  shows "complete_sub a last_head ms (tx_send (Inr (Some (proto_message m)))
    (sub\<lparr>sub_position := Suc (sub_position sub), sub_last_sent := sm_head_id m\<rparr>))"
proof -
  from assms(1,2) obtain b where b: "1 \<le> b" "b \<le> Suc last_head" "map unat (delivered sub) = [a..<max a b]"
    "map (\<lambda>m. unat (sm_head_id m)) (filter (matching sub) (drop (sub_position sub) ms)) = [b..<Suc last_head]"
    "Suc (unat (sub_last_sent sub)) = a + length (delivered sub)"
    by (auto simp: complete_sub_def)
  have "drop (sub_position sub) ms = m # drop (Suc (sub_position sub)) ms"
    using assms(3,4) by (simp add: Cons_nth_drop_Suc)
  with b(4) assms(5) have m: "unat (sm_head_id m) = b" "b < Suc last_head"
    "map (\<lambda>m. unat (sm_head_id m)) (filter (matching sub) (drop (Suc (sub_position sub)) ms)) = [Suc b..<Suc last_head]"
    using upt_Cons_eq [of "unat (sm_head_id m)" _ b "Suc last_head"] by auto
  have len: "length (delivered sub) = max a b - a" using arg_cong [OF b(3), of length] by simp
  with b(5) m(1) assms(6) have "a \<le> b" by (simp add: word_less_nat_alt max_def split: if_splits)
  with b m len assms(2,3) show ?thesis
    unfolding complete_sub_def by (intro exI [of _ "Suc b"]) (simp add: max_def)
qed

lemma complete_skipped:
  assumes "complete_sub a last_head ms sub" "sub_replay sub = []" "sub_position sub < length ms" "m = ms ! sub_position sub"
    "\<not> (matching sub m \<and> sub_last_sent sub < sm_head_id m)"
  shows "complete_sub a last_head ms (sub\<lparr>sub_position := Suc (sub_position sub)\<rparr>)"
proof -
  from assms(1,2) obtain b where b: "1 \<le> b" "b \<le> Suc last_head" "map unat (delivered sub) = [a..<max a b]"
    "map (\<lambda>m. unat (sm_head_id m)) (filter (matching sub) (drop (sub_position sub) ms)) = [b..<Suc last_head]"
    "Suc (unat (sub_last_sent sub)) = a + length (delivered sub)"
    by (auto simp: complete_sub_def)
  have drop: "drop (sub_position sub) ms = m # drop (Suc (sub_position sub)) ms"
    using assms(3,4) by (simp add: Cons_nth_drop_Suc)
  show ?thesis
  proof (cases "matching sub m")
    case False
    with b drop assms(2,3) show ?thesis unfolding complete_sub_def by (intro exI [of _ b]) simp
  next
    case True
    with b(4) drop have m: "unat (sm_head_id m) = b" "b < Suc last_head"
      "map (\<lambda>m. unat (sm_head_id m)) (filter (matching sub) (drop (Suc (sub_position sub)) ms)) = [Suc b..<Suc last_head]"
      using upt_Cons_eq [of "unat (sm_head_id m)" _ b "Suc last_head"] by auto
    have "length (delivered sub) = max a b - a" using arg_cong [OF b(3), of length] by simp
    with b(5) m(1) assms(5) True have "Suc b \<le> a"
      by (simp add: word_less_nat_alt not_less max_def split: if_splits)
    with b m assms(2,3) show ?thesis
      unfolding complete_sub_def by (intro exI [of _ "Suc b"]) (simp add: max_def)
  qed
qed

lemma sub_round_same [simp]:
  "sub_topic (sub_round lag_text ms sub) = sub_topic sub" "sub_origin (sub_round lag_text ms sub) = sub_origin sub"
  by (auto simp: sub_round_def Let_def split: list.split)

lemma serial_closed:
  "serial_run lag_text svc es (sv, sub) = (sv', sub') \<Longrightarrow> \<not> sub_open sub \<Longrightarrow> \<not> sub_open sub'"
  by (induction lag_text svc es "(sv, sub)" arbitrary: sv sub rule: serial_run.induct) (auto simp: sub_round_def)

lemma complete_round:
  assumes "complete_sub a last_head ms sub" "sub_open (sub_round lag_text ms sub)"
  shows "complete_sub a last_head ms (sub_round lag_text ms sub) \<and> sub_open sub"
proof (rule sub_round_cases [of lag_text ms sub])
  fix m ms'
  assume "sub_open sub" "sub_replay sub = m # ms'" "sub_round lag_text ms sub =
    tx_send (Inr (Some (proto_message m))) (sub\<lparr>sub_last_sent := max (sub_last_sent sub) (sm_head_id m), sub_replay := ms'\<rparr>)"
  with complete_replay [OF assms(1)] show ?thesis by simp
next
  fix m
  assume "sub_open sub" "sub_replay sub = []" "sub_position sub < length ms" "m = ms ! sub_position sub" "sm_topic m = sub_topic sub"
    "sm_origin m = sub_origin sub" "sub_last_sent sub < sm_head_id m"
    "sub_round lag_text ms sub = tx_send (Inr (Some (proto_message m)))
       (sub\<lparr>sub_position := Suc (sub_position sub), sub_last_sent := sm_head_id m\<rparr>)"
  with complete_live [OF assms(1)] show ?thesis by (simp add: matching_def)
next
  fix m
  assume "sub_open sub" "sub_replay sub = []" "sub_position sub < length ms" "m = ms ! sub_position sub"
    "\<not> (sm_topic m = sub_topic sub \<and> sm_origin m = sub_origin sub \<and> sub_last_sent sub < sm_head_id m)"
    "sub_round lag_text ms sub = sub\<lparr>sub_position := Suc (sub_position sub)\<rparr>"
  with complete_skipped [OF assms(1)] show ?thesis by (simp add: matching_def)
qed (use assms in simp_all)

text \<open>
  A task that is never more than the channel's capacity behind stays open, and enough rounds empty its
  replay and take it to the end of the channel.
\<close>

definition backlog :: "stored_message list \<Rightarrow> subscription \<Rightarrow> nat" where
  "backlog ms sub = length ms - sub_position sub"

definition keeping_up :: "stored_message list \<Rightarrow> subscription \<Rightarrow> bool" where
  "keeping_up ms sub \<longleftrightarrow> sub_open sub \<and> sub_position sub \<le> length ms \<and> backlog ms sub \<le> published_capacity"

lemma sub_round_progress:
  assumes "keeping_up ms sub"
  shows "keeping_up ms (sub_round lag_text ms sub)"
    "length (sub_replay (sub_round lag_text ms sub)) + backlog ms (sub_round lag_text ms sub)
       = length (sub_replay sub) + backlog ms sub - 1"
  using assms
  by (auto simp: keeping_up_def backlog_def sub_round_def tx_send_def Let_def split: list.split)

lemma serial_run_append:
  "serial_run lag_text svc (es @ fs) x = serial_run lag_text svc fs (serial_run lag_text svc es x)"
  by (induction lag_text svc es x rule: serial_run.induct) auto

lemma rounds_catch_up:
  "keeping_up (sv_published sv) sub \<Longrightarrow> length (sub_replay sub) + backlog (sv_published sv) sub \<le> n \<Longrightarrow>
   \<exists>sub'. serial_run lag_text svc (replicate n Round) (sv, sub) = (sv, sub') \<and> sub_open sub' \<and> sub_replay sub' = []
     \<and> sub_position sub' = length (sv_published sv)"
proof (induction n arbitrary: sub)
  case 0
  then show ?case by (cases "sub_replay sub") (auto simp: keeping_up_def backlog_def)
next
  case (Suc n)
  note progress = sub_round_progress [OF Suc.prems(1), of lag_text]
  from Suc.IH [OF progress(1)] progress(2) Suc.prems(2) show ?case by simp
qed

lemma rpcs_simps [simp]: "rpcs (es @ fs) = rpcs es @ rpcs fs" "rpcs (replicate n Round) = []"
  by (induction es rule: rpcs.induct, simp_all) (induction n, simp_all)

context msgbus_contract
begin

lemma complete_rpc:
  assumes svc: "svc_store svc = st" and uuid: "valid_part (uuid w)" and inv: "inv (sv_store sv)"
    and room: "\<And>l. head_of (view (sv_store sv)) l \<noteq> - 1" and origin: "sub_origin sub = svc_node svc"
    and l: "l = log_of (sub_topic sub) (svc_node svc)" and sv': "sv' = after_rpc svc w c sv"
    and complete: "complete_sub a (unat (head_of (view (sv_store sv)) l)) (sv_published sv) sub"
  shows "complete_sub a (unat (head_of (view (sv_store sv')) l)) (sv_published sv') sub"
proof -
  consider "sv' = sv" | (effect) d r where "owned_call (svc_node svc) d" "valid_call w d"
      "perform st w d (sv_store sv) = (sv_store sv', Inr r)" "sv_published sv' = sv_published sv @ announced r"
    using after_rpc_effect [OF svc uuid, of c sv] sv' by (auto simp: rpc_effect_def svc)
  then show ?thesis
  proof cases
    case effect
    let ?v = "view (sv_store sv)" and ?v' = "view (sv_store sv')"
    have "spec_call encode_tombstone w d ?v r ?v'" using perform_ok [OF inv effect(2,3)] by simp
    from owned_call_heads [OF effect(1) this]
    consider (none) "announced r = []" "\<forall>l. head_of ?v' l = head_of ?v l"
      | (one) m where "announced r = [m]" "sm_origin m = svc_node svc" "sm_head_id m = saturating_add (head_of ?v (message_log m)) 1"
        "\<forall>l. head_of ?v' l = (if l = message_log m then sm_head_id m else head_of ?v l)"
      by blast
    then show ?thesis
    proof cases
      case none
      with complete effect(4) show ?thesis by simp
    next
      case one
      from complete obtain b where b: "1 \<le> b" "b \<le> Suc (unat (head_of ?v l))"
        "map unat (delivered sub) @ map (\<lambda>m. unat (sm_head_id m)) (sub_replay sub) = [a..<max a b]"
        "map (\<lambda>m. unat (sm_head_id m)) (filter (matching sub) (drop (sub_position sub) (sv_published sv))) = [b..<Suc (unat (head_of ?v l))]"
        "Suc (unat (sub_last_sent sub)) = a + length (delivered sub)" "sub_position sub \<le> length (sv_published sv)"
        by (auto simp: complete_sub_def)
      have m: "matching sub m \<longleftrightarrow> message_log m = l"
        using one(2) origin l by (cases "sm_topic m"; cases "sub_topic sub") (auto simp: matching_def log_of_def)
      have "unat (head_of ?v' l) = (if matching sub m then Suc (unat (head_of ?v l)) else unat (head_of ?v l))"
        using one(3,4) m unat_saturating_add_1 [OF room] by auto
      moreover have "map (\<lambda>m. unat (sm_head_id m)) (filter (matching sub) (drop (sub_position sub) (sv_published sv'))) = [b..<Suc (unat (head_of ?v' l))]"
        using b(2,4,6) one(1,3) m effect(4) calculation unat_saturating_add_1 [OF room, of l] by simp
      ultimately show ?thesis unfolding complete_sub_def using b one(1) effect(4) by (intro exI [of _ b]) auto
    qed
  qed (use complete in simp)
qed

lemma serial_complete:
  assumes svc: "svc_store svc = st"
  shows "list_all (\<lambda>(w, c). valid_part (uuid w)) (rpcs es) \<Longrightarrow> inv (sv_store sv) \<Longrightarrow>
    \<forall>l. unat (head_of (view (sv_store sv)) l) + length (rpcs es) < 2 ^ 64 \<Longrightarrow>
    sub_origin sub = svc_node svc \<Longrightarrow> l = log_of (sub_topic sub) (svc_node svc) \<Longrightarrow>
    complete_sub a (unat (head_of (view (sv_store sv)) l)) (sv_published sv) sub \<Longrightarrow>
    serial_run lag_text svc es (sv, sub) = (sv', sub') \<Longrightarrow> sub_open sub' \<Longrightarrow>
    complete_sub a (unat (head_of (view (sv_store sv')) l)) (sv_published sv') sub'"
proof (induction es arbitrary: sv sub)
  case (Cons e es)
  have size: "unat (head_of (view (sv_store sv)) k) + length (rpcs (e # es)) < 2 ^ 64" for k
    using Cons.prems(3) by (auto dest: spec [of _ k])
  show ?case
  proof (cases e)
    case (Rpc w c)
    have uuid: "valid_part (uuid w)" using Cons.prems(1) Rpc by simp
    have room: "head_of (view (sv_store sv)) k \<noteq> - 1" for k
      using size [of k] Rpc by (auto simp: unsigned_minus_1_eq_mask mask_eq_exp_minus_1)
    note step = rpc_step [OF svc uuid Cons.prems(2) room refl, where c = c]
    have "\<forall>k. unat (head_of (view (sv_store (after_rpc svc w c sv))) k) + length (rpcs es) < 2 ^ 64"
    proof
      fix k show "unat (head_of (view (sv_store (after_rpc svc w c sv))) k) + length (rpcs es) < 2 ^ 64"
        using step(3) [of k] size [of k] Rpc by simp
    qed
    from Cons.IH [OF _ step(1) this Cons.prems(4,5)] complete_rpc [OF svc uuid Cons.prems(2) room Cons.prems(4,5) refl Cons.prems(6)]
    show ?thesis using Cons.prems(1,7,8) Rpc by simp
  next
    case Round
    let ?sub = "sub_round lag_text (sv_published sv) sub"
    have run: "serial_run lag_text svc es (sv, ?sub) = (sv', sub')" using Cons.prems(7) Round by simp
    then have "sub_open ?sub" using serial_closed Cons.prems(8) by blast
    from complete_round [OF Cons.prems(6) this]
    have "complete_sub a (unat (head_of (view (sv_store sv)) l)) (sv_published sv) ?sub" by simp
    from Cons.IH [OF _ Cons.prems(2) _ _ _ this run Cons.prems(8)] show ?thesis
      using Cons.prems(1,3,4,5) Round by simp
  qed
qed simp

text \<open>The replay that \<open>subscribe\<close> reads reaches the head of the log when the page is large enough.\<close>

lemma subscribe_complete:
  assumes "inv (sv_store sv)" "svc_store svc = st" "srv_subscribe svc w request sv = Inr ss"
    and "unat (head_of (view (sv_store sv)) (log_of (ss_topic ss) (ss_origin ss))) < unat (ss_from_head_id ss) + page_size (sr_replay_limit request)"
  shows "complete_sub (unat (ss_from_head_id ss)) (unat (head_of (view (sv_store sv)) (log_of (ss_topic ss) (ss_origin ss))))
    (sv_published sv) (spawn_subscription ss)"
proof -
  let ?v = "view (sv_store sv)"
  from assms(2,3) obtain q ms where q: "subscribe_query svc request = Inr q" "st_fetch_messages st w q (sv_store sv) = Inr ms"
    "ss = \<lparr>ss_topic = fq_topic q, ss_origin = fq_origin q, ss_from_head_id = fq_from_head_id q,
       ss_position = length (sv_published sv), ss_replay = ms\<rparr>"
    by (auto simp: srv_subscribe_def and_then_eq_Inr Let_def)
  let ?l = "log_of (fq_topic q) (fq_origin q)" and ?a = "unat (fq_from_head_id q)"
  let ?b = "Suc (unat (head_of ?v ?l))"
  have nz: "fq_from_head_id q \<noteq> 0" by (rule subscribe_query_from [OF q(1)])
  then have a: "1 \<le> ?a" by (simp add: unat_gt_0 Suc_leI)
  have limit: "page_size (fq_limit q) = page_size (sr_replay_limit request)"
    using q(1) by (auto simp: subscribe_query_def and_then_eq_Inr page_size_def default_replay_limit_def)
  have fits: "?b - ?a \<le> page_size (fq_limit q)" using assms(4) unfolding limit by (simp add: q(3))
  have "map (\<lambda>m. unat (sm_head_id m)) ms = take (page_size (fq_limit q)) [?a..<?b]"
    unfolding fetch_ok [OF assms(1) q(2)] spec_fetch_heads [OF inv_wf [OF assms(1)]] using a by (simp add: max_def)
  also have "\<dots> = [?a..<?b]" by (rule take_all) (simp only: length_upt fits)
  also have "\<dots> = [?a..<max ?a ?b]" by (simp add: max_def)
  finally show ?thesis
    unfolding complete_sub_def using unat_saturating_sub_1 [OF nz]
    by (intro exI [of _ ?b]) (simp add: q(3) spawn_subscription_def delivered_def)
qed

lemma serial_delivery:
  assumes "inv (sv_store sv)" "svc_store svc = st" "srv_subscribe svc w request sv = Inr ss" "ss_origin ss = svc_node svc"
    and "l = log_of (ss_topic ss) (svc_node svc)"
    and "unat (head_of (view (sv_store sv)) l) < unat (ss_from_head_id ss) + page_size (sr_replay_limit request)"
    and "list_all (\<lambda>(w, c). valid_part (uuid w)) (rpcs es)"
    and "\<forall>k. unat (head_of (view (sv_store sv)) k) + length (rpcs es) < 2 ^ 64"
    and "serial_run lag_text svc es (sv, spawn_subscription ss) = (sv', sub')"
    and "sub_open sub'" "sub_replay sub' = []" "sub_position sub' = length (sv_published sv')"
  shows "map unat (delivered sub') = [unat (ss_from_head_id ss)..<Suc (unat (head_of (view (sv_store sv')) l))]"
proof -
  let ?a = "unat (ss_from_head_id ss)"
  have start: "complete_sub ?a (unat (head_of (view (sv_store sv)) l)) (sv_published sv) (spawn_subscription ss)"
    using subscribe_complete [OF assms(1-3)] assms(4-6) by simp
  have "sub_origin (spawn_subscription ss) = svc_node svc" "l = log_of (sub_topic (spawn_subscription ss)) (svc_node svc)"
    using assms(4,5) by (simp_all add: spawn_subscription_def)
  from serial_complete [OF assms(2) assms(7) assms(1) assms(8) this start assms(9,10)]
  obtain b where "b \<le> Suc (unat (head_of (view (sv_store sv')) l))" "map unat (delivered sub') = [?a..<max ?a b]"
    "[b..<Suc (unat (head_of (view (sv_store sv')) l))] = []"
    using assms(11,12) by (auto simp: complete_sub_def)
  moreover from this have "b = Suc (unat (head_of (view (sv_store sv')) l))" by (simp del: upt_Suc)
  ultimately show ?thesis by (simp add: max_def del: upt_Suc split: if_splits)
qed

lemma announced_one: "length (announced r) \<le> 1"
  by (cases r) auto

lemma serial_keeping_up:
  assumes svc: "svc_store svc = st"
  shows "list_all (\<lambda>(w, c). valid_part (uuid w)) (rpcs es) \<Longrightarrow> serial_run lag_text svc es (sv, sub) = (sv', sub') \<Longrightarrow>
    sub_open sub \<Longrightarrow> sub_position sub \<le> length (sv_published sv) \<Longrightarrow>
    backlog (sv_published sv) sub + length (rpcs es) \<le> published_capacity \<Longrightarrow>
    keeping_up (sv_published sv') sub' \<and> length (sub_replay sub') + backlog (sv_published sv') sub'
      \<le> length (sub_replay sub) + backlog (sv_published sv) sub + length (rpcs es)"
proof (induction es arbitrary: sv sub)
  case Nil
  then show ?case by (simp add: keeping_up_def)
next
  case (Cons e es)
  show ?case
  proof (cases e)
    case (Rpc w c)
    let ?sv = "after_rpc svc w c sv"
    have uuid: "valid_part (uuid w)" using Cons.prems(1) Rpc by simp
    have "length (sv_published ?sv) \<le> Suc (length (sv_published sv)) \<and> length (sv_published sv) \<le> length (sv_published ?sv)"
      using after_rpc_effect [OF svc uuid, of c sv] announced_one by (auto simp: rpc_effect_def)
    then have more: "backlog (sv_published ?sv) sub \<le> Suc (backlog (sv_published sv) sub)"
        "sub_position sub \<le> length (sv_published ?sv)"
      using Cons.prems(4) by (auto simp: backlog_def)
    have run: "list_all (\<lambda>(w, c). valid_part (uuid w)) (rpcs es)" "serial_run lag_text svc es (?sv, sub) = (sv', sub')"
      "backlog (sv_published ?sv) sub + length (rpcs es) \<le> published_capacity"
      using Cons.prems Rpc more(1) by auto
    from Cons.IH [OF run(1,2) Cons.prems(3) more(2) run(3)] more(1) Rpc show ?thesis by simp
  next
    case Round
    let ?sub = "sub_round lag_text (sv_published sv) sub"
    have up: "keeping_up (sv_published sv) sub" using Cons.prems Round by (simp add: keeping_up_def)
    note progress = sub_round_progress [OF up, of lag_text]
    have less: "backlog (sv_published sv) ?sub \<le> backlog (sv_published sv) sub"
      by (auto simp: backlog_def sub_round_def tx_send_def Let_def split: list.split)
    have run: "list_all (\<lambda>(w, c). valid_part (uuid w)) (rpcs es)" "serial_run lag_text svc es (sv, ?sub) = (sv', sub')"
      "backlog (sv_published sv) ?sub + length (rpcs es) \<le> published_capacity"
      using Cons.prems Round less by auto
    from Cons.IH [OF run(1,2) _ _ run(3)] progress Round show ?thesis by (auto simp: keeping_up_def)
  qed
qed

lemma serial_completes:
  assumes inv: "inv (sv_store sv)" and svc: "svc_store svc = st" and sub: "srv_subscribe svc w request sv = Inr ss"
    and log: "ss_origin ss = svc_node svc" "l = log_of (ss_topic ss) (svc_node svc)"
    and replay: "unat (head_of (view (sv_store sv)) l) < unat (ss_from_head_id ss) + page_size (sr_replay_limit request)"
    and rpcs: "list_all (\<lambda>(w, c). valid_part (uuid w)) (rpcs es)" "length (rpcs es) \<le> published_capacity"
    and room: "\<forall>k. unat (head_of (view (sv_store sv)) k) + length (rpcs es) < 2 ^ 64"
    and rounds: "length (ss_replay ss) + length (rpcs es) \<le> n"
    and run: "serial_run lag_text svc (es @ replicate n Round) (sv, spawn_subscription ss) = (sv', sub')"
  shows "map unat (delivered sub') = [unat (ss_from_head_id ss)..<Suc (unat (head_of (view (sv_store sv')) l))]"
proof -
  obtain sv1 sub1 where first: "serial_run lag_text svc es (sv, spawn_subscription ss) = (sv1, sub1)" by force
  have pos: "ss_position ss = length (sv_published sv)"
    using sub by (auto simp: srv_subscribe_def and_then_eq_Inr)
  have "keeping_up (sv_published sv1) sub1 \<and> length (sub_replay sub1) + backlog (sv_published sv1) sub1
      \<le> length (ss_replay ss) + length (rpcs es)"
    using serial_keeping_up [OF svc rpcs(1) first] rpcs(2) pos by (simp add: spawn_subscription_def backlog_def)
  with rounds rounds_catch_up [of sv1 sub1 n lag_text svc] obtain sub2 where
    "serial_run lag_text svc (replicate n Round) (sv1, sub1) = (sv1, sub2)" "sub_open sub2" "sub_replay sub2 = []"
    "sub_position sub2 = length (sv_published sv1)" by auto
  with run first have last: "sub_open sub'" "sub_replay sub' = []" "sub_position sub' = length (sv_published sv')"
    by (auto simp: serial_run_append)
  have "list_all (\<lambda>(w, c). valid_part (uuid w)) (rpcs (es @ replicate n Round))"
    "\<forall>k. unat (head_of (view (sv_store sv)) k) + length (rpcs (es @ replicate n Round)) < 2 ^ 64"
    using rpcs(1) room by simp_all
  from serial_delivery [OF inv svc sub log replay this run last] show ?thesis .
qed

end

end
