(* ===== verification/Server_Control.thy ===== *)
theory Server_Control
  imports Server_Laws
begin

text \<open>
  The control topic at start-up. On a store that keeps the contract \<open>replay_control_messages\<close> always
  returns, as long as no listed control log has used up its heads, and when it returns without an
  error every delete marker that is still in force has its tombstone in the store.
\<close>

declare split_paired_All [simp del] split_paired_Ex [simp del]

text \<open>The tombstone a marker carries is in the store.\<close>

definition marker_applied :: "serde \<Rightarrow> store_view \<Rightarrow> stored_message \<Rightarrow> bool" where
  "marker_applied S v m \<longleftrightarrow>
     sm_deleted m \<or> (\<exists>r. de_tombstone S (sm_payload m) = Inr r \<and> tr_origin r = sm_origin m
       \<and> (tr_from_head_id r, tr_to_head_id r) \<in> v_tomb v (log_of (tr_topic r) (tr_origin r)))"

lemma marker_applied_extends: "marker_applied S v m \<Longrightarrow> extends v v' \<Longrightarrow> marker_applied S v' m"
  unfolding marker_applied_def extends_def by blast

lemma marker_applied_evolved: "marker_applied S v m \<Longrightarrow> evolved m m' \<Longrightarrow> marker_applied S v m'"
  by (auto simp: marker_applied_def evolved_def)

definition control_head :: "store_view \<Rightarrow> topic_head \<Rightarrow> bool" where
  "control_head v head \<longleftrightarrow> topic_str (th_topic head) = delete_topic
     \<and> th_head_id head = head_of v (log_of (th_topic head) (th_origin head)) \<and> th_head_id head \<noteq> - 1"

lemma take_upt_ex: "\<exists>k. take n [a..<b] = [a..<k]"
proof (cases "a + n \<le> b")
  case False
  then show ?thesis by (intro exI [of _ b]) (simp add: take_all)
qed (auto simp: take_upt)

lemma replay_log_step:
  assumes "from_head_id \<le> th_head_id head"
    "st_fetch_messages st (ws i) \<lparr>fq_topic = th_topic head, fq_origin = th_origin head, fq_from_head_id = from_head_id, fq_limit = 1000\<rparr> s = Inr (m # ms)"
  shows "replay_log S st ws head from_head_id i s =
    (case replay_page S st ws (m # ms) from_head_id (Suc i) s of
       ((i, s), Inl e) \<Rightarrow> Some ((i, s), Inl e)
     | ((i, s), Inr from_head_id) \<Rightarrow> replay_log S st ws head from_head_id i s)"
  using assms by (subst replay_log.simps) simp

context msgbus_contract
begin

text \<open>Applying a message either changes nothing or records the tombstone that it carries.\<close>

lemma apply_control_effect:
  assumes "inv s" "apply_control_message S st w m s = (s', r)"
  obtains (unchanged) "s' = s" "r = Inr () \<Longrightarrow> topic_str (sm_topic m) = delete_topic \<Longrightarrow> sm_deleted m"
  | (recorded) t where "topic_str (sm_topic m) = delete_topic" "\<not> sm_deleted m" "de_tombstone S (sm_payload m) = Inr t"
      "tr_origin t = sm_origin m" "inv s'" "tr_from_head_id t \<le> tr_to_head_id t"
      "view s' = fst (spec_tombstone (view s) (log_of (tr_topic t) (tr_origin t)) (tr_from_head_id t) (tr_to_head_id t))"
proof (cases "topic_str (sm_topic m) = delete_topic \<and> \<not> sm_deleted m")
  case marker: True
  show thesis
  proof (cases "\<exists>t. de_tombstone S (sm_payload m) = Inr t \<and> sm_origin m = tr_origin t")
    case True
    then obtain t where t: "de_tombstone S (sm_payload m) = Inr t" "sm_origin m = tr_origin t" by blast
    obtain u c where u: "st_tombstone_range st w (tr_topic t) (tr_origin t) (tr_from_head_id t) (tr_to_head_id t) s = (u, c)"
      by force
    have s': "s' = u" "r = and_then (map_err status_from_error c) (\<lambda>_. Inr ())"
      using assms(2) marker t u by (auto simp: apply_control_message_def)
    show thesis
    proof (cases c)
      case (Inl e)
      with tombstone_err [OF u [unfolded Inl]] s' show thesis by (intro unchanged) simp_all
    next
      case (Inr k)
      from tombstone_ok [OF assms(1) u [unfolded Inr]] s'(1) marker t show thesis by (intro recorded) auto
    qed
  next
    case False
    then have "s' = s \<and> (\<exists>e. r = Inl e)"
      using assms(2) marker
      by (cases "de_tombstone S (sm_payload m)") (auto simp: apply_control_message_def split: if_splits)
    then show thesis by (intro unchanged) auto
  qed
next
  case False
  with assms show thesis by (intro unchanged) (auto simp: apply_control_message_def)
qed

lemma apply_control:
  assumes "inv s" "apply_control_message S st w m s = (s', r)"
  shows "inv s'" "extends (view s) (view s')" "v_head (view s') = v_head (view s)"
    "r = Inr () \<Longrightarrow> topic_str (sm_topic m) = delete_topic \<Longrightarrow> marker_applied S (view s') m"
proof -
  from assms have "inv s' \<and> extends (view s) (view s') \<and> v_head (view s') = v_head (view s)
    \<and> (r = Inr () \<longrightarrow> topic_str (sm_topic m) = delete_topic \<longrightarrow> marker_applied S (view s') m)"
  proof (cases rule: apply_control_effect)
    case unchanged
    with assms(1) show ?thesis by (auto simp: marker_applied_def)
  next
    case (recorded t)
    then have "v_head (view s') = v_head (view s)" "marker_applied S (view s') m"
      by (auto simp: recorded(7) spec_tombstone_def marker_applied_def)
    with recorded(5,7) spec_tombstone_extends [of "view s"] show ?thesis by simp
  qed
  then show "inv s'" "extends (view s) (view s')" "v_head (view s') = v_head (view s)"
    "r = Inr () \<Longrightarrow> topic_str (sm_topic m) = delete_topic \<Longrightarrow> marker_applied S (view s') m" by blast+
qed

lemma replay_page_ok:
  assumes "inv s" "replay_page S st ws ms from_head_id i s = ((i', s'), r)"
  shows "inv s' \<and> extends (view s) (view s') \<and> v_head (view s') = v_head (view s)
    \<and> (\<forall>f. r = Inr f \<longrightarrow> f = (if ms = [] then from_head_id else saturating_add (sm_head_id (last ms)) 1)
        \<and> (\<forall>m \<in> set ms. topic_str (sm_topic m) = delete_topic \<longrightarrow> marker_applied S (view s') m))"
  using assms
proof (induction ms arbitrary: from_head_id i s)
  case (Cons m ms)
  obtain u x where u: "apply_control_message S st (ws i) m s = (u, x)" by force
  note step = apply_control [OF Cons.prems(1) u]
  show ?case
  proof (cases x)
    case (Inl e)
    with Cons.prems(2) u step show ?thesis by auto
  next
    case (Inr a)
    with Cons.prems(2) u
    have "replay_page S st ws ms (saturating_add (sm_head_id m) 1) (Suc i) u = ((i', s'), r)" by simp
    note ih = Cons.IH [OF step(1) this]
    from ih have e: "extends (view u) (view s')" by blast
    have "marker_applied S (view s') m" if "topic_str (sm_topic m) = delete_topic"
      using marker_applied_extends [OF step(4) e] Inr that by simp
    then show ?thesis using ih extends_trans [OF step(2) e] step(3) by auto
  qed
qed auto

lemma fetched_page:
  assumes "inv s" "st_fetch_messages st w q s = Inr ms" "fq_from_head_id q \<le> h" "h \<le> head_of (view s) (log_of (fq_topic q) (fq_origin q))" "h \<noteq> 0"
  shows "ms \<noteq> []" "fq_from_head_id q \<le> sm_head_id (last ms)"
    "sm_head_id (last ms) \<le> head_of (view s) (log_of (fq_topic q) (fq_origin q))"
    "h \<le> sm_head_id (last ms) \<Longrightarrow> \<exists>m \<in> set ms. sm_head_id m = h \<and> v_msg (view s) (log_of (fq_topic q) (fq_origin q), h) = Some m"
proof -
  let ?l = "log_of (fq_topic q) (fq_origin q)"
  note wf = inv_wf [OF assms(1)]
  have ms: "ms = spec_fetch (view s) ?l (fq_from_head_id q) (fq_limit q)" using fetch_ok [OF assms(1,2)] .
  have "max (fq_from_head_id q) 1 \<le> h" using assms(3,5) by (simp add: word_1_le_iff)
  then have "\<not> head_of (view s) ?l < max (fq_from_head_id q) 1" using assms(4) by (simp only: not_less order_trans)
  then show ne: "ms \<noteq> []" unfolding ms spec_fetch_Nil [OF wf] .
  then have last: "last ms \<in> set ms" by simp
  show "fq_from_head_id q \<le> sm_head_id (last ms)" using spec_fetch_stored(3) [OF wf] last unfolding ms by blast
  have "v_msg (view s) (?l, sm_head_id (last ms)) = Some (last ms)"
    using spec_fetch_stored(1) [OF wf] last unfolding ms by blast
  then show "sm_head_id (last ms) \<le> head_of (view s) ?l" using wf_view_gapless [OF wf, of ?l "sm_head_id (last ms)"] by simp
  assume le: "h \<le> sm_head_id (last ms)"
  obtain k where k: "map (\<lambda>m. unat (sm_head_id m)) ms = [max 1 (unat (fq_from_head_id q))..<k]"
    unfolding ms spec_fetch_heads [OF wf] using take_upt_ex by blast
  moreover have "unat (sm_head_id (last ms)) \<in> set (map (\<lambda>m. unat (sm_head_id m)) ms)" using last by auto
  ultimately have "unat (sm_head_id (last ms)) < k" by simp
  with le have "unat h < k" by (simp add: word_le_nat_alt)
  moreover have "max 1 (unat (fq_from_head_id q)) \<le> unat h"
    using assms(3,5) by (simp add: word_le_nat_alt unat_gt_0 Suc_leI)
  ultimately have "unat h \<in> set (map (\<lambda>m. unat (sm_head_id m)) ms)" unfolding k by simp
  then obtain m where m: "m \<in> set ms" "sm_head_id m = h" by (auto simp: word_unat_eq_iff)
  with spec_fetch_stored(1) [OF wf] show "\<exists>m \<in> set ms. sm_head_id m = h \<and> v_msg (view s) (?l, h) = Some m"
    unfolding ms by blast
qed

lemma replay_page_advances:
  assumes inv: "inv s" and fetch: "st_fetch_messages st w q s = Inr ms"
    and page: "replay_page S st ws ms g j s = ((i1, s1), Inr f)"
    and h: "fq_from_head_id q \<le> h" "h \<le> head_of (view s) (log_of (fq_topic q) (fq_origin q))" "h \<noteq> 0" "h \<noteq> - 1"
  shows "fq_from_head_id q < f" "f \<noteq> 0"
proof -
  note p = fetched_page [OF inv fetch h(1-3)]
  have f: "f = saturating_add (sm_head_id (last ms)) 1" using replay_page_ok [OF inv page] p(1) by auto
  show "fq_from_head_id q < f"
  proof (cases "sm_head_id (last ms) = - 1")
    case True
    then have "f = - 1" by (simp add: f saturating_add_1)
    with h(1,4) show ?thesis by (metis word_order.not_eq_extremum order_le_less_trans)
  qed (use p(2) saturating_add_1_less [of "sm_head_id (last ms)"] f in simp)
  show "f \<noteq> 0" by (simp add: f)
qed

lemma replay_page_covers:
  assumes inv: "inv s" and fetch: "st_fetch_messages st w q s = Inr ms"
    and page: "replay_page S st ws ms g j s = ((i1, s1), Inr f)" and ext: "extends (view s1) (view s')"
    and l: "l = log_of (fq_topic q) (fq_origin q)" "fst l = delete_topic"
    and h: "fq_from_head_id q \<le> h" "h < f" "h \<le> head_of (view s) l" "h \<noteq> 0" and m': "v_msg (view s') (l, h) = Some m'"
  shows "marker_applied S (view s') m'"
proof -
  note pg = replay_page_ok [OF inv page]
  have ne: "ms \<noteq> []" using fetched_page(1) [OF inv fetch h(1)] h(3,4) l(1) by simp
  then have f: "f = saturating_add (sm_head_id (last ms)) 1" using pg by auto
  have "h \<le> sm_head_id (last ms)"
  proof (cases "sm_head_id (last ms) = - 1")
    case False
    with h(2) f show ?thesis by (simp add: less_saturating_add_1_iff)
  qed simp
  then obtain m0 where m0: "m0 \<in> set ms" "v_msg (view s) (l, h) = Some m0"
    using fetched_page(4) [OF inv fetch h(1)] h(3,4) l(1) by auto
  have "topic_str (sm_topic m0) = delete_topic"
    using wf_view_placed [OF inv_wf [OF inv] m0(2)] l by (auto simp: log_of_def)
  then have "marker_applied S (view s1) m0" using pg m0(1) by auto
  moreover have "evolved m0 m'" using extendsD [OF extends_trans [OF _ ext] m0(2)] pg m' by force
  ultimately show ?thesis using marker_applied_extends [OF _ ext] marker_applied_evolved by blast
qed

text \<open>
  The loop over one control log returns, and afterwards every marker from \<open>from_head_id\<close> up to the
  listed head is applied.
\<close>

lemma replay_log_ok:
  fixes head :: topic_head
  defines "l \<equiv> log_of (th_topic head) (th_origin head)"
  assumes "inv s" "th_head_id head \<le> head_of (view s) l" "th_head_id head \<noteq> - 1" "from_head_id \<noteq> 0"
    "fst l = delete_topic"
  shows "\<exists>i' s' r. replay_log S st ws head from_head_id i s = Some ((i', s'), r) \<and> inv s'
    \<and> extends (view s) (view s') \<and> v_head (view s') = v_head (view s)
    \<and> (r = Inr () \<longrightarrow> (\<forall>h m. from_head_id \<le> h \<longrightarrow> h \<le> th_head_id head \<longrightarrow> v_msg (view s') (l, h) = Some m \<longrightarrow>
          marker_applied S (view s') m))"
  using assms(2-6)
proof (induction "Suc (unat (th_head_id head)) - unat from_head_id" arbitrary: from_head_id i s rule: less_induct)
  case less
  let ?q = "\<lparr>fq_topic = th_topic head, fq_origin = th_origin head, fq_from_head_id = from_head_id, fq_limit = 1000\<rparr>"
  show ?case
  proof (cases "from_head_id \<le> th_head_id head")
    case False
    then have "replay_log S st ws head from_head_id i s = Some ((i, s), Inr ())" by (subst replay_log.simps) simp
    with less.prems(1) False show ?thesis by (auto intro!: exI [of _ i] exI [of _ s])
  next
    case le: True
    show ?thesis
    proof (cases "st_fetch_messages st (ws i) ?q s")
      case (Inl e)
      with le have "replay_log S st ws head from_head_id i s = Some ((Suc i, s), Inl (status_from_error e))"
        by (subst replay_log.simps) simp
      with less.prems(1) show ?thesis by auto
    next
      case fetch: (Inr ms)
      have nz: "th_head_id head \<noteq> 0" using le less.prems(4) by (metis word_le_0_iff)
      have ne: "ms \<noteq> []"
        using fetched_page(1) [OF less.prems(1) fetch, of "th_head_id head"] le less.prems(2) nz by (simp add: l_def)
      obtain i1 s1 x where x: "replay_page S st ws ms from_head_id (Suc i) s = ((i1, s1), x)" by (metis prod.exhaust)
      note pg = replay_page_ok [OF less.prems(1) x]
      have unfold: "replay_log S st ws head from_head_id i s =
          (case x of Inl e \<Rightarrow> Some ((i1, s1), Inl e) | Inr f \<Rightarrow> replay_log S st ws head f i1 s1)"
        using replay_log_step [OF le, of st ws i s "hd ms" "tl ms" S] fetch ne x by simp
      show ?thesis
      proof (cases x)
        case (Inl e)
        with unfold pg show ?thesis by auto
      next
        case (Inr f)
        have adv: "from_head_id < f" "f \<noteq> 0"
          using replay_page_advances [OF less.prems(1) fetch x [unfolded Inr], of "th_head_id head"] le less.prems(2,3) nz
          by (simp_all add: l_def)
        have m: "Suc (unat (th_head_id head)) - unat f < Suc (unat (th_head_id head)) - unat from_head_id"
          using adv(1) le by (simp add: word_less_nat_alt word_le_nat_alt)
        have "th_head_id head \<le> head_of (view s1) l" using pg less.prems(2) by (simp add: head_of_def)
        then obtain i' s' r where r: "replay_log S st ws head f i1 s1 = Some ((i', s'), r)" "inv s'"
            "extends (view s1) (view s')" "v_head (view s') = v_head (view s1)"
            "r = Inr () \<longrightarrow> (\<forall>h m. f \<le> h \<longrightarrow> h \<le> th_head_id head \<longrightarrow> v_msg (view s') (l, h) = Some m \<longrightarrow> marker_applied S (view s') m)"
          using less.hyps [OF m, of s1 i1] pg less.prems(3,5) adv(2) by auto
        have ext: "extends (view s) (view s')" using pg extends_trans r(3) by blast
        have "marker_applied S (view s') m'"
          if h: "from_head_id \<le> h" "h < f" "h \<le> th_head_id head" "v_msg (view s') (l, h) = Some m'" for h m'
        proof -
          have "h \<noteq> 0" using h(1) less.prems(4) by (metis word_le_0_iff)
          moreover have "h \<le> head_of (view s) l" using h(3) less.prems(2) by (rule order_trans)
          ultimately show ?thesis
            using replay_page_covers [OF less.prems(1) fetch x [unfolded Inr] r(3) _ less.prems(5) _ h(2) _ _ h(4)] h(1)
            by (simp add: l_def)
        qed
        then have "r = Inr () \<longrightarrow> (\<forall>h m. from_head_id \<le> h \<longrightarrow> h \<le> th_head_id head \<longrightarrow> v_msg (view s') (l, h) = Some m
            \<longrightarrow> marker_applied S (view s') m)"
          using r(5) by (meson linorder_not_less)
        moreover have "replay_log S st ws head from_head_id i s = Some ((i', s'), r)" using unfold Inr r(1) by simp
        moreover have "v_head (view s') = v_head (view s)" using pg r(4) by simp
        ultimately show ?thesis using r(2) ext by blast
      qed
    qed
  qed
qed

lemma replay_heads_ok:
  assumes "inv s" "list_all (control_head (view s)) heads"
  shows "\<exists>i' s' r. replay_heads S st ws heads i s = Some ((i', s'), r) \<and> inv s'
    \<and> extends (view s) (view s') \<and> v_head (view s') = v_head (view s)
    \<and> (r = Inr () \<longrightarrow> (\<forall>head \<in> set heads. \<forall>h m.
          v_msg (view s') (log_of (th_topic head) (th_origin head), h) = Some m \<longrightarrow> marker_applied S (view s') m))"
  using assms
proof (induction heads arbitrary: i s)
  case (Cons head heads)
  let ?l = "log_of (th_topic head) (th_origin head)"
  have c: "fst ?l = delete_topic" "th_head_id head = head_of (view s) ?l" "th_head_id head \<noteq> - 1"
    using Cons.prems(2) by (auto simp: control_head_def log_of_def)
  from replay_log_ok [of s head 1 S ws i] c Cons.prems(1) obtain i1 s1 x where x:
    "replay_log S st ws head 1 i s = Some ((i1, s1), x)" "inv s1" "extends (view s) (view s1)" "v_head (view s1) = v_head (view s)"
    "x = Inr () \<Longrightarrow> \<forall>h m. 1 \<le> h \<longrightarrow> h \<le> th_head_id head \<longrightarrow> v_msg (view s1) (?l, h) = Some m \<longrightarrow> marker_applied S (view s1) m"
    by auto
  have all: "marker_applied S (view s1) m" if "x = Inr ()" "v_msg (view s1) (?l, h) = Some m" for h m
  proof -
    have "1 \<le> h \<and> h \<le> head_of (view s1) ?l" using wf_view_gapless [OF inv_wf [OF x(2)], of ?l h] that(2) by simp
    moreover have "head_of (view s1) ?l = th_head_id head" using c(2) x(4) by (simp add: head_of_def)
    ultimately show ?thesis using x(5) [OF that(1)] that(2) by auto
  qed
  show ?case
  proof (cases x)
    case (Inl e)
    with x(1-4) show ?thesis by auto
  next
    case (Inr u)
    have "control_head (view s1) = control_head (view s)"
      using x(4) by (simp add: control_head_def head_of_def fun_eq_iff)
    then have "list_all (control_head (view s1)) heads" using Cons.prems(2) by simp
    from Cons.IH [OF x(2) this, of i1] obtain i' s' r where r:
      "replay_heads S st ws heads i1 s1 = Some ((i', s'), r)" "inv s'" "extends (view s1) (view s')" "v_head (view s') = v_head (view s1)"
      "r = Inr () \<Longrightarrow> \<forall>head \<in> set heads. \<forall>h m. v_msg (view s') (log_of (th_topic head) (th_origin head), h) = Some m \<longrightarrow> marker_applied S (view s') m"
      by blast
    have "marker_applied S (view s') m" if "v_msg (view s') (?l, h) = Some m" for h m
    proof -
      have "head_of (view s') ?l = head_of (view s1) ?l" using r(4) by (simp add: head_of_def)
      then have "v_msg (view s1) (?l, h) \<noteq> None"
        using wf_view_gapless [OF inv_wf [OF x(2)], of ?l h] wf_view_gapless [OF inv_wf [OF r(2)], of ?l h] that by simp
      then obtain m1 where m1: "v_msg (view s1) (?l, h) = Some m1" by blast
      with extendsD [OF r(3) m1] that have "evolved m1 m" by simp
      with all [OF _ m1] Inr show ?thesis using marker_applied_extends [OF _ r(3)] marker_applied_evolved by simp
    qed
    moreover have "replay_heads S st ws (head # heads) i s = Some ((i', s'), r)" using x(1) Inr r(1) by simp
    moreover have "extends (view s) (view s')" by (rule extends_trans [OF x(3) r(3)])
    moreover have "v_head (view s') = v_head (view s)" using x(4) r(4) by simp
    ultimately show ?thesis using r(2,5) by (intro exI [of _ i'] exI [of _ s'] exI [of _ r]) simp
  qed
qed auto

lemma replay_control_ok:
  assumes inv: "inv s" and room: "\<And>l. head_of (view s) l \<noteq> - 1"
  shows "\<exists>i' s' r. replay_control_messages S st ws s = Some ((i', s'), r) \<and> inv s'
    \<and> extends (view s) (view s') \<and> v_head (view s') = v_head (view s)
    \<and> (r = Inr () \<longrightarrow> (\<forall>l h m. fst l = delete_topic \<longrightarrow> v_msg (view s') (l, h) = Some m \<longrightarrow> marker_applied S (view s') m))"
proof (cases "st_list_heads st (ws 0) s")
  case (Inl e)
  with inv show ?thesis by (auto simp: replay_control_messages_def)
next
  case (Inr heads)
  from list_heads_ok [OF inv Inr] obtain ls where ls: "set ls = dom (v_head (view s))" "heads = map (head_entry (view s)) ls" by blast
  note wf = inv_wf [OF inv]
  have entry: "log_of (th_topic (head_entry (view s) l)) (th_origin (head_entry (view s) l)) = l"
    "th_head_id (head_entry (view s) l) = head_of (view s) l" if "v_head (view s) l = Some h" for l h
  proof -
    from wf_view_head_stored [OF wf that] obtain m where "v_msg (view s) (l, h) = Some m" by blast
    with wf_view_placed [OF wf this] that
    show "log_of (th_topic (head_entry (view s) l)) (th_origin (head_entry (view s) l)) = l"
      "th_head_id (head_entry (view s) l) = head_of (view s) l"
      by (simp_all add: head_entry_def Let_def head_of_def)
  qed
  let ?hs = "filter (\<lambda>head. topic_str (th_topic head) = delete_topic) heads"
  have "list_all (control_head (view s)) ?hs"
    using entry room ls by (auto simp: list_all_iff control_head_def)
  from replay_heads_ok [OF inv this, of S ws 1] obtain i' s' r where r:
    "replay_heads S st ws ?hs 1 s = Some ((i', s'), r)" "inv s'" "extends (view s) (view s')" "v_head (view s') = v_head (view s)"
    "r = Inr () \<Longrightarrow> \<forall>head \<in> set ?hs. \<forall>h m. v_msg (view s') (log_of (th_topic head) (th_origin head), h) = Some m \<longrightarrow> marker_applied S (view s') m"
    by blast
  have "marker_applied S (view s') m" if m: "r = Inr ()" "fst l = delete_topic" "v_msg (view s') (l, h) = Some m" for l h m
  proof -
    have "1 \<le> h \<and> h \<le> head_of (view s') l" using wf_view_gapless [OF inv_wf [OF r(2)], of l h] m(3) by simp
    then obtain k where k: "v_head (view s) l = Some k"
      using r(4) by (cases "v_head (view s) l") (auto simp: head_of_def word_1_le_iff)
    have "topic_str (th_topic (head_entry (view s) l)) = fst l"
      using arg_cong [OF entry(1) [OF k], of fst] by (simp add: log_of_def)
    then have "head_entry (view s) l \<in> set ?hs" using k ls m(2) by auto
    with r(5) [OF m(1)] entry(1) [OF k] m(3) show ?thesis by metis
  qed
  with r(1-4) Inr show ?thesis by (auto simp: replay_control_messages_def)
qed

end

end
