(* ===== verification/Server_Properties.thy ===== *)
theory Server_Properties
  imports Store_Guarantees Subscription Server_Control
begin

text \<open>
  The properties of the gRPC service over the two backends: requests write only the logs of the own
  node, broadcast only what is stored, subscriptions deliver in order and without gaps, and the replay
  of the control topic at start-up ends. The closed theorems at the end of the sections are runs in
  which the service does something a client would not expect.
\<close>

declare split_paired_All [simp del] split_paired_Ex [simp del]

section \<open>Example services\<close>

definition demo_publish :: "string \<Rightarrow> publish_request" where
  "demo_publish p = \<lparr>pr_topic = ''a'', pr_origin = None, pr_payload = map of_char p, pr_headers = fmempty\<rparr>"

definition demo_delete :: delete_range_request where
  "demo_delete = \<lparr>dr_topic = ''a'', dr_origin = None, dr_from_head_id = 1, dr_to_head_id = 1\<rparr>"

text \<open>An environment that hands out the given identifier.\<close>

definition demo_with :: "string \<Rightarrow> call_env" where
  "demo_with i = demo_env\<lparr>uuid := i\<rparr>"

definition demo_rpcs :: "(call_env \<times> rpc_call) list" where
  "demo_rpcs = [(demo_with ''u1'', PublishCall (demo_publish ''x'')), (demo_with ''u2'', DeleteRangeCall demo_delete)]"

lemma demo_rpcs_valid: "list_all (\<lambda>(w, c). valid_part (uuid w)) demo_rpcs"
  by code_simp

section \<open>Requests\<close>

text \<open>
  C8. Whatever requests a daemon on a redb database serves, no log of another node changes: not its
  messages, not its head and not its tombstones.
\<close>

theorem requests_stay_local:
  assumes P: "redb_backend P" "redb_inv P db" and svc: "service_new (redb_store P) node db = (svc, sv)"
    and rpcs: "list_all (\<lambda>(w, c). valid_part (uuid w)) requests"
    and room: "\<forall>l. unat (head_of (redb_view P db) l) + length requests < 2 ^ 64"
    and other: "origin \<noteq> node_key node"
  shows "untouched (topic, origin) (redb_view P db) (redb_view P (sv_store (after_rpcs svc requests sv)))"
proof -
  have sv: "svc_store svc = redb_store P" "svc_node svc = node" "sv_store sv = db" "sv_published sv = []"
    using svc by (auto simp: service_new_def)
  then have "redb_inv P (sv_store sv)" "\<forall>l. unat (head_of (redb_view P (sv_store sv)) l) + length requests < 2 ^ 64"
    "all_stored (redb_view P (sv_store sv)) (sv_published sv)"
    using P(2) room by (simp_all add: all_stored_def)
  from msgbus_contract.rpc_run [OF redb_contracts(1) [OF P(1)] sv(1) rpcs this refl] sv other show ?thesis by simp
qed

theorem requests_stay_local_witness:
  "untouched (''a'', ''t/b/e'') (redb_view demo_redb demo_tables)
     (redb_view demo_redb (sv_store (after_rpcs \<lparr>svc_store = redb_store demo_redb, svc_node = demo_node\<rparr> demo_rpcs
       \<lparr>sv_store = demo_tables, sv_published = []\<rparr>)))"
proof (rule requests_stay_local [OF demo_backends(2) demo_tables(1) _ demo_rpcs_valid])
  show "service_new (redb_store demo_redb) demo_node demo_tables
      = (\<lparr>svc_store = redb_store demo_redb, svc_node = demo_node\<rparr>, \<lparr>sv_store = demo_tables, sv_published = []\<rparr>)"
    by (simp add: service_new_def)
  show "\<forall>l. unat (head_of (redb_view demo_redb demo_tables) l) + length demo_rpcs < 2 ^ 64"
  proof
    fix l show "unat (head_of (redb_view demo_redb demo_tables) l) + length demo_rpcs < 2 ^ 64"
      using demo_room(2) [of l] by (simp add: demo_rpcs_def)
  qed
qed code_simp

text \<open>
  C17. Whatever requests a daemon on a SQLite database serves, the database keeps its invariant and
  its history, and every message on the broadcast channel is in the database, unchanged but for a
  deletion.
\<close>

theorem requests_keep_history:
  assumes P: "sqlite_backend P" "sqlite_inv P db" and svc: "service_new (sqlite_store P) node db = (svc, sv)"
    and rpcs: "list_all (\<lambda>(w, c). valid_part (uuid w)) requests" "length requests < 2 ^ 63"
    and sv': "sv' = after_rpcs svc requests sv"
  shows "sqlite_inv P (sv_store sv') \<and> extends (sqlite_view P db) (sqlite_view P (sv_store sv'))
    \<and> all_stored (sqlite_view P (sv_store sv')) (sv_published sv')"
proof -
  have sv: "svc_store svc = sqlite_store P" "svc_node svc = node" "sv_store sv = db" "sv_published sv = []"
    using svc by (auto simp: service_new_def)
  have "unat (head_of (sqlite_view P db) l) + length requests < 2 ^ 64" for l
    using sqlite_heads_small [OF P(2), of l] rpcs(2) by simp
  then have "sqlite_inv P (sv_store sv)" "\<forall>l. unat (head_of (sqlite_view P (sv_store sv)) l) + length requests < 2 ^ 64"
    "all_stored (sqlite_view P (sv_store sv)) (sv_published sv)"
    using P(2) sv by (simp_all add: all_stored_def)
  from msgbus_contract.rpc_run [OF sqlite_contracts(1) [OF P(1)] sv(1) rpcs(1) this sv'] sv show ?thesis by simp
qed

definition demo_service :: "sqlite_db service" where
  "demo_service = \<lparr>svc_store = sqlite_store demo_sqlite, svc_node = demo_node\<rparr>"

definition demo_server :: "sqlite_db server" where
  "demo_server = \<lparr>sv_store = demo_db, sv_published = []\<rparr>"

lemma demo_service: "service_new (sqlite_store demo_sqlite) demo_node demo_db = (demo_service, demo_server)"
  by (simp add: service_new_def demo_service_def demo_server_def)

theorem requests_keep_history_witness:
  "length (sv_published (after_rpcs demo_service demo_rpcs demo_server)) = 2
   \<and> sqlite_inv demo_sqlite (sv_store (after_rpcs demo_service demo_rpcs demo_server))
   \<and> extends (sqlite_view demo_sqlite demo_db) (sqlite_view demo_sqlite (sv_store (after_rpcs demo_service demo_rpcs demo_server)))
   \<and> all_stored (sqlite_view demo_sqlite (sv_store (after_rpcs demo_service demo_rpcs demo_server)))
       (sv_published (after_rpcs demo_service demo_rpcs demo_server))"
proof
  show "length (sv_published (after_rpcs demo_service demo_rpcs demo_server)) = 2" by code_simp
  have "length demo_rpcs < 2 ^ 63" by (simp add: demo_rpcs_def)
  from requests_keep_history [OF demo_backends(1) demo_db(1) demo_service demo_rpcs_valid this refl]
  show "sqlite_inv demo_sqlite (sv_store (after_rpcs demo_service demo_rpcs demo_server))
   \<and> extends (sqlite_view demo_sqlite demo_db) (sqlite_view demo_sqlite (sv_store (after_rpcs demo_service demo_rpcs demo_server)))
   \<and> all_stored (sqlite_view demo_sqlite (sv_store (after_rpcs demo_service demo_rpcs demo_server)))
       (sv_published (after_rpcs demo_service demo_rpcs demo_server))" .
qed

text \<open>
  C22. Clients cannot write the control topic or another node's log: publishing, deleting and
  enqueueing on \<open>$msgbus.delete\<close>, or publishing under a foreign origin, is refused with
  \<open>PERMISSION_DENIED\<close> and leaves the server as it was.
\<close>

theorem writes_are_guarded:
  assumes "pr_topic p = delete_topic \<or> valid_part (pr_topic p) \<and> (\<exists>n. pr_origin p = Some (proto_node n) \<and> valid_node n \<and> n \<noteq> svc_node svc)"
    and "dr_topic d = delete_topic" "er_topic f = delete_topic" "valid_part (er_queue f)"
  shows "(\<exists>text. srv_publish svc w p sv = (sv, Inl (status PermissionDenied text)))
    \<and> (\<exists>text. srv_delete_range svc w d sv = (sv, Inl (status PermissionDenied text)))
    \<and> (\<exists>text. srv_enqueue_fifo svc w f sv = (sv, Inl (status PermissionDenied text)))"
proof (intro conjI)
  have topic: "topic_new delete_topic = Inr (Topic delete_topic)" by code_simp
  have new: "valid_part t \<Longrightarrow> topic_new t = Inr (Topic t)" "valid_part t \<Longrightarrow> queue_name_new t = Inr (QueueName t)" for t by simp_all
  have foreign: "owned_origin svc (Some (proto_node n)) = Inl (status PermissionDenied ''writes must use the local daemon origin'')"
    if "valid_node n" "n \<noteq> svc_node svc" for n
  proof -
    have "sendable_node n" "\<not> node_is_empty n"
      using that(1) by (auto simp: sendable_node_def valid_node_def valid_part_def node_is_empty_def)
    with that(2) show ?thesis by (simp add: owned_origin_def request_origin_def)
  qed
  show "\<exists>text. srv_publish svc w p sv = (sv, Inl (status PermissionDenied text))"
    using assms(1) topic foreign by (auto simp: srv_publish_def ensure_application_topic_def new)
  show "\<exists>text. srv_delete_range svc w d sv = (sv, Inl (status PermissionDenied text))"
    "\<exists>text. srv_enqueue_fifo svc w f sv = (sv, Inl (status PermissionDenied text))"
    using assms(2-) topic by (auto simp: srv_delete_range_def srv_enqueue_fifo_def ensure_application_topic_def new)
qed

definition demo_foreign :: publish_request where
  "demo_foreign = (demo_publish ''x'')\<lparr>pr_origin := Some (proto_node (demo_node\<lparr>device_id := ''e''\<rparr>))\<rparr>"

definition demo_reserved :: delete_range_request where
  "demo_reserved = demo_delete\<lparr>dr_topic := delete_topic\<rparr>"

definition demo_enqueue :: enqueue_fifo_request where
  "demo_enqueue = \<lparr>er_queue = ''q'', er_topic = ''a'', er_source = None,
     er_target = Some \<lparr>pn_tenant_id = [], pn_bl_name = [], pn_device_id = []\<rparr>, er_payload = [], er_headers = fmempty\<rparr>"

theorem writes_are_guarded_witness:
  "(\<exists>text. srv_publish demo_service demo_env demo_foreign demo_server = (demo_server, Inl (status PermissionDenied text)))
    \<and> (\<exists>text. srv_delete_range demo_service demo_env demo_reserved demo_server = (demo_server, Inl (status PermissionDenied text)))
    \<and> (\<exists>text. srv_enqueue_fifo demo_service demo_env (demo_enqueue\<lparr>er_topic := delete_topic\<rparr>) demo_server
         = (demo_server, Inl (status PermissionDenied text)))"
proof (rule writes_are_guarded)
  have "valid_part (pr_topic demo_foreign)" "valid_node (demo_node\<lparr>device_id := ''e''\<rparr>)" by code_simp+
  then show "pr_topic demo_foreign = delete_topic \<or> valid_part (pr_topic demo_foreign)
      \<and> (\<exists>n. pr_origin demo_foreign = Some (proto_node n) \<and> valid_node n \<and> n \<noteq> svc_node demo_service)"
    by (intro disjI2 conjI exI [of _ "demo_node\<lparr>device_id := ''e''\<rparr>"])
      (simp_all add: demo_foreign_def demo_service_def demo_node_def)
  show "valid_part (er_queue (demo_enqueue\<lparr>er_topic := delete_topic\<rparr>))" by code_simp
qed (simp_all add: demo_reserved_def)

text \<open>
  C29. The envelope of a message on the wire is read back as that message, and nothing else is
  accepted: reading succeeds exactly on the envelopes of messages with a valid identifier and topic,
  a valid or empty origin and a head.
\<close>

theorem envelope_round_trip: "core_message e = Inr m \<longleftrightarrow> e = proto_message m \<and> sendable m"
  by (rule core_message_Inr)

text \<open>
  An enqueue without a target is refused, but an empty target passes the check and a message that
  is addressed to no node enters the queue.
\<close>

lemma empty_target_accepted:
  "snd (srv_enqueue_fifo demo_service demo_env (demo_enqueue\<lparr>er_target := None\<rparr>) demo_server)
     = Inl (status CInvalidArgument ''target is required'')
   \<and> map_option (map_option fm_target) (ok (snd (srv_enqueue_fifo demo_service demo_env demo_enqueue demo_server)))
     = Some (Some (Some \<lparr>pn_tenant_id = [], pn_bl_name = [], pn_device_id = []\<rparr>))"
  by code_simp

section \<open>Subscriptions\<close>

text \<open>
  C6. Under every interleaving of requests, replication, broadcasts and the subscription task, a
  subscriber receives messages of the log it asked for only, with strictly increasing heads.
\<close>

theorem subscription_ordered:
  assumes "redb_backend P" "redb_inv P db" "svc_store svc = redb_store P"
    and "(sys_step lag_text svc)\<^sup>*\<^sup>* (sys_init db) y" "sys_sub y = Running sub"
  shows "sorted_wrt (<) (delivered sub) \<and> list_all (in_log sub) (envelopes (sub_sent sub))"
  using msgbus_contract.reachable_ordered [OF redb_contracts(1) [OF assms(1)] assms(4,3,2)] assms(5)
  by (auto simp: sys_ordered_def ordered_sub_def sorted_wrt_append list_all_iff)

definition demo_subscribe :: "u32 \<Rightarrow> subscribe_request" where
  "demo_subscribe n = \<lparr>sr_topic = ''a'', sr_origin = None, sr_from_head_id = 0, sr_replay_limit = n\<rparr>"

text \<open>
  Two concurrent publishes whose broadcasts swap: the later message is announced first, and the
  subscription then takes the earlier one for a duplicate.
\<close>

definition demo_redb_service :: "demo_tables service" where
  "demo_redb_service = \<lparr>svc_store = redb_store demo_redb, svc_node = demo_node\<rparr>"

definition demo_schedule :: "sys_event list" where
  "demo_schedule =
     [SubscribeEvent (demo_subscribe 10), ReplayEvent demo_env, StoreEvent demo_env (AppendMessage demo_message),
      StoreEvent demo_env (AppendMessage demo_message), BroadcastEvent 1, BroadcastEvent 0,
      RoundEvent, RoundEvent, RoundEvent]"

text \<open>What a client sees of a system: the subscription, the broadcasts still owed and those made.\<close>

definition observed :: "'s system \<Rightarrow> (subscription \<times> stored_message list \<times> stored_message list) option" where
  "observed y = (case sys_sub y of Running sub \<Rightarrow> Some (sub, sys_inflight y, sys_published y) | _ \<Rightarrow> None)"

definition demo_outcome :: "(bool \<times> bool \<times> bool \<times> bool \<times> u64 list \<times> u64 list) option" where
  "demo_outcome =
     map_option (\<lambda>(sub, pending, sent). (sub_open sub, sub_replay sub = [], sub_position sub = length sent, pending = [],
         map sm_head_id sent, delivered sub))
       (Option.bind (sys_exec_all (\<lambda>_. []) demo_redb_service demo_schedule (sys_init demo_tables)) observed)"

lemma demo_outcome: "demo_outcome = Some (True, True, True, True, [3, 2], [1, 3])"
  by code_simp

lemma demo_reachable:
  obtains y sub where "(sys_step (\<lambda>_. []) demo_redb_service)\<^sup>*\<^sup>* (sys_init demo_tables) y" "sys_sub y = Running sub"
    "sub_open sub" "sub_replay sub = []" "sub_position sub = length (sys_published y)" "sys_inflight y = []"
    "map sm_head_id (sys_published y) = [3, 2]" "delivered sub = [1, 3]"
proof -
  from demo_outcome obtain y sub pending sent where "sys_exec_all (\<lambda>_. []) demo_redb_service demo_schedule (sys_init demo_tables) = Some y"
    "observed y = Some (sub, pending, sent)" "sub_open sub" "sub_replay sub = []" "sub_position sub = length sent" "pending = []"
    "map sm_head_id sent = [3, 2]" "delivered sub = [1, 3]"
    unfolding demo_outcome_def by (auto simp: Option.bind_eq_Some_conv)
  then show ?thesis
    by (intro that [OF sys_exec_all_reachable]) (auto simp: observed_def split: sub_phase.splits)
qed

theorem subscription_ordered_witness:
  "\<exists>y sub. (sys_step (\<lambda>_. []) demo_redb_service)\<^sup>*\<^sup>* (sys_init demo_tables) y \<and> sys_sub y = Running sub
     \<and> delivered sub = [1, 3] \<and> sorted_wrt (<) (delivered sub) \<and> list_all (in_log sub) (envelopes (sub_sent sub))"
proof -
  obtain y sub where y: "(sys_step (\<lambda>_. []) demo_redb_service)\<^sup>*\<^sup>* (sys_init demo_tables) y" "sys_sub y = Running sub"
    "delivered sub = [1, 3]" by (rule demo_reachable)
  have "svc_store demo_redb_service = redb_store demo_redb" by (simp add: demo_redb_service_def)
  from subscription_ordered [OF demo_backends(2) demo_tables(1) this y(1,2)] y show ?thesis by blast
qed


text \<open>
  C5. When requests run one after the other, a subscription to the own node's log misses nothing:
  if the replay reaches the head of the log and at most as many requests follow as the broadcast channel
  holds, then the task, given the rounds it needs, has delivered every head from the requested one to
  the last one published, each once.
\<close>

theorem subscription_complete:
  assumes P: "sqlite_backend P" "sqlite_inv P (sv_store sv)" and svc: "svc_store svc = sqlite_store P"
    and sub: "srv_subscribe svc w request sv = Inr ss" "ss_origin ss = svc_node svc"
    and replay: "unat (head_of (sqlite_view P (sv_store sv)) (log_of (ss_topic ss) (svc_node svc)))
      < unat (ss_from_head_id ss) + page_size (sr_replay_limit request)"
    and rpcs: "list_all (\<lambda>(w, c). valid_part (uuid w)) (rpcs events)" "length (rpcs events) \<le> published_capacity"
    and rounds: "length (ss_replay ss) + length (rpcs events) \<le> n"
    and run: "serial_run lag_text svc (events @ replicate n Round) (sv, spawn_subscription ss) = (sv', sub')"
  shows "map unat (delivered sub') =
    [unat (ss_from_head_id ss)..<Suc (unat (head_of (sqlite_view P (sv_store sv')) (log_of (ss_topic ss) (svc_node svc))))]"
proof -
  have "unat (head_of (sqlite_view P (sv_store sv)) l) + length (rpcs events) < 2 ^ 64" for l
    using sqlite_heads_small [OF P(2), of l] rpcs(2) by (simp add: published_capacity_def)
  then show ?thesis
    using msgbus_contract.serial_completes [OF sqlite_contracts(1) [OF P(1)] P(2) svc sub refl replay rpcs _ rounds run] by blast
qed

definition demo_events :: "serial_event list" where
  "demo_events = [Round, Rpc (demo_with ''u1'') (PublishCall (demo_publish ''x'')), Rpc (demo_with ''u2'') (PublishCall (demo_publish ''y''))]"

definition demo_start :: "u32 \<Rightarrow> sqlite_db server \<Rightarrow> subscription_start" where
  "demo_start n sv = projr (srv_subscribe demo_service demo_env (demo_subscribe n) sv)"

definition demo_lag :: "nat \<Rightarrow> string" where
  "demo_lag n = ''channel lagged by '' @ dec_string n"

theorem subscription_complete_witness:
  "delivered (snd (serial_run demo_lag demo_service (demo_events @ replicate 3 Round)
      (demo_server, spawn_subscription (demo_start 10 demo_server)))) = [1, 2, 3]
   \<and> map unat (delivered (snd (serial_run demo_lag demo_service (demo_events @ replicate 3 Round)
      (demo_server, spawn_subscription (demo_start 10 demo_server)))))
     = [unat (ss_from_head_id (demo_start 10 demo_server))..<Suc (unat (head_of (sqlite_view demo_sqlite (sv_store
         (fst (serial_run demo_lag demo_service (demo_events @ replicate 3 Round) (demo_server, spawn_subscription (demo_start 10 demo_server))))))
         (log_of (ss_topic (demo_start 10 demo_server)) (svc_node demo_service))))]"
proof
  show "delivered (snd (serial_run demo_lag demo_service (demo_events @ replicate 3 Round)
      (demo_server, spawn_subscription (demo_start 10 demo_server)))) = [1, 2, 3]" by code_simp
  have start: "srv_subscribe demo_service demo_env (demo_subscribe 10) demo_server = Inr (demo_start 10 demo_server)"
    "ss_origin (demo_start 10 demo_server) = svc_node demo_service" "unat (ss_from_head_id (demo_start 10 demo_server)) = 1"
    "length (ss_replay (demo_start 10 demo_server)) = 1" "page_size (sr_replay_limit (demo_subscribe 10)) = 10"
    "length (rpcs demo_events) = 2" "list_all (\<lambda>(w, c). valid_part (uuid w)) (rpcs demo_events)"
    by code_simp+
  show "map unat (delivered (snd (serial_run demo_lag demo_service (demo_events @ replicate 3 Round)
      (demo_server, spawn_subscription (demo_start 10 demo_server)))))
     = [unat (ss_from_head_id (demo_start 10 demo_server))..<Suc (unat (head_of (sqlite_view demo_sqlite (sv_store
         (fst (serial_run demo_lag demo_service (demo_events @ replicate 3 Round) (demo_server, spawn_subscription (demo_start 10 demo_server))))))
         (log_of (ss_topic (demo_start 10 demo_server)) (svc_node demo_service))))]"
  proof (rule subscription_complete [OF demo_backends(1) _ _ start(1,2) _ start(7) _ _ surjective_pairing])
    show "sqlite_inv demo_sqlite (sv_store demo_server)" "svc_store demo_service = sqlite_store demo_sqlite"
      by (simp_all add: demo_server_def demo_service_def demo_db(1))
    show "unat (head_of (sqlite_view demo_sqlite (sv_store demo_server)) (log_of (ss_topic (demo_start 10 demo_server)) (svc_node demo_service)))
      < unat (ss_from_head_id (demo_start 10 demo_server)) + page_size (sr_replay_limit (demo_subscribe 10))"
    proof -
      have "sv_store demo_server = demo_db" by (simp add: demo_server_def)
      then show ?thesis
        unfolding start(3,5) using demo_room(1) [of "log_of (ss_topic (demo_start 10 demo_server)) (svc_node demo_service)"] by simp
    qed
  qed (simp_all add: start published_capacity_def)
qed


section \<open>Control messages\<close>

text \<open>
  C16. Replaying the control topic of a SQLite database at start-up always returns, whatever the
  database holds and whichever calls fail, and keeps the invariant, the heads and the history; if it
  reports success, every delete marker in force has its tombstone in the database.
\<close>

theorem control_replay_returns:
  assumes P: "sqlite_backend P" "sqlite_inv P db"
  shows "\<exists>i db' r. replay_control_messages S (sqlite_store P) ws db = Some ((i, db'), r) \<and> sqlite_inv P db'
    \<and> extends (sqlite_view P db) (sqlite_view P db') \<and> v_head (sqlite_view P db') = v_head (sqlite_view P db)
    \<and> (r = Inr () \<longrightarrow> (\<forall>origin h m. v_msg (sqlite_view P db') ((delete_topic, origin), h) = Some m
          \<longrightarrow> marker_applied S (sqlite_view P db') m))"
proof -
  have "head_of (sqlite_view P db) l \<noteq> - 1" for l
    using sqlite_heads_small [OF P(2), of l] by (auto simp: unsigned_minus_1_eq_mask mask_eq_exp_minus_1)
  from msgbus_contract.replay_control_ok [OF sqlite_contracts(1) [OF P(1)] P(2) this, of S ws]
  obtain i db' r where replay: "replay_control_messages S (sqlite_store P) ws db = Some ((i, db'), r)" "sqlite_inv P db'"
    "extends (sqlite_view P db) (sqlite_view P db')" "v_head (sqlite_view P db') = v_head (sqlite_view P db)"
    and markers: "r = Inr () \<longrightarrow> (\<forall>l h m. fst l = delete_topic \<longrightarrow> v_msg (sqlite_view P db') (l, h) = Some m \<longrightarrow> marker_applied S (sqlite_view P db') m)"
    by blast
  from markers have "r = Inr () \<longrightarrow> (\<forall>origin h m. v_msg (sqlite_view P db') ((delete_topic, origin), h) = Some m
      \<longrightarrow> marker_applied S (sqlite_view P db') m)" by (metis fst_conv)
  with replay show ?thesis by blast
qed

definition demo_marked :: sqlite_db where
  "demo_marked = fst (sqlite_tombstone_range_with_marker demo_sqlite demo_env (Topic ''a'') demo_node 1 1 (Topic delete_topic) demo_node demo_db)"

lemma demo_marked_inv: "sqlite_inv demo_sqlite demo_marked"
proof -
  have "valid_call demo_env (TombstoneRangeWithMarker (Topic ''a'') demo_node 1 1 (Topic delete_topic) demo_node)" by code_simp
  moreover have "\<exists>r. perform (sqlite_store demo_sqlite) demo_env
      (TombstoneRangeWithMarker (Topic ''a'') demo_node 1 1 (Topic delete_topic) demo_node) demo_db = (demo_marked, r)"
    by (simp add: demo_marked_def sqlite_store_def map_ok_def)
  ultimately show ?thesis
    using msgbus_contract.perform_ok [OF sqlite_contracts(1) [OF demo_backends(1)] demo_db(1)]
      msgbus_contract.perform_err [OF sqlite_contracts(1) [OF demo_backends(1)]] demo_db(1)
    by (metis sum.exhaust)
qed

theorem control_replay_returns_witness:
  "\<exists>i db'. replay_control_messages byte_serde (sqlite_store demo_sqlite) (\<lambda>_. demo_env) demo_marked = Some ((i, db'), Inr ())
    \<and> sqlite_inv demo_sqlite db' \<and> extends (sqlite_view demo_sqlite demo_marked) (sqlite_view demo_sqlite db')"
proof -
  have "map_option snd (replay_control_messages byte_serde (sqlite_store demo_sqlite) (\<lambda>_. demo_env) demo_marked) = Some (Inr ())"
    by code_simp
  with control_replay_returns [OF demo_backends(1) demo_marked_inv, of byte_serde "\<lambda>_. demo_env"] show ?thesis by auto
qed

end
