(* ===== verification/Rpc_Client.thy ===== *)
theory Rpc_Client
  imports Server_Service
begin

text \<open>
  The client side of the protocol. The client stub is generated from \<open>msgbus.proto\<close> by the build and
  talks to another process, so it is a record of functions over a connection state \<open>'c\<close>; the sync
  task and the SDK take it as an argument. A response stream that is read to its end is the list of
  its items and the status it ended with, if any; a subscription is a handle \<open>'h\<close> that is polled.
  \<open>loopback\<close> is the stub whose remote end is a server of this development, for the theorems that
  compose a client with a server; it carries no subscriptions, whose interleaving with requests is in
  \<open>Subscription\<close>.
\<close>

record ('c, 'h) rpc_client =
  rc_publish :: "publish_request \<Rightarrow> 'c \<Rightarrow> 'c \<times> publish_response rpc"
  rc_fetch :: "fetch_request \<Rightarrow> 'c \<Rightarrow> 'c \<times> (fetch_response list \<times> status option) rpc"
  rc_subscribe :: "subscribe_request \<Rightarrow> 'c \<Rightarrow> 'c \<times> 'h rpc"
  rc_message :: "'h \<Rightarrow> 'c \<Rightarrow> ('c \<times> 'h) \<times> subscribe_response option rpc"
  rc_get_head :: "get_head_request \<Rightarrow> 'c \<Rightarrow> 'c \<times> get_head_response rpc"
  rc_list_heads :: "'c \<Rightarrow> 'c \<times> pb_topic_head list rpc"
  rc_list_peer_sync_states :: "'c \<Rightarrow> 'c \<times> pb_peer_sync_state list rpc"
  rc_delete_range :: "delete_range_request \<Rightarrow> 'c \<Rightarrow> 'c \<times> u64 rpc"
  rc_enqueue_fifo :: "enqueue_fifo_request \<Rightarrow> 'c \<Rightarrow> 'c \<times> fifo_response rpc"
  rc_peek_fifo :: "string \<Rightarrow> 'c \<Rightarrow> 'c \<times> fifo_response rpc"
  rc_ack_fifo :: "ack_fifo_request \<Rightarrow> 'c \<Rightarrow> 'c \<times> bool rpc"
  rc_reject_fifo :: "reject_fifo_request \<Rightarrow> 'c \<Rightarrow> 'c \<times> bool rpc"
  rc_health :: "'c \<Rightarrow> 'c \<times> health_response rpc"
  rc_ready :: "'c \<Rightarrow> 'c \<times> ready_response rpc"

text \<open>
  A stub connected to a server: the connection is the server's state and the number of requests so
  far, which picks the environment of the next one.
\<close>

type_synonym 's remote = "'s server \<times> nat"

definition read_call ::
  "(nat \<Rightarrow> call_env) \<Rightarrow> (call_env \<Rightarrow> 's server \<Rightarrow> 'a rpc) \<Rightarrow> 's remote \<Rightarrow> 's remote \<times> 'a rpc" where
  "read_call ws f c = ((fst c, Suc (snd c)), f (ws (snd c)) (fst c))"

definition write_call ::
  "(nat \<Rightarrow> call_env) \<Rightarrow> (call_env \<Rightarrow> 's server \<Rightarrow> 's server \<times> 'a rpc) \<Rightarrow> 's remote \<Rightarrow> 's remote \<times> 'a rpc" where
  "write_call ws f c = (let (sv, r) = f (ws (snd c)) (fst c) in ((sv, Suc (snd c)), r))"

definition loopback :: "'s service \<Rightarrow> (nat \<Rightarrow> call_env) \<Rightarrow> ('s remote, unit) rpc_client" where
  "loopback svc ws =
     \<lparr>rc_publish = (\<lambda>r. write_call ws (\<lambda>w. srv_publish svc w r)),
      rc_fetch = (\<lambda>r. read_call ws (\<lambda>w sv. and_then (srv_fetch svc w r sv) (\<lambda>ms. Inr (ms, None)))),
      rc_subscribe = (\<lambda>r c. (c, Inl (status Unimplemented []))),
      rc_message = (\<lambda>h c. ((c, h), Inr None)),
      rc_get_head = (\<lambda>r. read_call ws (\<lambda>w. srv_get_head svc w r)),
      rc_list_heads = read_call ws (\<lambda>w. srv_list_heads svc w),
      rc_list_peer_sync_states = read_call ws (\<lambda>w. srv_list_peer_sync_states svc w),
      rc_delete_range = (\<lambda>r. write_call ws (\<lambda>w. srv_delete_range svc w r)),
      rc_enqueue_fifo = (\<lambda>r. write_call ws (\<lambda>w. srv_enqueue_fifo svc w r)),
      rc_peek_fifo = (\<lambda>q. read_call ws (\<lambda>w. srv_peek_fifo svc w q)),
      rc_ack_fifo = (\<lambda>r. write_call ws (\<lambda>w. srv_ack_fifo svc w r)),
      rc_reject_fifo = (\<lambda>r. write_call ws (\<lambda>w. srv_reject_fifo svc w r)),
      rc_health = read_call ws (\<lambda>w sv. srv_health svc),
      rc_ready = read_call ws (\<lambda>w. srv_ready svc w)\<rparr>"

end
