(* ===== verification/Peer_Sync.thy ===== *)
theory Peer_Sync
  imports Rpc_Client Server_Laws
begin

text \<open>
  Peer synchronisation, \<open>crates/msgbus-server/src/sync.rs\<close>: parsing of peer specifications, the
  connection and the check of the peer's identity, copying one log, one pass over the peers and the
  background task. Sockets, TLS and files are arguments. The state of a pass is the local store, the
  broadcast history and the number of store calls so far, which picks the environment of the next
  one; below a connection it is paired with the connection's state.
\<close>

section \<open>Errors\<close>

text \<open>A boxed error is only ever printed; how a gRPC status prints belongs to its library.\<close>

datatype sync_error = SyncStatus status | SyncStore msgbus_error | SyncText string

definition status_box :: "status \<Rightarrow> sync_error" where
  "status_box s = SyncStatus s"

section \<open>Configuration\<close>

definition rsplit_once :: "char \<Rightarrow> string \<Rightarrow> (string \<times> string) option" where
  "rsplit_once c v =
     (if c \<in> set v
      then Some (rev (tl (dropWhile (\<lambda>x. x \<noteq> c) (rev v))), rev (takeWhile (\<lambda>x. x \<noteq> c) (rev v)))
      else None)"

lemma rsplit_once_Some: "rsplit_once c v = Some (a, b) \<longleftrightarrow> v = a @ c # b \<and> c \<notin> set b"
proof
  assume r: "rsplit_once c v = Some (a, b)"
  then have "c \<in> set v" and a: "a = rev (tl (dropWhile (\<lambda>x. x \<noteq> c) (rev v)))" and b: "b = rev (takeWhile (\<lambda>x. x \<noteq> c) (rev v))"
    by (auto simp: rsplit_once_def split: if_splits)
  then obtain ys where ys: "dropWhile (\<lambda>x. x \<noteq> c) (rev v) = c # ys"
    using dropWhile_eq_Nil_conv [of "\<lambda>x. x \<noteq> c" "rev v"] hd_dropWhile [of "\<lambda>x. x \<noteq> c" "rev v"]
    by (cases "dropWhile (\<lambda>x. x \<noteq> c) (rev v)") auto
  have "rev v = takeWhile (\<lambda>x. x \<noteq> c) (rev v) @ c # ys" using ys takeWhile_dropWhile_id by metis
  then have "v = rev (takeWhile (\<lambda>x. x \<noteq> c) (rev v) @ c # ys)" by (metis rev_rev_ident)
  moreover have "c \<notin> set b" unfolding b by (auto dest: set_takeWhileD)
  ultimately show "v = a @ c # b \<and> c \<notin> set b" using a b ys by simp
next
  assume v: "v = a @ c # b \<and> c \<notin> set b"
  then have "x \<noteq> c" if "x \<in> set (rev b)" for x using that by auto
  then have "takeWhile (\<lambda>x. x \<noteq> c) (rev b @ c # rev a) = rev b" "dropWhile (\<lambda>x. x \<noteq> c) (rev b @ c # rev a) = c # rev a"
    using takeWhile_append2 [of "rev b" "\<lambda>x. x \<noteq> c" "c # rev a"] dropWhile_append2 [of "rev b" "\<lambda>x. x \<noteq> c" "c # rev a"] by auto
  with v show "rsplit_once c v = Some (a, b)" by (simp add: rsplit_once_def)
qed

record peer_spec =
  peer_endpoint :: string
  peer_expected_node :: "node_id option"

definition peer_spec_parse :: "string \<Rightarrow> peer_spec res" where
  "peer_spec_parse value =
     (if blank value then Inl (InvalidArgument ''peer is empty'')
      else case rsplit_once (CHR ''='') value of
        Some (endpoint, key) \<Rightarrow>
          (if blank endpoint then Inl (InvalidArgument ''peer endpoint is empty'')
           else and_then (node_from_key key) (\<lambda>node.
             Inr \<lparr>peer_endpoint = endpoint, peer_expected_node = Some node\<rparr>))
      | None \<Rightarrow> Inr \<lparr>peer_endpoint = value, peer_expected_node = None\<rparr>)"

record peer_client_tls_config =
  tls_ca_cert :: "string option"
  tls_cert :: "string option"
  tls_key :: "string option"
  tls_domain_name :: "string option"

definition tls_is_enabled :: "peer_client_tls_config \<Rightarrow> bool" where
  "tls_is_enabled tls \<longleftrightarrow>
     tls_ca_cert tls \<noteq> None \<or> tls_cert tls \<noteq> None \<or> tls_key tls \<noteq> None \<or> tls_domain_name tls \<noteq> None"

record peer_sync_config =
  cfg_local_node :: node_id
  cfg_peers :: "peer_spec list"
  cfg_interval_ms :: u64
  cfg_batch_limit :: u32
  cfg_tls :: "peer_client_tls_config option"

definition peer_sync_disabled :: "node_id \<Rightarrow> peer_sync_config" where
  "peer_sync_disabled local_node =
     \<lparr>cfg_local_node = local_node, cfg_peers = [], cfg_interval_ms = 1000, cfg_batch_limit = 100,
      cfg_tls = None\<rparr>"

definition peer_sync_is_enabled :: "peer_sync_config \<Rightarrow> bool" where
  "peer_sync_is_enabled config \<longleftrightarrow> cfg_peers config \<noteq> []"

section \<open>Connecting\<close>

text \<open>
  The transport library: parsing an endpoint, attaching a TLS configuration to it, opening the
  connection (which may go differently each time) and reading a file.
\<close>

record client_tls =
  ct_ca_certificate :: "bytes option"
  ct_identity :: "(bytes \<times> bytes) option"
  ct_domain_name :: "string option"

record ('e, 'c) transport =
  tp_from_shared :: "string \<Rightarrow> string + 'e"
  tp_tls_config :: "client_tls \<Rightarrow> 'e \<Rightarrow> string + 'e"
  tp_connect :: "nat \<Rightarrow> 'e \<Rightarrow> string + 'c"
  tp_read :: "string \<Rightarrow> string + bytes"

definition client_tls_of :: "('e, 'c) transport \<Rightarrow> peer_client_tls_config \<Rightarrow> sync_error + client_tls" where
  "client_tls_of T tls =
     and_then (case tls_ca_cert tls of
         Some ca_cert \<Rightarrow> and_then (map_err SyncText (tp_read T ca_cert)) (\<lambda>pem. Inr (Some pem))
       | None \<Rightarrow> Inr None) (\<lambda>ca.
     and_then (case (tls_cert tls, tls_key tls) of
         (Some cert, Some key) \<Rightarrow>
           and_then (map_err SyncText (tp_read T cert)) (\<lambda>cert.
           and_then (map_err SyncText (tp_read T key)) (\<lambda>key. Inr (Some (cert, key))))
       | (None, None) \<Rightarrow> Inr None
       | _ \<Rightarrow> Inl (SyncText ''peer TLS cert and key must be configured together'')) (\<lambda>identity.
     Inr \<lparr>ct_ca_certificate = ca, ct_identity = identity, ct_domain_name = tls_domain_name tls\<rparr>))"

definition connect_peer ::
  "('e, 'c) transport \<Rightarrow> nat \<Rightarrow> peer_spec \<Rightarrow> peer_client_tls_config option \<Rightarrow> sync_error + 'c" where
  "connect_peer T i peer tls =
     and_then (map_err SyncText (tp_from_shared T (peer_endpoint peer))) (\<lambda>endpoint.
     and_then
      (case tls of
         Some tls \<Rightarrow>
           (if tls_is_enabled tls
            then and_then (client_tls_of T tls) (\<lambda>config. map_err SyncText (tp_tls_config T config endpoint))
            else Inr endpoint)
       | None \<Rightarrow> Inr endpoint) (\<lambda>endpoint.
     map_err SyncText (tp_connect T i endpoint)))"

section \<open>Passes\<close>

record 's sync_state =
  sy_store :: 's
  sy_published :: "stored_message list"
  sy_calls :: nat

record ('s, 'c, 'h) sync_params =
  sp_store :: "'s msgbus_store"
  sp_serde :: serde
  sp_client :: "('c, 'h) rpc_client"
  sp_env :: "nat \<Rightarrow> call_env"
  sp_status_text :: "status \<Rightarrow> string"

fun sync_error_text :: "('s, 'c, 'h) sync_params \<Rightarrow> sync_error \<Rightarrow> string" where
  "sync_error_text p (SyncStatus s) = sp_status_text p s"
| "sync_error_text p (SyncStore e) = error_to_string e"
| "sync_error_text p (SyncText t) = t"

text \<open>A call of the local store, and a call of the peer.\<close>

definition sync_store_call ::
  "('s, 'c, 'h) sync_params \<Rightarrow> ('e \<Rightarrow> sync_error) \<Rightarrow> (call_env \<Rightarrow> 's \<Rightarrow> 's \<times> ('e + 'a)) \<Rightarrow> 's sync_state
     \<Rightarrow> 's sync_state \<times> (sync_error + 'a)" where
  "sync_store_call p err f y =
     (let (s, r) = f (sp_env p (sy_calls y)) (sy_store y)
      in (y\<lparr>sy_store := s, sy_calls := Suc (sy_calls y)\<rparr>, map_err err r))"

definition locally :: "('t \<Rightarrow> 't \<times> 'r) \<Rightarrow> 't \<times> 'c \<Rightarrow> ('t \<times> 'c) \<times> 'r" where
  "locally f yc = (let (y, r) = f (fst yc) in ((y, snd yc), r))"

lemma locally_eq: "locally f yc = (yc', r) \<longleftrightarrow> f (fst yc) = (fst yc', r) \<and> snd yc' = snd yc"
  by (cases yc') (auto simp: locally_def split: prod.splits)

definition remotely :: "('c \<Rightarrow> 'c \<times> 'a rpc) \<Rightarrow> 't \<times> 'c \<Rightarrow> ('t \<times> 'c) \<times> (sync_error + 'a)" where
  "remotely f yc = (let (c, r) = f (snd yc) in ((fst yc, c), map_err SyncStatus r))"

definition record_peer_sync_success ::
  "('s, 'c, 'h) sync_params \<Rightarrow> peer_spec \<Rightarrow> topic option \<Rightarrow> node_id option \<Rightarrow> u64 \<Rightarrow> u64 \<Rightarrow> u64
     \<Rightarrow> 's sync_state \<Rightarrow> 's sync_state \<times> (sync_error + unit)" where
  "record_peer_sync_success p peer topic origin local_head remote_head last_synced_head =
     sync_store_call p SyncStore (\<lambda>w. st_record_peer_sync_state (sp_store p) w
       \<lparr>ps_peer = peer_endpoint peer, ps_topic = topic, ps_origin = origin, ps_local_head = local_head,
        ps_remote_head = remote_head, ps_last_synced_head = last_synced_head,
        ps_last_attempt_at_ms = now w 0, ps_last_success_at_ms = now w 1,
        ps_consecutive_failures = 0, ps_last_error = None\<rparr>)"

definition record_peer_sync_failure ::
  "('s, 'c, 'h) sync_params \<Rightarrow> peer_spec \<Rightarrow> topic option \<Rightarrow> node_id option \<Rightarrow> u64 \<Rightarrow> u64 \<Rightarrow> string
     \<Rightarrow> 's sync_state \<Rightarrow> 's sync_state \<times> (sync_error + unit)" where
  "record_peer_sync_failure p peer topic origin local_head remote_head error =
     sync_store_call p SyncStore (\<lambda>w. st_record_peer_sync_state (sp_store p) w
       \<lparr>ps_peer = peer_endpoint peer, ps_topic = topic, ps_origin = origin, ps_local_head = local_head,
        ps_remote_head = remote_head, ps_last_synced_head = local_head,
        ps_last_attempt_at_ms = now w 0, ps_last_success_at_ms = 0,
        ps_consecutive_failures = 0, ps_last_error = Some error\<rparr>)"

definition verify_peer_identity ::
  "('s, 'c, 'h) sync_params \<Rightarrow> node_id \<Rightarrow> peer_spec \<Rightarrow> 't \<times> 'c \<Rightarrow> ('t \<times> 'c) \<times> (sync_error + unit)" where
  "verify_peer_identity p local_node peer yc =
     bind_on (remotely (rc_health (sp_client p)) yc) (\<lambda>yc response.
     try_on yc (map_err status_box (transpose_opt (map_option core_node (hr_node response)))) (\<lambda>node.
     try_on yc (ok_or (SyncText (''peer '' @ peer_endpoint peer @ '' health response has no node'')) node)
      (\<lambda>remote_node.
     if remote_node = local_node
     then (yc, Inl (SyncText (''peer '' @ peer_endpoint peer @ '' reports the local node identity'')))
     else case peer_expected_node peer of
         Some expected_node \<Rightarrow>
           (if remote_node \<noteq> expected_node
            then (yc, Inl (SyncText (''peer '' @ peer_endpoint peer @ '' identity mismatch: expected ''
                    @ node_key expected_node @ '', got '' @ node_key remote_node)))
            else (yc, Inr ()))
       | None \<Rightarrow> (yc, Inr ()))))"

definition local_head_of ::
  "('s, 'c, 'h) sync_params \<Rightarrow> topic_head \<Rightarrow> 's sync_state \<Rightarrow> 's sync_state \<times> (sync_error + u64)" where
  "local_head_of p head =
     sync_store_call p SyncStore (\<lambda>w s. (s,
       and_then (st_get_head (sp_store p) w (th_topic head) (th_origin head) s)
         (\<lambda>found. Inr (case found of None \<Rightarrow> 0 | Some h \<Rightarrow> h))))"

text \<open>One item of a response stream of \<open>fetch\<close>, giving the head of its message, and all of them.\<close>

definition sync_message ::
  "('s, 'c, 'h) sync_params \<Rightarrow> peer_spec \<Rightarrow> topic_head \<Rightarrow> message_envelope \<Rightarrow> 's sync_state
     \<Rightarrow> 's sync_state \<times> (sync_error + u64)" where
  "sync_message p peer head envelope y =
     try_on y (map_err status_box (core_message envelope)) (\<lambda>message.
     if sm_topic message \<noteq> th_topic head \<or> sm_origin message \<noteq> th_origin head
     then (y, Inl (SyncText (''peer '' @ peer_endpoint peer @ '' returned mismatched message for topic=''
             @ topic_str (th_topic head) @ '' origin='' @ node_key (th_origin head))))
     else
       bind_on (sync_store_call p SyncStore (\<lambda>w. st_put_replicated_message (sp_store p) w message) y)
        (\<lambda>y result.
       bind_on (sync_store_call p status_box (\<lambda>w. apply_control_message (sp_serde p) (sp_store p) w message) y)
        (\<lambda>y _.
       (case result of
          Inserted \<Rightarrow> y\<lparr>sy_published := sy_published y @ [message]\<rparr>
        | AlreadyPresent \<Rightarrow> y,
        Inr (sm_head_id message)))))"

fun sync_messages ::
  "('s, 'c, 'h) sync_params \<Rightarrow> peer_spec \<Rightarrow> topic_head \<Rightarrow> fetch_response list \<Rightarrow> u64 \<Rightarrow> u32 \<Rightarrow> 's sync_state
     \<Rightarrow> 's sync_state \<times> (sync_error + u64 \<times> u32)" where
  "sync_messages p peer head [] local_head fetched y = (y, Inr (local_head, fetched))"
| "sync_messages p peer head (None # responses) local_head fetched y =
     sync_messages p peer head responses local_head fetched y"
| "sync_messages p peer head (Some envelope # responses) local_head fetched y =
     bind_on (sync_message p peer head envelope y) (\<lambda>y head_id.
     sync_messages p peer head responses (max local_head head_id) (saturating_add fetched 1) y)"

text \<open>The outer loop: it goes on only while the local head rises, so it ends whatever the peer sends.\<close>

lemma sync_messages_mono:
  "sync_messages p peer head rs lh n y = (y', Inr (lh', n')) \<Longrightarrow> lh \<le> lh'"
proof (induction rs arbitrary: lh n y)
  case (Cons r rs)
  then show ?case by (cases r) (auto simp: bind_on_eq_Inr dest!: Cons.IH)
qed auto

lemma bind_on_cong [fundef_cong]:
  "tr = tr' \<Longrightarrow> (\<And>t a. tr' = (t, Inr a) \<Longrightarrow> f t a = g t a) \<Longrightarrow> bind_on tr f = bind_on tr' g"
  by (auto simp: bind_on_def split: prod.split sum.split)

definition head_fetch_request :: "topic_head \<Rightarrow> u64 \<Rightarrow> u32 \<Rightarrow> fetch_request" where
  "head_fetch_request head local_head batch_limit =
     \<lparr>fr_topic = topic_str (th_topic head),
      fr_origin = Some \<lparr>pn_tenant_id = tenant_id (th_origin head), pn_bl_name = bl_name (th_origin head),
                        pn_device_id = device_id (th_origin head)\<rparr>,
      fr_from_head_id = saturating_add local_head 1, fr_limit = max batch_limit 1\<rparr>"

text \<open>One response stream: its items, and then the status that ended it, if it did not end well.\<close>

definition sync_batch ::
  "('s, 'c, 'h) sync_params \<Rightarrow> peer_spec \<Rightarrow> topic_head \<Rightarrow> u32 \<Rightarrow> u64 \<Rightarrow> 's sync_state \<times> 'c
     \<Rightarrow> ('s sync_state \<times> 'c) \<times> (sync_error + u64 \<times> u32)" where
  "sync_batch p peer head batch_limit local_head yc =
     bind_on (remotely (rc_fetch (sp_client p) (head_fetch_request head local_head batch_limit)) yc)
      (\<lambda>yc (responses, failure).
     bind_on (locally (sync_messages p peer head responses local_head 0) yc) (\<lambda>yc reached.
     case failure of Some s \<Rightarrow> (yc, Inl (SyncStatus s)) | None \<Rightarrow> (yc, Inr reached)))"

lemma sync_batch_mono:
  "sync_batch p peer head limit lh yc = (yc', Inr (lh', n)) \<Longrightarrow> lh \<le> lh'"
  by (auto simp: sync_batch_def bind_on_eq_Inr locally_eq split: prod.splits option.splits dest: sync_messages_mono)

function sync_log ::
  "('s, 'c, 'h) sync_params \<Rightarrow> peer_spec \<Rightarrow> topic_head \<Rightarrow> u32 \<Rightarrow> u64 \<Rightarrow> 's sync_state \<times> 'c
     \<Rightarrow> ('s sync_state \<times> 'c) \<times> (sync_error + u64)" where
  "sync_log p peer head batch_limit local_head yc =
     (if local_head < th_head_id head then
        bind_on (sync_batch p peer head batch_limit local_head yc) (\<lambda>yc reached.
        bind_on (locally (record_peer_sync_success p peer (Some (th_topic head)) (Some (th_origin head))
            (fst reached) (th_head_id head) (fst reached)) yc) (\<lambda>yc _.
        if snd reached = 0 \<or> fst reached = local_head then (yc, Inr (fst reached))
        else sync_log p peer head batch_limit (fst reached) yc))
      else (yc, Inr local_head))"
  by pat_completeness auto

termination
proof (relation "measure (\<lambda>(p, peer, head, limit, local_head, yc). unat (th_head_id head) - unat local_head)", goal_cases)
  case (2 p peer head limit local_head yc t reached t' u)
  from 2(2) have "local_head \<le> fst reached"
    using sync_batch_mono [of p peer head limit local_head yc t "fst reached" "snd reached"] by simp
  with 2(1,4) have "unat local_head < unat (th_head_id head)" "unat local_head < unat (fst reached)"
    by (auto simp: word_less_nat_alt word_le_nat_alt word_unat_eq_iff)
  then show ?case by simp
qed simp

declare sync_log.simps [simp del]

definition sync_head ::
  "('s, 'c, 'h) sync_params \<Rightarrow> peer_spec \<Rightarrow> topic_head \<Rightarrow> u32 \<Rightarrow> 's sync_state \<times> 'c
     \<Rightarrow> ('s sync_state \<times> 'c) \<times> (sync_error + unit)" where
  "sync_head p peer head batch_limit yc =
     bind_on (locally (local_head_of p head) yc) (\<lambda>yc local_head.
     bind_on (sync_log p peer head batch_limit local_head yc) (\<lambda>yc local_head.
     if th_head_id head \<le> local_head
     then locally (record_peer_sync_success p peer (Some (th_topic head)) (Some (th_origin head))
            local_head (th_head_id head) local_head) yc
     else (yc, Inr ())))"

fun sync_heads ::
  "('s, 'c, 'h) sync_params \<Rightarrow> peer_spec \<Rightarrow> u32 \<Rightarrow> pb_topic_head list \<Rightarrow> 's sync_state \<times> 'c
     \<Rightarrow> ('s sync_state \<times> 'c) \<times> (sync_error + unit)" where
  "sync_heads p peer batch_limit [] yc = (yc, Inr ())"
| "sync_heads p peer batch_limit (pb_head # heads) yc =
     try_on yc (map_err status_box (core_topic_head pb_head)) (\<lambda>head.
     case sync_head p peer head batch_limit yc of
       (yc, Inl err) \<Rightarrow>
         bind_on (locally (local_head_of p head) yc) (\<lambda>yc local_head.
         bind_on (locally (record_peer_sync_failure p peer (Some (th_topic head)) (Some (th_origin head))
             local_head (th_head_id head) (sync_error_text p err)) yc) (\<lambda>yc _.
         (yc, Inl err)))
     | (yc, Inr _) \<Rightarrow> sync_heads p peer batch_limit heads yc)"

definition sync_connected ::
  "('s, 'c, 'h) sync_params \<Rightarrow> node_id \<Rightarrow> peer_spec \<Rightarrow> u32 \<Rightarrow> 's sync_state \<times> 'c
     \<Rightarrow> ('s sync_state \<times> 'c) \<times> (sync_error + unit)" where
  "sync_connected p local_node peer batch_limit yc =
     bind_on (verify_peer_identity p local_node peer yc) (\<lambda>yc _.
     bind_on (remotely (rc_list_heads (sp_client p)) yc) (\<lambda>yc heads.
     bind_on (sync_heads p peer batch_limit heads yc) (\<lambda>yc _.
     locally (record_peer_sync_success p peer None None 0 0 0) yc)))"

definition sync_peer ::
  "('s, 'c, 'h) sync_params \<Rightarrow> ('e, 'c) transport \<Rightarrow> node_id \<Rightarrow> peer_spec \<Rightarrow> u32
     \<Rightarrow> peer_client_tls_config option \<Rightarrow> 's sync_state \<Rightarrow> 's sync_state \<times> (sync_error + unit)" where
  "sync_peer p T local_node peer batch_limit tls y =
     try_on y (connect_peer T (sy_calls y) peer tls) (\<lambda>client.
     let ((y, client), r) = sync_connected p local_node peer batch_limit (y, client) in (y, r))"

text \<open>One pass: every peer is tried, failures are recorded, and the first error is reported.\<close>

fun sync_peers ::
  "('s, 'c, 'h) sync_params \<Rightarrow> ('e, 'c) transport \<Rightarrow> peer_sync_config \<Rightarrow> peer_spec list \<Rightarrow> string option
     \<Rightarrow> 's sync_state \<Rightarrow> 's sync_state \<times> string option" where
  "sync_peers p T config [] first_error y = (y, first_error)"
| "sync_peers p T config (peer # peers) first_error y =
     (case sync_peer p T (cfg_local_node config) peer (cfg_batch_limit config) (cfg_tls config) y of
        (y, Inr _) \<Rightarrow> sync_peers p T config peers first_error y
      | (y, Inl err) \<Rightarrow>
          (let error = sync_error_text p err;
               (y, _) = record_peer_sync_failure p peer None None 0 0 error y
           in sync_peers p T config peers (if first_error = None then Some error else first_error) y))"

definition sync_once ::
  "('s, 'c, 'h) sync_params \<Rightarrow> ('e, 'c) transport \<Rightarrow> peer_sync_config \<Rightarrow> 's sync_state
     \<Rightarrow> 's sync_state \<times> (sync_error + unit)" where
  "sync_once p T config y =
     (case sync_peers p T config (cfg_peers config) None y of
        (y, Some error) \<Rightarrow> (y, Inl (SyncText error))
      | (y, None) \<Rightarrow> (y, Inr ()))"

section \<open>The background task\<close>

text \<open>
  What the \<open>select!\<close> of the task receives: a tick of the interval, a new value of the shutdown
  channel, or that the channel's sender is gone. The result tells whether the task has ended.
\<close>

datatype task_event = Tick | Shutdown bool | SenderDropped

fun peer_sync_task ::
  "('s, 'c, 'h) sync_params \<Rightarrow> ('e, 'c) transport \<Rightarrow> peer_sync_config \<Rightarrow> task_event list \<Rightarrow> 's sync_state
     \<Rightarrow> 's sync_state \<times> bool" where
  "peer_sync_task p T config [] y = (y, False)"
| "peer_sync_task p T config (Tick # events) y =
     peer_sync_task p T config events (fst (sync_once p T config y))"
| "peer_sync_task p T config (Shutdown b # events) y =
     (if b then (y, True) else peer_sync_task p T config events y)"
| "peer_sync_task p T config (SenderDropped # events) y = (y, True)"

text \<open>
  \<open>spawn_peer_sync\<close> drops the sender of the shutdown channel when it returns, so besides the ticks that
  \<open>select\<close> takes first the task only sees the channel close.
\<close>

definition spawn_peer_sync ::
  "('s, 'c, 'h) sync_params \<Rightarrow> ('e, 'c) transport \<Rightarrow> peer_sync_config \<Rightarrow> nat \<Rightarrow> 's sync_state \<Rightarrow> 's sync_state \<times> bool" where
  "spawn_peer_sync p T config ticks y = peer_sync_task p T config (replicate ticks Tick @ [SenderDropped]) y"

lemma spawn_peer_sync_ends: "snd (spawn_peer_sync p T config ticks y)"
  unfolding spawn_peer_sync_def by (induction ticks arbitrary: y) simp_all

end
