(* ===== verification/Sync_Laws.thy ===== *)
theory Sync_Laws
  imports Peer_Sync Server_Control
begin

text \<open>
  What a sync pass does to a local store that keeps the contract. Whatever the peer answers, and
  whichever calls fail, a pass only extends the store, and everything it broadcasts is stored.
\<close>

declare split_paired_All [simp del] split_paired_Ex [simp del]

section \<open>What the sync task does to the daemon\<close>

text \<open>
  The actions of the sync task on the daemon's store and broadcast channel, whatever a peer sends
  and whichever calls fail: recording the state of a peer, storing a message that passed the validation,
  applying it if it is a control message, and broadcasting the message that it stored last. The second
  component is the message whose broadcast is outstanding.
\<close>

type_synonym 's sync_view = "'s server \<times> stored_message option"

inductive sync_act :: "serde \<Rightarrow> 's msgbus_store \<Rightarrow> 's sync_view \<Rightarrow> 's sync_view \<Rightarrow> bool" for S st where
  record_peer: "scoped_peer ps \<Longrightarrow> st_record_peer_sync_state st w ps (sv_store sv) = (s, r) \<Longrightarrow>
    sync_act S st (sv, unsent) (sv\<lparr>sv_store := s\<rparr>, unsent)"
| put_message: "core_message e = Inr m \<Longrightarrow> st_put_replicated_message st w m (sv_store sv) = (s, r) \<Longrightarrow>
    sync_act S st (sv, unsent) (sv\<lparr>sv_store := s\<rparr>, if r = Inr Inserted then Some m else None)"
| control_message: "core_message e = Inr m \<Longrightarrow> apply_control_message S st w m (sv_store sv) = (s, r) \<Longrightarrow>
    sync_act S st (sv, unsent) (sv\<lparr>sv_store := s\<rparr>, unsent)"
| broadcast: "sync_act S st (sv, Some m) (sv\<lparr>sv_published := sv_published sv @ [m]\<rparr>, None)"

inductive_cases sync_actE: "sync_act S st a b"

definition sync_server :: "'s sync_state \<Rightarrow> 's server" where
  "sync_server y = \<lparr>sv_store = sy_store y, sv_published = sy_published y\<rparr>"

lemma sync_server_sel [simp]: "sv_store (sync_server y) = sy_store y" "sv_published (sync_server y) = sy_published y"
  by (simp_all add: sync_server_def)

text \<open>One state of the sync task comes from another one by such actions.\<close>

definition sync_path :: "('s, 'c, 'h) sync_params \<Rightarrow> 's sync_state \<Rightarrow> 's sync_state \<Rightarrow> bool" where
  "sync_path p y y' \<longleftrightarrow> (\<forall>unsent. \<exists>unsent'. (sync_act (sp_serde p) (sp_store p))\<^sup>*\<^sup>* (sync_server y, unsent) (sync_server y', unsent'))"

lemma sync_path_refl [simp]: "sync_path p y y"
  by (auto simp: sync_path_def)

lemma sync_path_trans: "sync_path p a b \<Longrightarrow> sync_path p b c \<Longrightarrow> sync_path p a c"
  unfolding sync_path_def by (meson rtranclp_trans)

text \<open>Composing steps: a chain of fallible steps is a path if each of them is.\<close>

lemma path_try:
  "try_on y x f = (y', r) \<Longrightarrow> (\<And>a y' r. x = Inr a \<Longrightarrow> f a = (y', r) \<Longrightarrow> sync_path p y y') \<Longrightarrow> sync_path p y y'"
  by (cases x) auto

lemma path_bind:
  "bind_on tr f = (y', r) \<Longrightarrow> (\<And>z x. tr = (z, x) \<Longrightarrow> sync_path p y z) \<Longrightarrow>
   (\<And>z a y' r. tr = (z, Inr a) \<Longrightarrow> f z a = (y', r) \<Longrightarrow> sync_path p z y') \<Longrightarrow> sync_path p y y'"
  by (cases tr; cases "snd tr") (auto intro: sync_path_trans)

lemma path_bind_fst:
  "bind_on tr f = (yc', r) \<Longrightarrow> (\<And>z x. tr = (z, x) \<Longrightarrow> sync_path p y (fst z)) \<Longrightarrow>
   (\<And>z a yc' r. tr = (z, Inr a) \<Longrightarrow> f z a = (yc', r) \<Longrightarrow> sync_path p (fst z) (fst yc')) \<Longrightarrow> sync_path p y (fst yc')"
  by (cases tr; cases "snd tr") (simp, metis sync_path_trans bind_on_simps prod.collapse)+

lemma path_try_fst:
  "try_on yc x f = (yc', r) \<Longrightarrow> (\<And>a yc' r. x = Inr a \<Longrightarrow> f a = (yc', r) \<Longrightarrow> sync_path p (fst yc) (fst yc')) \<Longrightarrow>
   sync_path p (fst yc) (fst yc')"
  by (cases x) auto

lemma remotely_fst: "remotely f yc = (yc', r) \<Longrightarrow> fst yc' = fst yc"
  by (auto simp: remotely_def split: prod.splits)

lemma locally_fst: "locally f yc = (yc', r) \<Longrightarrow> f (fst yc) = (fst yc', r)"
  by (auto simp: locally_eq)

lemma store_call_path:
  assumes "sync_store_call p err f y = (y', r)"
    and "\<And>w s x unsent. f w (sy_store y) = (s, x) \<Longrightarrow>
      \<exists>unsent'. (sync_act (sp_serde p) (sp_store p))\<^sup>*\<^sup>* (sync_server y, unsent) (sync_server y\<lparr>sv_store := s\<rparr>, unsent')"
  shows "sync_path p y y'"
  using assms(1) assms(2) [OF surjective_pairing]
  by (auto simp: sync_path_def sync_store_call_def sync_server_def split: prod.splits) (metis fst_conv)

lemma record_path:
  assumes "sync_store_call p err (\<lambda>w. st_record_peer_sync_state (sp_store p) w (ps w)) y = (y', r)" "\<And>w. scoped_peer (ps w)"
  shows "sync_path p y y'"
  using assms(1)
proof (rule store_call_path)
  fix w s x unsent
  assume "st_record_peer_sync_state (sp_store p) w (ps w) (sy_store y) = (s, x)"
  with sync_act.record_peer [of "ps w" "sp_store p" w "sync_server y" s x] assms(2)
  show "\<exists>unsent'. (sync_act (sp_serde p) (sp_store p))\<^sup>*\<^sup>* (sync_server y, unsent) (sync_server y\<lparr>sv_store := s\<rparr>, unsent')"
    by (metis r_into_rtranclp sync_server_sel(1))
qed

lemma success_path:
  assumes "record_peer_sync_success p peer t n a b c y = (y', r)" "t = None \<longleftrightarrow> n = None"
  shows "sync_path p y y'"
  using assms(1) unfolding record_peer_sync_success_def by (rule record_path) (use assms(2) in \<open>auto simp: scoped_peer_def\<close>)

lemma failure_path:
  assumes "record_peer_sync_failure p peer t n a b e y = (y', r)" "t = None \<longleftrightarrow> n = None"
  shows "sync_path p y y'"
  using assms(1) unfolding record_peer_sync_failure_def by (rule record_path) (use assms(2) in \<open>auto simp: scoped_peer_def\<close>)

lemma local_head_path:
  assumes "local_head_of p head y = (y', r)"
  shows "sync_path p y y'"
  using assms unfolding local_head_of_def by (rule store_call_path) (auto simp: sync_server_def)

lemma sync_message_path:
  assumes y': "sync_message p peer head e y = (y', r)"
  shows "sync_path p y y'"
proof (cases "core_message e")
  case (Inl x)
  with y' show ?thesis by (simp add: sync_message_def)
next
  case (Inr m)
  let ?act = "sync_act (sp_serde p) (sp_store p)"
  let ?ctl = "sync_store_call p status_box (\<lambda>w. apply_control_message (sp_serde p) (sp_store p) w m)"
  obtain u x where u: "sync_store_call p SyncStore (\<lambda>w. st_put_replicated_message (sp_store p) w m) y = (u, x)" by force
  obtain v k where v: "?ctl u = (v, k)" by force
  have put: "\<exists>unsent'. ?act (sync_server y, unsent) (sync_server u, unsent') \<and> (x = Inr Inserted \<longrightarrow> unsent' = Some m)" for unsent
    using sync_act.put_message [OF Inr, of "sp_store p" "sp_env p (sy_calls y)" "sync_server y" "sy_store u" _ "sp_serde p" unsent] u
    by (fastforce simp: sync_store_call_def sync_server_def map_err_eq_Inr split: prod.splits)
  have ctl: "?act (sync_server u, unsent) (sync_server v, unsent)" for unsent
    using sync_act.control_message [OF Inr, of "sp_serde p" "sp_store p" "sp_env p (sy_calls u)" "sync_server u" "sy_store v"] v
    by (fastforce simp: sync_store_call_def sync_server_def split: prod.splits)
  have both: "\<exists>unsent'. ?act\<^sup>*\<^sup>* (sync_server y, unsent) (sync_server v, unsent') \<and> (x = Inr Inserted \<longrightarrow> unsent' = Some m)" for unsent
    using put [of unsent] ctl by (blast intro: rtranclp.rtrancl_into_rtrancl [OF rtranclp.rtrancl_into_rtrancl [OF rtranclp.rtrancl_refl]])
  consider "y' = y" | "y' = u" | "y' = v" | "x = Inr Inserted" "y' = v\<lparr>sy_published := sy_published v @ [m]\<rparr>"
    using y' u v Inr by (cases x; cases k) (auto simp: sync_message_def split: if_splits replicate_result.splits)
  then show ?thesis
  proof cases
    case 4
    have sent: "?act (sync_server v, Some m) (sync_server y', None)"
      using sync_act.broadcast [of "sp_serde p" "sp_store p" "sync_server v" m] unfolding 4(2) by (simp add: sync_server_def)
    show ?thesis
      unfolding sync_path_def using both 4(1) sent by (blast intro: rtranclp.rtrancl_into_rtrancl)
  qed (use put both in \<open>simp_all add: sync_path_def\<close>, blast+)
qed

lemma sync_messages_path:
  shows "sync_messages p peer head rs lh n y = (y', r) \<Longrightarrow> sync_path p y y'"
proof (induction rs arbitrary: lh n y y' r)
  case (Cons x rs)
  show ?case
  proof (cases x)
    case None
    with Cons show ?thesis by simp
  next
    case (Some e)
    show ?thesis
      using Cons.prems unfolding Some sync_messages.simps
      by (rule path_bind) (auto intro: sync_message_path Cons.IH)
  qed
qed auto

lemma sync_batch_path:
  assumes "sync_batch p peer head limit lh yc = (yc', r)"
  shows "sync_path p (fst yc) (fst yc')"
  using assms unfolding sync_batch_def
proof (rule path_bind_fst)
  fix z x assume "remotely (rc_fetch (sp_client p) (head_fetch_request head lh limit)) yc = (z, x)"
  then show "sync_path p (fst yc) (fst z)" by (simp add: remotely_fst)
next
  fix z a zc x
  assume "(\<lambda>(responses, failure). bind_on (locally (sync_messages p peer head responses lh 0) z) (\<lambda>yc reached.
      case failure of Some s \<Rightarrow> (yc, Inl (SyncStatus s)) | None \<Rightarrow> (yc, Inr reached))) a = (zc, x)"
  then have "bind_on (locally (sync_messages p peer head (fst a) lh 0) z) (\<lambda>yc reached.
      case snd a of Some s \<Rightarrow> (yc, Inl (SyncStatus s)) | None \<Rightarrow> (yc, Inr reached)) = (zc, x)"
    by (simp add: case_prod_beta)
  then show "sync_path p (fst z) (fst zc)"
    by (rule path_bind_fst) (auto dest!: locally_fst intro: sync_messages_path split: option.splits)
qed

lemma sync_log_path:
  shows "sync_log p peer head limit lh yc = (yc', r) \<Longrightarrow> sync_path p (fst yc) (fst yc')"
proof (induction p peer head limit lh yc arbitrary: yc' r rule: sync_log.induct)
  case (1 p peer head limit lh yc)
  show ?case
  proof (cases "lh < th_head_id head")
    case False
    with 1(2) show ?thesis by (simp add: sync_log.simps [of p])
  next
    case True
    have "bind_on (sync_batch p peer head limit lh yc) (\<lambda>yc reached.
        bind_on (locally (record_peer_sync_success p peer (Some (th_topic head)) (Some (th_origin head))
            (fst reached) (th_head_id head) (fst reached)) yc) (\<lambda>yc _.
        if snd reached = 0 \<or> fst reached = lh then (yc, Inr (fst reached))
        else sync_log p peer head limit (fst reached) yc)) = (yc', r)"
      using 1(2) True by (simp add: sync_log.simps [of p])
    then show ?thesis
    proof (rule path_bind_fst)
      show "sync_path p (fst yc) (fst z)" if "sync_batch p peer head limit lh yc = (z, x)" for z x
        using sync_batch_path [OF that] .
    next
      fix z a zc x
      assume batch: "sync_batch p peer head limit lh yc = (z, Inr a)"
        and run: "bind_on (locally (record_peer_sync_success p peer (Some (th_topic head)) (Some (th_origin head))
            (fst a) (th_head_id head) (fst a)) z) (\<lambda>yc _.
        if snd a = 0 \<or> fst a = lh then (yc, Inr (fst a)) else sync_log p peer head limit (fst a) yc) = (zc, x)"
      show "sync_path p (fst z) (fst zc)"
        using run
      proof (rule path_bind_fst)
        show "sync_path p (fst z) (fst u)" if "locally (record_peer_sync_success p peer (Some (th_topic head)) (Some (th_origin head))
            (fst a) (th_head_id head) (fst a)) z = (u, k)" for u k
          using success_path [OF locally_fst [OF that]] by simp
        show "sync_path p (fst u) (fst v)"
          if "locally (record_peer_sync_success p peer (Some (th_topic head)) (Some (th_origin head)) (fst a) (th_head_id head) (fst a)) z = (u, Inr k)"
            "(if snd a = 0 \<or> fst a = lh then (u, Inr (fst a)) else sync_log p peer head limit (fst a) u) = (v, j)" for u k v j
          using 1(1) [OF True batch that(1)] that(2) by (auto split: if_splits)
      qed
    qed
  qed
qed

lemma sync_head_path:
  assumes "sync_head p peer head limit yc = (yc', r)"
  shows "sync_path p (fst yc) (fst yc')"
  using assms unfolding sync_head_def
proof (rule path_bind_fst)
  show "sync_path p (fst yc) (fst z)" if "locally (local_head_of p head) yc = (z, x)" for z x
    using local_head_path [OF locally_fst [OF that]] .
next
  fix z lh zc x
  assume "bind_on (sync_log p peer head limit lh z) (\<lambda>yc local_head. if th_head_id head \<le> local_head
      then locally (record_peer_sync_success p peer (Some (th_topic head)) (Some (th_origin head)) local_head (th_head_id head) local_head) yc
      else (yc, Inr ())) = (zc, x)"
  then show "sync_path p (fst z) (fst zc)"
    by (rule path_bind_fst) (auto dest!: locally_fst intro: sync_log_path success_path split: if_splits)
qed

lemma sync_heads_path:
  shows "sync_heads p peer limit heads yc = (yc', r) \<Longrightarrow> sync_path p (fst yc) (fst yc')"
proof (induction heads arbitrary: yc yc' r)
  case (Cons pb heads)
  show ?case
    using Cons.prems unfolding sync_heads.simps
  proof (rule path_try_fst)
    fix head zc x
    obtain u k where u: "sync_head p peer head limit yc = (u, k)" by (metis surj_pair)
    note g = sync_head_path [OF u]
    assume run: "(case sync_head p peer head limit yc of
       (yc, Inl err) \<Rightarrow>
         bind_on (locally (local_head_of p head) yc) (\<lambda>yc local_head.
         bind_on (locally (record_peer_sync_failure p peer (Some (th_topic head)) (Some (th_origin head))
             local_head (th_head_id head) (sync_error_text p err)) yc) (\<lambda>yc _. (yc, Inl err)))
     | (yc, Inr _) \<Rightarrow> sync_heads p peer limit heads yc) = (zc, x)"
    show "sync_path p (fst yc) (fst zc)"
    proof (cases k)
      case (Inr n)
      with run u have "sync_heads p peer limit heads u = (zc, x)" by simp
      with Cons.IH g show ?thesis using sync_path_trans by blast
    next
      case (Inl err)
      have fail: "sync_path p (fst z) (fst zc)"
        if "bind_on (locally (record_peer_sync_failure p peer (Some (th_topic head)) (Some (th_origin head))
             lh (th_head_id head) (sync_error_text p err)) z) (\<lambda>yc _. (yc, Inl err)) = (zc, x)" for z lh zc x
        using that by (rule path_bind_fst) (auto dest!: locally_fst intro: failure_path)
      from run u Inl have "bind_on (locally (local_head_of p head) u) (\<lambda>yc local_head.
         bind_on (locally (record_peer_sync_failure p peer (Some (th_topic head)) (Some (th_origin head))
             local_head (th_head_id head) (sync_error_text p err)) yc) (\<lambda>yc _. (yc, Inl err))) = (zc, x)" by simp
      then have "sync_path p (fst u) (fst zc)"
        by (rule path_bind_fst) (auto dest!: locally_fst intro: local_head_path fail)
      with g show ?thesis by (rule sync_path_trans)
    qed
  qed
qed auto

lemma verify_fst: "verify_peer_identity p n peer yc = (yc', r) \<Longrightarrow> fst yc' = fst yc"
  unfolding verify_peer_identity_def
  by (cases "remotely (rc_health (sp_client p)) yc"; cases "snd (remotely (rc_health (sp_client p)) yc)")
    (auto simp: try_on_def dest!: remotely_fst split: sum.splits option.splits if_splits)

lemma sync_connected_path:
  assumes run: "sync_connected p n peer limit yc = (yc', r)"
  shows "sync_path p (fst yc) (fst yc')"
proof -
  have last: "sync_path p (fst z) (fst zc)" if "locally (record_peer_sync_success p peer None None 0 0 0) z = (zc, x)" for z zc x
    using that by (auto dest!: locally_fst intro: success_path)
  have heads: "sync_path p (fst z) (fst zc)"
    if "bind_on (sync_heads p peer limit heads z) (\<lambda>yc _. locally (record_peer_sync_success p peer None None 0 0 0) yc) = (zc, x)" for z zc x heads
    using that by (rule path_bind_fst) (auto intro: sync_heads_path last)
  have list: "sync_path p (fst z) (fst zc)"
    if "bind_on (remotely (rc_list_heads (sp_client p)) z) (\<lambda>yc heads. bind_on (sync_heads p peer limit heads yc)
        (\<lambda>yc _. locally (record_peer_sync_success p peer None None 0 0 0) yc)) = (zc, x)" for z zc x
    using that by (rule path_bind_fst) (auto intro: heads dest!: remotely_fst)
  show ?thesis
    using run unfolding sync_connected_def by (rule path_bind_fst) (auto intro: list dest!: verify_fst)
qed

lemma sync_peer_path:
  assumes "sync_peer p T n peer limit tls y = (y', r)"
  shows "sync_path p y y'"
  using assms unfolding sync_peer_def
  by (rule path_try) (auto split: prod.splits dest!: sync_connected_path)

lemma sync_peers_path:
  shows "sync_peers p T config peers e y = (y', e') \<Longrightarrow> sync_path p y y'"
proof (induction peers arbitrary: e y)
  case (Cons peer peers)
  obtain z r where z: "sync_peer p T (cfg_local_node config) peer (cfg_batch_limit config) (cfg_tls config) y = (z, r)" by force
  note g = sync_peer_path [OF z]
  show ?case
  proof (cases r)
    case (Inr u)
    with Cons.prems z Cons.IH g show ?thesis using sync_path_trans by (auto split: prod.splits) blast
  next
    case (Inl err)
    obtain v k where v: "record_peer_sync_failure p peer None None 0 0 (sync_error_text p err) z = (v, k)" by force
    have "sync_peers p T config peers (if e = None then Some (sync_error_text p err) else e) v = (y', e')"
      using Cons.prems z Inl v by (simp add: Let_def)
    from Cons.IH [OF this] failure_path [OF v] g show ?thesis using sync_path_trans by blast
  qed
qed auto

lemma sync_once_path:
  assumes "sync_once p T config y = (y', r)"
  shows "sync_path p y y'"
  using assms sync_peers_path by (auto simp: sync_once_def split: prod.splits option.splits)

lemma peer_sync_task_path:
  shows "peer_sync_task p T config events y = (y', ended) \<Longrightarrow> sync_path p y y'"
proof (induction events arbitrary: y)
  case (Cons e events)
  show ?case
  proof (cases e)
    case Tick
    from sync_once_path [of p T config y] have "sync_path p y (fst (sync_once p T config y))" by (metis prod.collapse)
    with Cons Tick show ?thesis using sync_path_trans by fastforce
  qed (use Cons in \<open>auto split: if_splits\<close>)
qed auto

section \<open>What it does to a store that keeps the contract\<close>

definition grows :: "('s \<Rightarrow> bool) \<Rightarrow> ('s \<Rightarrow> store_view) \<Rightarrow> 's sync_state \<Rightarrow> 's sync_state \<Rightarrow> bool" where
  "grows I V y y' \<longleftrightarrow> (I (sy_store y) \<longrightarrow> I (sy_store y') \<and> extends (V (sy_store y)) (V (sy_store y'))
     \<and> (all_stored (V (sy_store y)) (sy_published y) \<longrightarrow> all_stored (V (sy_store y')) (sy_published y')))"

definition outstanding :: "'s sync_view \<Rightarrow> stored_message list" where
  "outstanding a = sv_published (fst a) @ (case snd a of None \<Rightarrow> [] | Some m \<Rightarrow> [m])"

lemma spec_put_inserted:
  "spec_put v m = Some (v', Inserted) \<Longrightarrow> v_msg v' (message_log m, sm_head_id m) = Some (mark_deleted v m)"
  by (auto simp: spec_put_def Let_def split: if_splits option.splits)

lemma evolved_mark_deleted: "evolved m (mark_deleted v m)"
  by (simp add: mark_deleted_def evolved_def)

lemma all_stored_subset: "all_stored v ms \<Longrightarrow> set ns \<subseteq> set ms \<Longrightarrow> all_stored v ns"
  by (auto simp: all_stored_def)

context msgbus_contract
begin

lemma sync_act_effect:
  assumes "sync_act S st a b" "inv (sv_store (fst a))"
  obtains (same) "inv (sv_store (fst b))" "v_msg (view (sv_store (fst b))) = v_msg (view (sv_store (fst a)))"
      "v_head (view (sv_store (fst b))) = v_head (view (sv_store (fst a)))"
      "v_tomb (view (sv_store (fst b))) = v_tomb (view (sv_store (fst a)))" "set (outstanding b) \<subseteq> set (outstanding a)"
  | (stored) m r where "sendable m" "inv (sv_store (fst b))" "spec_put (view (sv_store (fst a))) m = Some (view (sv_store (fst b)), r)"
      "set (outstanding b) \<subseteq> set (sv_published (fst a)) \<union> (if r = Inserted then {m} else {})"
  | (deleted) l i j where "inv (sv_store (fst b))" "view (sv_store (fst b)) = fst (spec_tombstone (view (sv_store (fst a))) l i j)"
      "set (outstanding b) \<subseteq> set (outstanding a)"
  using assms(1)
proof (cases rule: sync_act.cases)
  case (record_peer ps w sv s r unsent)
  have "inv s \<and> v_msg (view s) = v_msg (view (sv_store sv)) \<and> v_head (view s) = v_head (view (sv_store sv)) \<and> v_tomb (view s) = v_tomb (view (sv_store sv))"
  proof (cases r)
    case Inl
    with record_peer(4) have "s = sv_store sv" using record_err by blast
    with record_peer(1) assms(2) show ?thesis by simp
  next
    case Inr
    with record_peer(1,3,4) assms(2) have "inv s" "view s = spec_record_peer (view (sv_store sv)) ps"
      using record_ok [of "sv_store sv" ps w s] by auto
    then show ?thesis by (simp add: spec_record_peer_def)
  qed
  with record_peer(1,2) show thesis by (intro same) (auto simp: outstanding_def)
next
  case (put_message e m w sv s r unsent)
  have m: "sendable m" "valid_stored m" using put_message(3) by (auto simp: core_message_Inr sendable_def valid_stored_def)
  show thesis
  proof (cases r)
    case Inl
    with put_message(4) put_err have "s = sv_store sv" by auto
    with put_message(1,2) Inl assms(2) show thesis by (intro same) (auto simp: outstanding_def)
  next
    case (Inr x)
    with put_message(1,4) put_ok [OF _ m(2)] assms(2) have "inv s" "spec_put (view (sv_store sv)) m = Some (view s, x)" by auto
    with put_message(1,2) Inr m(1) show thesis by (intro stored [of m x]) (auto simp: outstanding_def)
  qed
next
  case (control_message e m w sv s r unsent)
  have "inv (sv_store sv)" using control_message(1) assms(2) by simp
  from this control_message(4) show thesis
  proof (cases rule: apply_control_effect)
    case unchanged
    with control_message(1,2) assms(2) show thesis by (intro same) (auto simp: outstanding_def)
  next
    case (recorded t)
    with control_message(1,2) show thesis by (intro deleted) (auto simp: outstanding_def)
  qed
next
  case (broadcast sv m)
  with assms(2) show thesis by (intro same) (auto simp: outstanding_def)
qed

lemma sync_act_step:
  assumes "sync_act S st a b" "inv (sv_store (fst a))"
  shows "inv (sv_store (fst b))" "extends (view (sv_store (fst a))) (view (sv_store (fst b)))"
    "unat (head_of (view (sv_store (fst b))) l) \<le> Suc (unat (head_of (view (sv_store (fst a))) l))"
    "all_stored (view (sv_store (fst a))) (outstanding a) \<Longrightarrow> all_stored (view (sv_store (fst b))) (outstanding b)"
proof -
  have "inv (sv_store (fst b)) \<and> extends (view (sv_store (fst a))) (view (sv_store (fst b)))
    \<and> unat (head_of (view (sv_store (fst b))) l) \<le> Suc (unat (head_of (view (sv_store (fst a))) l))
    \<and> (all_stored (view (sv_store (fst a))) (outstanding a) \<longrightarrow> all_stored (view (sv_store (fst b))) (outstanding b))"
    using assms
  proof (cases rule: sync_act_effect)
    case same
    then show ?thesis by (auto simp: extends_same_logs head_of_def all_stored_def)
  next
    case (stored m r)
    note ext = spec_put_extends [OF inv_wf [OF assms(2)] stored(3)]
    moreover have "all_stored (view (sv_store (fst b))) (outstanding b)" if "all_stored (view (sv_store (fst a))) (outstanding a)"
    proof -
      have "all_stored (view (sv_store (fst b))) (sv_published (fst a))"
        using all_stored_extends [OF that ext] by (rule all_stored_subset) (auto simp: outstanding_def)
      with stored(3,4) spec_put_inserted evolved_mark_deleted show ?thesis unfolding all_stored_def by (fastforce split: if_splits)
    qed
    ultimately show ?thesis using stored(2) spec_put_growth [OF stored(3)] by blast
  next
    case (deleted l' i j)
    have "extends (view (sv_store (fst a))) (view (sv_store (fst b)))" by (simp add: deleted(2) spec_tombstone_extends)
    moreover have "head_of (view (sv_store (fst b))) l = head_of (view (sv_store (fst a))) l"
      by (simp add: deleted(2) spec_tombstone_def head_of_def)
    ultimately show ?thesis using deleted(1) all_stored_subset [OF all_stored_extends deleted(3)] by simp
  qed
  then show "inv (sv_store (fst b))" "extends (view (sv_store (fst a))) (view (sv_store (fst b)))"
    "unat (head_of (view (sv_store (fst b))) l) \<le> Suc (unat (head_of (view (sv_store (fst a))) l))"
    "all_stored (view (sv_store (fst a))) (outstanding a) \<Longrightarrow> all_stored (view (sv_store (fst b))) (outstanding b)" by blast+
qed

lemma sync_acts_grow:
  assumes "(sync_act S st)\<^sup>*\<^sup>* a b" "inv (sv_store (fst a))"
  shows "inv (sv_store (fst b)) \<and> extends (view (sv_store (fst a))) (view (sv_store (fst b)))
    \<and> (all_stored (view (sv_store (fst a))) (outstanding a) \<longrightarrow> all_stored (view (sv_store (fst b))) (outstanding b))"
  using assms
proof (induction rule: rtranclp_induct)
  case (step b c)
  then show ?case using sync_act_step [OF step(2)] extends_trans by blast
qed simp

lemma sync_path_grows:
  assumes "sync_path p y y'" "sp_store p = st"
  shows "grows inv view y y'"
proof -
  obtain unsent where "(sync_act (sp_serde p) st)\<^sup>*\<^sup>* (sync_server y, None) (sync_server y', unsent)"
    using assms by (auto simp: sync_path_def)
  from sync_acts_grow [OF this] show ?thesis
    unfolding grows_def by (auto simp: outstanding_def all_stored_def)
qed

lemma peer_sync_task_grows:
  assumes "sp_store p = st" "peer_sync_task p T config events y = (y', ended)"
  shows "grows inv view y y'"
  by (rule sync_path_grows [OF peer_sync_task_path [OF assms(2)] assms(1)])

end

end
