(* ===== verification/Sync_Converge.thy ===== *)
theory Sync_Converge
  imports Sync_Laws
begin

text \<open>
  Convergence. A daemon that copies a log from a peer ends up with the peer's log: the local store
  is live, the peer is a server of this development on a live store of its own, and no call fails.
  The copied messages are the peer's, marked deleted where a local tombstone covers them.
\<close>

declare split_paired_All [simp del] split_paired_Ex [simp del]

section \<open>The local side\<close>

text \<open>A message of an application log that continues the local log.\<close>

definition copyable :: "topic_head \<Rightarrow> stored_message \<Rightarrow> bool" where
  "copyable head m \<longleftrightarrow> sendable m \<and> sm_topic m = th_topic head \<and> sm_origin m = th_origin head
     \<and> topic_str (th_topic head) \<noteq> delete_topic"

abbreviation head_log :: "topic_head \<Rightarrow> log_key" where
  "head_log head \<equiv> log_of (th_topic head) (th_origin head)"

definition copied :: "store_view \<Rightarrow> stored_message \<Rightarrow> store_view" where
  "copied v m = v\<lparr>v_msg := (v_msg v)((message_log m, sm_head_id m) \<mapsto> mark_deleted v m),
                  v_head := (v_head v)(message_log m \<mapsto> sm_head_id m)\<rparr>"

lemma spec_put_next:
  assumes "wf_view v" "head_of v (message_log m) \<noteq> - 1" "sm_head_id m = saturating_add (head_of v (message_log m)) 1"
  shows "spec_put v m = Some (copied v m, Inserted)"
proof -
  have "v_msg v (message_log m, sm_head_id m) = None" "head_of v (message_log m) < sm_head_id m"
    using assms saturating_add_1_less [OF assms(2)] wf_view_none [OF assms(1), of "message_log m" "sm_head_id m"] by auto
  with assms(3) show ?thesis by (simp add: spec_put_new copied_def)
qed

lemma copied_simps [simp]:
  "v_tomb (copied v m) = v_tomb v" "mark_deleted (copied v m) = mark_deleted v"
  "head_of (copied v m) l = (if l = message_log m then sm_head_id m else head_of v l)"
  by (auto simp: copied_def mark_deleted_def covered_def head_of_def fun_eq_iff)

lemma foldl_copied:
  "v_tomb (foldl copied v ms) = v_tomb v" "mark_deleted (foldl copied v ms) = mark_deleted v"
  by (induction ms arbitrary: v) auto

text \<open>Consecutive heads from \<open>n\<close> on.\<close>

definition consecutive :: "nat \<Rightarrow> stored_message list \<Rightarrow> bool" where
  "consecutive n ms \<longleftrightarrow> map (\<lambda>m. unat (sm_head_id m)) ms = [n..<n + length ms]"

lemma consecutive_Cons: "consecutive n (m # ms) \<longleftrightarrow> unat (sm_head_id m) = n \<and> consecutive (Suc n) ms"
proof -
  have "[n..<n + length (m # ms)] = n # [Suc n..<Suc n + length ms]" by (simp add: upt_conv_Cons del: upt_Suc)
  then show ?thesis by (simp add: consecutive_def del: upt_Suc)
qed

lemma consecutive_ge: "consecutive n ms \<Longrightarrow> m \<in> set ms \<Longrightarrow> n \<le> unat (sm_head_id m)"
  by (induction ms arbitrary: n) (auto simp: consecutive_Cons dest: Suc_leD)

lemma copied_msgs:
  assumes "consecutive n ms" "\<forall>m \<in> set ms. message_log m = l"
  shows "v_msg (foldl copied v ms) (k, h) =
    (case find (\<lambda>m. sm_head_id m = h) ms of Some m \<Rightarrow> if k = l then Some (mark_deleted v m) else v_msg v (k, h) | None \<Rightarrow> v_msg v (k, h))"
  using assms
proof (induction ms arbitrary: n v)
  case (Cons m ms)
  have "find (\<lambda>x. sm_head_id x = sm_head_id m) ms = None"
    using Cons.prems(1) consecutive_ge [of "Suc n" ms] by (fastforce simp: find_None_iff consecutive_Cons)
  with Cons.IH [of "Suc n" "copied v m"] Cons.prems show ?case
    by (auto simp: consecutive_Cons copied_def split: option.split)
qed auto

context live_contract
begin

lemma sync_message_next:
  assumes p: "sp_store p = st" "no_fault (sp_env p (sy_calls y))" and inv: "inv (sy_store y)" and m: "copyable head m"
    and head: "head_of (view (sy_store y)) (message_log m) \<noteq> - 1"
      "sm_head_id m = saturating_add (head_of (view (sy_store y)) (message_log m)) 1"
    and fits: "fits (sp_env p (sy_calls y)) (PutReplicatedMessage m) (view (sy_store y))"
  shows "\<exists>y'. sync_message p peer head (proto_message m) y = (y', Inr (sm_head_id m)) \<and> inv (sy_store y')
    \<and> view (sy_store y') = copied (view (sy_store y)) m"
proof -
  have "valid_stored m" using m by (auto simp: copyable_def sendable_def valid_stored_def)
  with perform_total [OF inv p(2) _ fits] obtain s' r where r:
    "st_put_replicated_message st (sp_env p (sy_calls y)) m (sy_store y) = (s', Inr r)" "inv s'"
    "spec_put (view (sy_store y)) m = Some (view s', r)"
    by (auto simp: map_ok_eq_Inr)
  with spec_put_next [OF inv_wf [OF inv] head] have "r = Inserted" "view s' = copied (view (sy_store y)) m" by auto
  moreover have "core_message (proto_message m) = Inr m" using m by (simp add: copyable_def core_message_Inr)
  ultimately show ?thesis
    using r m by (simp add: sync_message_def sync_store_call_def copyable_def apply_control_message_def p(1))
qed

lemma sync_messages_copy:
  assumes p: "sp_store p = st" "\<And>i. no_fault (sp_env p i)"
    and fits: "\<And>w v m. m \<in> set ms \<Longrightarrow> spec_put v m \<noteq> None \<Longrightarrow> fits w (PutReplicatedMessage m) v"
    and inv: "inv (sy_store y)" and ms: "\<forall>m \<in> set ms. copyable head m"
    and lh: "lh = head_of (view (sy_store y)) (head_log head)" and heads: "consecutive (Suc (unat lh)) ms"
  shows "\<exists>y' n'. sync_messages p peer head (map (\<lambda>m. Some (proto_message m)) ms) lh n y
      = (y', Inr (if ms = [] then lh else sm_head_id (last ms), n'))
    \<and> inv (sy_store y') \<and> view (sy_store y') = foldl copied (view (sy_store y)) ms \<and> (ms \<noteq> [] \<or> n \<noteq> 0 \<longrightarrow> n' \<noteq> 0)"
  using assms(3-7)
proof (induction ms arbitrary: lh n y)
  case (Cons m ms)
  have m: "copyable head m" "message_log m = head_log head" using Cons.prems(3) by (auto simp: copyable_def)
  have h: "unat (sm_head_id m) = Suc (unat lh)" using Cons.prems(5) by (simp add: consecutive_Cons)
  then have "lh \<noteq> - 1" using unsigned_less [of "sm_head_id m", where ?'a = nat]
    by (auto simp: unsigned_minus_1_eq_mask mask_eq_exp_minus_1)
  then have next_head: "sm_head_id m = saturating_add lh 1" using h by (simp add: word_unat_eq_iff unat_saturating_add_1)
  have put: "spec_put (view (sy_store y)) m = Some (copied (view (sy_store y)) m, Inserted)"
    using spec_put_next [OF inv_wf [OF Cons.prems(2)]] m(2) Cons.prems(4) next_head \<open>lh \<noteq> - 1\<close> by simp
  obtain z where z: "sync_message p peer head (proto_message m) y = (z, Inr (sm_head_id m))" "inv (sy_store z)"
    "view (sy_store z) = copied (view (sy_store y)) m"
    using sync_message_next [OF p(1) p(2) Cons.prems(2) m(1), of peer] m(2) Cons.prems(1) [of m] Cons.prems(4) next_head \<open>lh \<noteq> - 1\<close> put by auto
  have mx: "max lh (sm_head_id m) = sm_head_id m" using h by (simp add: max_def word_le_nat_alt)
  have "sm_head_id m = head_of (view (sy_store z)) (head_log head)" using z(3) m(2) by simp
  moreover have "consecutive (Suc (unat (sm_head_id m))) ms" using Cons.prems(5) h by (simp add: consecutive_Cons)
  moreover have "\<forall>m \<in> set ms. copyable head m" using Cons.prems(3) by simp
  ultimately obtain y' n' where
    "sync_messages p peer head (map (\<lambda>m. Some (proto_message m)) ms) (sm_head_id m) (saturating_add n 1) z
      = (y', Inr (if ms = [] then sm_head_id m else sm_head_id (last ms), n'))"
    "inv (sy_store y')" "view (sy_store y') = foldl copied (view (sy_store z)) ms" "n' \<noteq> 0"
    using Cons.IH [OF _ z(2), of "sm_head_id m" "saturating_add n 1"] Cons.prems(1) by (metis list.set_intros(2) saturating_add_1_neq_0)
  with z mx show ?case by (intro exI [of _ y'] exI [of _ n']) simp
qed auto

end

section \<open>Copies\<close>

text \<open>\<open>v\<close> is \<open>v0\<close> with the messages of \<open>rv\<close> copied behind the head of the log \<open>l\<close>.\<close>

definition copied_upto :: "store_view \<Rightarrow> log_key \<Rightarrow> store_view \<Rightarrow> store_view \<Rightarrow> bool" where
  "copied_upto rv l v0 v \<longleftrightarrow> v_tomb v = v_tomb v0 \<and> head_of v0 l \<le> head_of v l
     \<and> (\<forall>h. v_msg v (l, h) = (if head_of v0 l < h \<and> h \<le> head_of v l
            then map_option (mark_deleted v0) (v_msg rv (l, h)) else v_msg v0 (l, h)))"

lemma copied_upto_refl: "copied_upto rv l v v"
  by (auto simp: copied_upto_def)

lemma copied_upto_logs:
  "copied_upto rv l v0 v \<Longrightarrow> v_msg v' = v_msg v \<Longrightarrow> v_head v' = v_head v \<Longrightarrow> v_tomb v' = v_tomb v \<Longrightarrow> copied_upto rv l v0 v'"
  by (simp add: copied_upto_def head_of_def)

lemma foldl_copied_head:
  "\<forall>m \<in> set ms. message_log m = l \<Longrightarrow> head_of (foldl copied v ms) l = (if ms = [] then head_of v l else sm_head_id (last ms))"
  by (induction ms arbitrary: v) auto

text \<open>A page of a well-formed log, read from the head after \<open>lh\<close>.\<close>

lemma page_consecutive:
  assumes "wf_view rv" "lh \<noteq> - 1"
  shows "consecutive (Suc (unat lh)) (spec_fetch rv l (saturating_add lh 1) limit)"
proof -
  have "max 1 (unat (saturating_add lh 1)) = Suc (unat lh)" using assms(2) by (simp add: unat_saturating_add_1)
  moreover have "take n [a..<b] = [a..<a + length (take n [a..<b])]" for n a b :: nat
  proof -
    obtain k where k: "take n [a..<b] = [a..<k]" using take_upt_ex by blast
    then have "length (take n [a..<b]) = k - a" by simp
    with k show ?thesis by (cases "a \<le> k") auto
  qed
  ultimately show ?thesis
    unfolding consecutive_def spec_fetch_heads [OF assms(1)]
    by (metis (no_types, lifting) length_map spec_fetch_heads [OF assms(1)])
qed

lemma find_page:
  assumes wf: "wf_view rv" and lh: "lh < head_of rv l" and ms: "ms = spec_fetch rv l (saturating_add lh 1) limit"
  shows "ms \<noteq> []" "lh < sm_head_id (last ms)" "sm_head_id (last ms) \<le> head_of rv l"
    "find (\<lambda>m. sm_head_id m = h) ms = (if lh < h \<and> h \<le> sm_head_id (last ms) then v_msg rv (l, h) else None)"
proof -
  have ne1: "lh \<noteq> - 1" using lh by (metis word_order.extremum_strict)
  note cons = page_consecutive [OF wf ne1, of l limit, folded ms]
  show ne: "ms \<noteq> []"
    unfolding ms spec_fetch_Nil [OF wf] using lh ne1
    by (simp add: max_def word_le_nat_alt word_less_nat_alt unat_saturating_add_1)
  have stored: "v_msg rv (l, sm_head_id m) = Some m" if "m \<in> set ms" for m
    using spec_fetch_stored(1) [OF wf] that unfolding ms by blast
  from last_in_set [OF ne] show "lh < sm_head_id (last ms)" "sm_head_id (last ms) \<le> head_of rv l"
    using consecutive_ge [OF cons, of "last ms"] stored wf_view_gapless [OF wf, of l "sm_head_id (last ms)"]
    by (auto simp: word_less_nat_alt)
  have last: "unat (sm_head_id (last ms)) = unat lh + length ms"
  proof -
    have "last (map (\<lambda>m. unat (sm_head_id m)) ms) = last [Suc (unat lh)..<Suc (unat lh) + length ms]"
      using cons by (simp add: consecutive_def del: upt_Suc)
    with ne show ?thesis by (cases "length ms") (simp_all add: last_map)
  qed
  have in_page: "(\<exists>m \<in> set ms. sm_head_id m = h) \<longleftrightarrow> lh < h \<and> h \<le> sm_head_id (last ms)"
  proof -
    have "(\<exists>m \<in> set ms. sm_head_id m = h) \<longleftrightarrow> unat h \<in> set (map (\<lambda>m. unat (sm_head_id m)) ms)"
      by (force simp: word_unat_eq_iff)
    also have "\<dots> \<longleftrightarrow> lh < h \<and> h \<le> sm_head_id (last ms)"
      using cons last unfolding consecutive_def by (auto simp: word_less_nat_alt word_le_nat_alt)
    finally show ?thesis .
  qed
  show "find (\<lambda>m. sm_head_id m = h) ms = (if lh < h \<and> h \<le> sm_head_id (last ms) then v_msg rv (l, h) else None)"
  proof (cases "find (\<lambda>m. sm_head_id m = h) ms")
    case None
    with in_page show ?thesis by (auto simp: find_None_iff)
  next
    case (Some m)
    then have "m \<in> set ms" "sm_head_id m = h" by (auto simp: find_Some_iff)
    with Some in_page stored show ?thesis by auto
  qed
qed

lemma copied_upto_page:
  assumes wf: "wf_view rv" and step: "copied_upto rv l v0 v" and lh: "head_of v l < head_of rv l"
    and ms: "ms = spec_fetch rv l (saturating_add (head_of v l) 1) limit" and log: "\<forall>m \<in> set ms. message_log m = l"
  shows "copied_upto rv l v0 (foldl copied v ms)" "head_of (foldl copied v ms) l = sm_head_id (last ms)"
proof -
  note page = find_page [OF wf lh ms]
  have ne1: "head_of v l \<noteq> - 1" using lh by (metis word_order.extremum_strict)
  show head: "head_of (foldl copied v ms) l = sm_head_id (last ms)" using foldl_copied_head [OF log] page(1) by simp
  have md: "mark_deleted v = mark_deleted v0" using step by (simp add: copied_upto_def mark_deleted_def covered_def fun_eq_iff)
  have "v_msg (foldl copied v ms) (l, h) = (if head_of v0 l < h \<and> h \<le> sm_head_id (last ms)
      then map_option (mark_deleted v0) (v_msg rv (l, h)) else v_msg v0 (l, h))" for h
  proof -
    have "v_msg rv (l, h) \<noteq> None" if "head_of v l < h" "h \<le> sm_head_id (last ms)"
      using that page(3) wf_view_gapless [OF wf, of l h] by (auto simp: word_1_le_iff)
    then show ?thesis
      unfolding copied_msgs [OF page_consecutive [OF wf ne1, of l limit, folded ms] log] page(4)
      using step page(2) md by (auto simp: copied_upto_def split: option.splits)
  qed
  with step page(2) head show "copied_upto rv l v0 (foldl copied v ms)"
    by (auto simp: copied_upto_def foldl_copied)
qed

section \<open>Copying from a server\<close>

text \<open>
  The local store and the store of the peer. \<open>copy_fits\<close> says that the local backend takes a message
  of the log whenever the log can be extended by it, and that reading the head and recording the
  peer's state fit.
\<close>

locale sync_pair = live_contract st inv view encode_tombstone fits + r: live_contract rst rinv rview rencode rfits
  for st :: "'s msgbus_store" and inv view encode_tombstone fits
    and rst :: "'r msgbus_store" and rinv rview rencode rfits
begin

lemma remote_fetch:
  assumes svc: "svc_store svc = rst" and rinv: "rinv (sv_store rsv)" and w: "no_fault (ws n)"
    and head: "valid_part (topic_str (th_topic head))" "valid_node (th_origin head)"
    and rfits: "\<And>w q. fq_from_head_id q \<le> th_head_id head \<Longrightarrow> rfits w (FetchMessages q) (rview (sv_store rsv))"
    and lh: "lh < th_head_id head"
  shows "rc_fetch (loopback svc ws) (head_fetch_request head lh limit) (rsv, n) =
    ((rsv, Suc n), Inr (map (\<lambda>m. Some (proto_message m))
      (spec_fetch (rview (sv_store rsv)) (head_log head) (saturating_add lh 1) (max limit 1)), None))"
proof -
  let ?q = "\<lparr>fq_topic = th_topic head, fq_origin = th_origin head, fq_from_head_id = saturating_add lh 1, fq_limit = max limit 1\<rparr>"
  have ne1: "lh \<noteq> - 1" using lh by (metis word_order.extremum_strict)
  then have "saturating_add lh 1 \<le> th_head_id head"
    using lh by (simp add: word_less_nat_alt word_le_nat_alt unat_saturating_add_1)
  then have "rfits (ws n) (FetchMessages ?q) (rview (sv_store rsv))" using rfits [of ?q] by simp
  from r.perform_total [OF rinv w _ this]
  have fetch: "st_fetch_messages rst (ws n) ?q (sv_store rsv)
      = Inr (spec_fetch (rview (sv_store rsv)) (head_log head) (saturating_add lh 1) (max limit 1))"
    by (auto simp: map_ok_eq_Inr)
  have origin: "request_origin svc (Some (proto_node (th_origin head))) = Inr (th_origin head)"
    using head(2) by (auto simp: request_origin_Inr valid_node_def valid_part_def node_is_empty_def)
  have "max (saturating_add lh 1) 1 = saturating_add lh 1" by (simp add: max.absorb1 word_1_le_iff)
  then have "srv_fetch svc (ws n) (head_fetch_request head lh limit) rsv =
      Inr (map (\<lambda>m. Some (proto_message m)) (spec_fetch (rview (sv_store rsv)) (head_log head) (saturating_add lh 1) (max limit 1)))"
    using fetch origin head(1) svc
    by (simp add: srv_fetch_def head_fetch_request_def topic_new_def proto_node_def [symmetric] valid_part_def validate_part_def)
  then show ?thesis by (simp add: loopback_def read_call_def)
qed

lemma sync_batch_copy:
  assumes p: "sp_store p = st" "\<And>i. no_fault (sp_env p i)" "sp_client p = loopback svc ws"
    and svc: "svc_store svc = rst" and rinv: "rinv (sv_store rsv)" and ws: "\<And>i. no_fault (ws i)"
    and head: "valid_part (topic_str (th_topic head))" "valid_node (th_origin head)"
    and rfits: "\<And>w q. fq_from_head_id q \<le> th_head_id head \<Longrightarrow> rfits w (FetchMessages q) (rview (sv_store rsv))"
    and log: "\<forall>h m. v_msg (rview (sv_store rsv)) (head_log head, h) = Some m \<longrightarrow> copyable head m"
    and fits: "\<And>w v m. copyable head m \<Longrightarrow> spec_put v m \<noteq> None \<Longrightarrow> fits w (PutReplicatedMessage m) v"
    and le: "th_head_id head \<le> head_of (rview (sv_store rsv)) (head_log head)"
    and inv: "inv (sy_store y)" and lh: "lh = head_of (view (sy_store y)) (head_log head)" "lh < th_head_id head"
    and step: "copied_upto (rview (sv_store rsv)) (head_log head) v0 (view (sy_store y))"
  shows "\<exists>y' lh' k. sync_batch p peer head limit lh (y, (rsv, n)) = ((y', (rsv, Suc n)), Inr (lh', k)) \<and> k \<noteq> 0
    \<and> lh < lh' \<and> inv (sy_store y') \<and> lh' = head_of (view (sy_store y')) (head_log head)
    \<and> copied_upto (rview (sv_store rsv)) (head_log head) v0 (view (sy_store y'))"
proof -
  let ?l = "head_log head" and ?rv = "rview (sv_store rsv)"
  let ?ms = "spec_fetch ?rv ?l (saturating_add lh 1) (max limit 1)"
  note wf = r.inv_wf [OF rinv]
  have less: "lh < head_of ?rv ?l" using lh(2) le by (rule order_less_le_trans)
  then have ne1: "lh \<noteq> - 1" by (metis word_order.extremum_strict)
  note page = find_page [OF wf less refl, where limit = "max limit 1"]
  have ms: "\<forall>m \<in> set ?ms. copyable head m"
    using log spec_fetch_stored(1) [OF wf] by blast
  then have mlog: "\<forall>m \<in> set ?ms. message_log m = ?l" by (simp add: copyable_def)
  obtain y' k where y': "sync_messages p peer head (map (\<lambda>m. Some (proto_message m)) ?ms) lh 0 y = (y', Inr (sm_head_id (last ?ms), k))"
    "inv (sy_store y')" "view (sy_store y') = foldl copied (view (sy_store y)) ?ms" "k \<noteq> 0"
    using sync_messages_copy [OF p(1,2) fits inv ms lh(1) page_consecutive [OF wf ne1], of peer 0] ms page(1) by auto
  have "sync_batch p peer head limit lh (y, (rsv, n)) = ((y', (rsv, Suc n)), Inr (sm_head_id (last ?ms), k))"
    using remote_fetch [OF svc rinv ws head rfits lh(2)] y'(1) p(3) by (simp add: sync_batch_def remotely_def locally_def)
  moreover note copied_upto_page [OF wf step less [unfolded lh(1)] refl, where limit = "max limit 1", folded lh(1), OF mlog]
  ultimately show ?thesis using y' page(2) by auto
qed

text \<open>Recording the peer's state does not touch the logs.\<close>

lemma success_total:
  assumes p: "sp_store p = st" "\<And>i. no_fault (sp_env p i)" and inv: "inv (sy_store y)"
    and fits: "\<And>w ps v. fits w (RecordPeerSyncState ps) v" and "t = None \<longleftrightarrow> o' = None"
  shows "\<exists>y'. record_peer_sync_success p peer t o' a b c y = (y', Inr ()) \<and> inv (sy_store y')
    \<and> v_msg (view (sy_store y')) = v_msg (view (sy_store y)) \<and> v_head (view (sy_store y')) = v_head (view (sy_store y))
    \<and> v_tomb (view (sy_store y')) = v_tomb (view (sy_store y))"
proof -
  let ?w = "sp_env p (sy_calls y)"
  let ?ps = "\<lparr>ps_peer = peer_endpoint peer, ps_topic = t, ps_origin = o', ps_local_head = a, ps_remote_head = b, ps_last_synced_head = c,
    ps_last_attempt_at_ms = now ?w 0, ps_last_success_at_ms = now ?w 1, ps_consecutive_failures = 0, ps_last_error = None\<rparr>"
  have "scoped_peer ?ps" using assms(5) by (simp add: scoped_peer_def)
  with perform_total [OF inv p(2) _ fits, of "sy_calls y" ?ps] obtain s' where
    "st_record_peer_sync_state st ?w ?ps (sy_store y) = (s', Inr ())" "inv s'" "view s' = spec_record_peer (view (sy_store y)) ?ps"
    by (auto simp: map_ok_eq_Inr)
  then show ?thesis
    by (simp add: record_peer_sync_success_def sync_store_call_def p(1) spec_record_peer_def)
qed

lemma sync_log_copy:
  assumes p: "sp_store p = st" "\<And>i. no_fault (sp_env p i)" "sp_client p = loopback svc ws"
    and svc: "svc_store svc = rst" and rinv: "rinv (sv_store rsv)" and ws: "\<And>i. no_fault (ws i)"
    and head: "valid_part (topic_str (th_topic head))" "valid_node (th_origin head)"
    and rfits: "\<And>w q. fq_from_head_id q \<le> th_head_id head \<Longrightarrow> rfits w (FetchMessages q) (rview (sv_store rsv))"
    and log: "\<forall>h m. v_msg (rview (sv_store rsv)) (head_log head, h) = Some m \<longrightarrow> copyable head m"
    and fits: "\<And>w v m. copyable head m \<Longrightarrow> spec_put v m \<noteq> None \<Longrightarrow> fits w (PutReplicatedMessage m) v"
      "\<And>w ps v. fits w (RecordPeerSyncState ps) v"
    and le: "th_head_id head \<le> head_of (rview (sv_store rsv)) (head_log head)"
    and "inv (sy_store y)" "lh = head_of (view (sy_store y)) (head_log head)"
      "copied_upto (rview (sv_store rsv)) (head_log head) v0 (view (sy_store y))"
  shows "\<exists>y' lh' k. sync_log p peer head limit lh (y, (rsv, n)) = ((y', (rsv, k)), Inr lh') \<and> th_head_id head \<le> lh'
    \<and> inv (sy_store y') \<and> lh' = head_of (view (sy_store y')) (head_log head)
    \<and> copied_upto (rview (sv_store rsv)) (head_log head) v0 (view (sy_store y'))"
  using assms(14-16)
proof (induction "unat (th_head_id head) - unat lh" arbitrary: lh y n rule: less_induct)
  case less
  show ?case
  proof (cases "lh < th_head_id head")
    case False
    with less.prems show ?thesis by (subst sync_log.simps) auto
  next
    case True
    from sync_batch_copy [OF p svc rinv ws head rfits log fits(1) le less.prems(1,2) True less.prems(3), of peer limit n]
    obtain z lz k where z: "sync_batch p peer head limit lh (y, (rsv, n)) = ((z, (rsv, Suc n)), Inr (lz, k))" "k \<noteq> 0" "lh < lz"
      "inv (sy_store z)" "lz = head_of (view (sy_store z)) (head_log head)"
      "copied_upto (rview (sv_store rsv)) (head_log head) v0 (view (sy_store z))" by auto
    obtain u where u: "record_peer_sync_success p peer (Some (th_topic head)) (Some (th_origin head)) lz (th_head_id head) lz z = (u, Inr ())"
      "inv (sy_store u)" "v_msg (view (sy_store u)) = v_msg (view (sy_store z))" "v_head (view (sy_store u)) = v_head (view (sy_store z))"
      "v_tomb (view (sy_store u)) = v_tomb (view (sy_store z))"
      using success_total [OF p(1,2) z(4) fits(2)] by (metis option.simps(3))
    have "sync_log p peer head limit lh (y, (rsv, n)) = sync_log p peer head limit lz (u, (rsv, Suc n))"
      using True z(1-3) u(1) by (subst sync_log.simps) (auto simp: locally_def)
    moreover have "lz = head_of (view (sy_store u)) (head_log head)" using z(5) u(4) by (simp add: head_of_def)
    moreover have "unat (th_head_id head) - unat lz < unat (th_head_id head) - unat lh"
      using True z(3) by (simp add: word_less_nat_alt)
    ultimately show ?thesis
      using less.hyps [of lz u "Suc n"] u(2) copied_upto_logs [OF z(6) u(3-5)] by simp
  qed
qed

lemma sync_head_copy:
  assumes p: "sp_store p = st" "\<And>i. no_fault (sp_env p i)" "sp_client p = loopback svc ws"
    and svc: "svc_store svc = rst" and rinv: "rinv (sv_store rsv)" and ws: "\<And>i. no_fault (ws i)"
    and head: "valid_part (topic_str (th_topic head))" "valid_node (th_origin head)"
    and rfits: "\<And>w q. fq_from_head_id q \<le> th_head_id head \<Longrightarrow> rfits w (FetchMessages q) (rview (sv_store rsv))"
    and log: "\<forall>h m. v_msg (rview (sv_store rsv)) (head_log head, h) = Some m \<longrightarrow> copyable head m"
    and fits: "\<And>w v m. copyable head m \<Longrightarrow> spec_put v m \<noteq> None \<Longrightarrow> fits w (PutReplicatedMessage m) v"
      "\<And>w ps v. fits w (RecordPeerSyncState ps) v" "\<And>w t o' v. fits w (GetHead t o') v"
    and le: "th_head_id head \<le> head_of (rview (sv_store rsv)) (head_log head)"
    and inv: "inv (sy_store y)"
  shows "\<exists>y' k. sync_head p peer head limit (y, (rsv, n)) = ((y', (rsv, k)), Inr ()) \<and> inv (sy_store y')
    \<and> th_head_id head \<le> head_of (view (sy_store y')) (head_log head)
    \<and> copied_upto (rview (sv_store rsv)) (head_log head) (view (sy_store y)) (view (sy_store y'))"
proof -
  let ?l = "head_log head"
  let ?y = "y\<lparr>sy_calls := Suc (sy_calls y)\<rparr>"
  have "local_head_of p head y = (?y, Inr (head_of (view (sy_store y)) ?l))"
    using perform_total [OF inv p(2) _ fits(3), of "sy_calls y" "th_topic head" "th_origin head"]
    by (auto simp: local_head_of_def sync_store_call_def p(1) map_ok_eq_Inr head_of_def)
  moreover from sync_log_copy [OF p svc rinv ws head rfits log fits(1,2) le, of ?y _ "view (sy_store y)" peer limit n] inv copied_upto_refl
  obtain z lz k where z: "sync_log p peer head limit (head_of (view (sy_store y)) ?l) (?y, (rsv, n)) = ((z, (rsv, k)), Inr lz)"
    "th_head_id head \<le> lz" "inv (sy_store z)" "lz = head_of (view (sy_store z)) ?l"
    "copied_upto (rview (sv_store rsv)) ?l (view (sy_store y)) (view (sy_store z))" by auto
  moreover obtain u where u: "record_peer_sync_success p peer (Some (th_topic head)) (Some (th_origin head)) lz (th_head_id head) lz z = (u, Inr ())"
    "inv (sy_store u)" "v_msg (view (sy_store u)) = v_msg (view (sy_store z))" "v_head (view (sy_store u)) = v_head (view (sy_store z))"
    "v_tomb (view (sy_store u)) = v_tomb (view (sy_store z))"
    using success_total [OF p(1,2) z(3) fits(2)] by (metis option.simps(3))
  ultimately have "sync_head p peer head limit (y, (rsv, n)) = ((u, (rsv, k)), Inr ())"
    by (simp add: sync_head_def locally_def)
  moreover have "head_of (view (sy_store u)) ?l = lz" using z(4) u(4) by (simp add: head_of_def)
  ultimately show ?thesis using z(2) u(2) copied_upto_logs [OF z(5) u(3-5)] by auto
qed

end

end
