(* ===== verification/Sync_Pass.thy ===== *)
theory Sync_Pass
  imports Sync_Converge
begin

text \<open>
  Whole passes. A pass of the sync task over a live peer copies every log the peer lists, the control
  topic included, and applies the delete markers it copies. The statements are monotone in the local
  store, so what one log gains stays while the others are copied: a copied message is at its place,
  unchanged but for its deletion mark, and a copied marker has its tombstone.
\<close>

declare split_paired_All [simp del] split_paired_Ex [simp del]

section \<open>Copied messages\<close>

text \<open>A control message the server can apply, and a message of a log that a store can take over.\<close>

definition control_ok :: "serde \<Rightarrow> stored_message \<Rightarrow> bool" where
  "control_ok S m \<longleftrightarrow> topic_str (sm_topic m) \<noteq> delete_topic \<or> sm_deleted m
     \<or> (case de_tombstone S (sm_payload m) of
          Inr r \<Rightarrow> tr_origin r = sm_origin m \<and> tr_from_head_id r \<le> tr_to_head_id r
        | Inl _ \<Rightarrow> False)"

definition takes :: "serde \<Rightarrow> topic_head \<Rightarrow> stored_message \<Rightarrow> bool" where
  "takes S head m \<longleftrightarrow> sendable m \<and> sm_topic m = th_topic head \<and> sm_origin m = th_origin head \<and> control_ok S m"

definition got :: "serde \<Rightarrow> store_view \<Rightarrow> stored_message \<Rightarrow> bool" where
  "got S v m \<longleftrightarrow> (\<exists>m'. v_msg v (message_log m, sm_head_id m) = Some m' \<and> evolved m m')
     \<and> (topic_str (sm_topic m) = delete_topic \<longrightarrow> marker_applied S v m)"

lemma got_extends: "got S v m \<Longrightarrow> extends v v' \<Longrightarrow> got S v' m"
  unfolding got_def by (meson extendsD evolved_trans marker_applied_extends)

text \<open>Every message of the log \<open>l\<close> of \<open>rv\<close> with a head in the range has been copied to \<open>v\<close>.\<close>

definition got_range :: "serde \<Rightarrow> store_view \<Rightarrow> log_key \<Rightarrow> u64 \<Rightarrow> u64 \<Rightarrow> store_view \<Rightarrow> bool" where
  "got_range S rv l a b v \<longleftrightarrow> (\<forall>h. a < h \<longrightarrow> h \<le> b \<longrightarrow> (\<exists>m. v_msg rv (l, h) = Some m \<and> got S v m))"

lemma got_range_extends: "got_range S rv l a b v \<Longrightarrow> extends v v' \<Longrightarrow> got_range S rv l a b v'"
  unfolding got_range_def by (meson got_extends)

lemma got_range_join: "got_range S rv l a b v \<Longrightarrow> got_range S rv l b c v \<Longrightarrow> got_range S rv l a c v"
  unfolding got_range_def by (meson linorder_not_less)

text \<open>
  Nothing else gets in: every message of \<open>v\<close> is one of \<open>v0\<close> or of \<open>rv\<close>, deleted only if that one was or
  a tombstone of \<open>v\<close> covers it, and every tombstone is one of \<open>v0\<close> or comes from a marker of \<open>rv\<close>.
\<close>

definition marks :: "serde \<Rightarrow> stored_message \<Rightarrow> log_key \<Rightarrow> u64 \<times> u64 \<Rightarrow> bool" where
  "marks S m l ab \<longleftrightarrow> topic_str (sm_topic m) = delete_topic
     \<and> (\<exists>r. de_tombstone S (sm_payload m) = Inr r \<and> tr_origin r = sm_origin m
          \<and> l = log_of (tr_topic r) (tr_origin r) \<and> ab = (tr_from_head_id r, tr_to_head_id r))"

definition sourced :: "serde \<Rightarrow> store_view \<Rightarrow> store_view \<Rightarrow> store_view \<Rightarrow> bool" where
  "sourced S rv v0 v \<longleftrightarrow>
     (\<forall>l h m. v_msg v (l, h) = Some m \<longrightarrow> (\<exists>m0. (v_msg v0 (l, h) = Some m0 \<or> v_msg rv (l, h) = Some m0)
        \<and> evolved m0 m \<and> (sm_deleted m \<longrightarrow> sm_deleted m0 \<or> covered v l h)))
     \<and> (\<forall>l. \<forall>ab \<in> v_tomb v l. ab \<in> v_tomb v0 l \<or> (\<exists>k m. v_msg rv k = Some m \<and> \<not> sm_deleted m \<and> marks S m l ab))"

lemma sourced_refl: "sourced S rv v v"
  unfolding sourced_def using evolved_refl by blast

lemma sourced_trans:
  assumes "sourced S rv u v" "sourced S rv v w" "extends v w"
  shows "sourced S rv u w"
  unfolding sourced_def
proof (intro conjI allI impI ballI)
  fix l h m assume "v_msg w (l, h) = Some m"
  with assms(2) obtain m1 where m1: "v_msg v (l, h) = Some m1 \<or> v_msg rv (l, h) = Some m1" "evolved m1 m"
    "sm_deleted m \<Longrightarrow> sm_deleted m1 \<or> covered w l h" unfolding sourced_def by blast
  then show "\<exists>m0. (v_msg u (l, h) = Some m0 \<or> v_msg rv (l, h) = Some m0) \<and> evolved m0 m \<and> (sm_deleted m \<longrightarrow> sm_deleted m0 \<or> covered w l h)"
  proof (cases "v_msg rv (l, h) = Some m1")
    case False
    with m1(1) assms(1) obtain m0 where "v_msg u (l, h) = Some m0 \<or> v_msg rv (l, h) = Some m0" "evolved m0 m1"
      "sm_deleted m1 \<Longrightarrow> sm_deleted m0 \<or> covered v l h" unfolding sourced_def by blast
    with m1(2,3) extends_covered [OF assms(3)] show ?thesis by (meson evolved_trans)
  qed blast
next
  fix l ab assume "ab \<in> v_tomb w l"
  with assms(1,2) show "ab \<in> v_tomb u l \<or> (\<exists>k m. v_msg rv k = Some m \<and> \<not> sm_deleted m \<and> marks S m l ab)"
    unfolding sourced_def by blast
qed

lemma sourced_same_logs:
  "v_msg v' = v_msg v \<Longrightarrow> v_head v' = v_head v \<Longrightarrow> v_tomb v' = v_tomb v \<Longrightarrow> sourced S rv v v'"
  unfolding sourced_def using evolved_refl by metis

lemma sourced_copied:
  assumes "v_msg rv (message_log m, sm_head_id m) = Some m"
  shows "sourced S rv v (copied v m)"
  unfolding sourced_def
proof (intro conjI allI impI ballI)
  fix l h x assume x: "v_msg (copied v m) (l, h) = Some x"
  show "\<exists>m0. (v_msg v (l, h) = Some m0 \<or> v_msg rv (l, h) = Some m0) \<and> evolved m0 x \<and> (sm_deleted x \<longrightarrow> sm_deleted m0 \<or> covered (copied v m) l h)"
  proof (cases "(l, h) = (message_log m, sm_head_id m)")
    case True
    then have "x = mark_deleted v m" using x by (simp add: copied_def)
    then have "evolved m x" "sm_deleted x \<longrightarrow> sm_deleted m \<or> covered (copied v m) l h"
      using True by (auto simp: evolved_def mark_deleted_def covered_def)
    with True assms show ?thesis by auto
  next
    case False
    then have "v_msg v (l, h) = Some x" using x by (auto simp: copied_def split: if_splits)
    then show ?thesis by (meson evolved_refl)
  qed
qed simp

lemma sourced_tombstone:
  assumes "v_msg rv k = Some m" "\<not> sm_deleted m" "marks S m l (a, b)"
  shows "sourced S rv v (fst (spec_tombstone v l a b))"
  unfolding sourced_def
proof (intro conjI allI impI ballI)
  let ?v = "fst (spec_tombstone v l a b)"
  fix k h x assume x: "v_msg ?v (k, h) = Some x"
  show "\<exists>m0. (v_msg v (k, h) = Some m0 \<or> v_msg rv (k, h) = Some m0) \<and> evolved m0 x \<and> (sm_deleted x \<longrightarrow> sm_deleted m0 \<or> covered ?v k h)"
  proof (cases "k = l \<and> a \<le> h \<and> h \<le> b")
    case True
    then obtain m0 where "v_msg v (k, h) = Some m0" "x = m0\<lparr>sm_deleted := True\<rparr>"
      using x by (auto simp: spec_tombstone_def delete_between_def)
    moreover have "covered ?v k h" using True by (auto simp: covered_def spec_tombstone_def)
    ultimately show ?thesis by (auto simp: evolved_def)
  next
    case False
    then have "v_msg v (k, h) = Some x" using x by (auto simp: spec_tombstone_def delete_between_def)
    then show ?thesis by (meson evolved_refl)
  qed
next
  fix k ab assume "ab \<in> v_tomb (fst (spec_tombstone v l a b)) k"
  with assms show "ab \<in> v_tomb v k \<or> (\<exists>k' m. v_msg rv k' = Some m \<and> \<not> sm_deleted m \<and> marks S m k ab)"
    by (auto simp: spec_tombstone_def split: if_splits)
qed

text \<open>\<open>v\<close> extends \<open>v0\<close>, and the log \<open>l\<close> is the only one that moved on, by copies.\<close>

definition advanced :: "serde \<Rightarrow> store_view \<Rightarrow> log_key \<Rightarrow> store_view \<Rightarrow> store_view \<Rightarrow> bool" where
  "advanced S rv l v0 v \<longleftrightarrow> extends v0 v \<and> sourced S rv v0 v \<and> (\<forall>k. k \<noteq> l \<longrightarrow> head_of v k = head_of v0 k)
     \<and> got_range S rv l (head_of v0 l) (head_of v l) v"

lemma advanced_refl: "advanced S rv l v v"
  by (auto simp: advanced_def got_range_def sourced_refl)

lemma advanced_trans:
  assumes "advanced S rv l u v" "advanced S rv l v w"
  shows "advanced S rv l u w"
proof -
  have "got_range S rv l (head_of u l) (head_of v l) w"
    using assms got_range_extends [of S rv l "head_of u l" "head_of v l" v w] unfolding advanced_def by blast
  moreover have "sourced S rv u w" using assms sourced_trans unfolding advanced_def by blast
  ultimately show ?thesis using assms unfolding advanced_def by (metis extends_trans got_range_join)
qed

lemma advanced_same_logs:
  assumes "v_msg v' = v_msg v" "v_head v' = v_head v" "v_tomb v' = v_tomb v"
  shows "advanced S rv l v v'"
proof -
  have "head_of v' = head_of v" using assms(2) by (simp add: head_of_def fun_eq_iff)
  then show ?thesis using extends_same_logs [OF assms] sourced_same_logs [OF assms] by (auto simp: advanced_def got_range_def)
qed

context live_contract
begin

lemma control_total:
  assumes inv: "inv s" and w: "no_fault w" and m: "control_ok S m"
    and fits: "\<And>w t o' a b v. a \<le> b \<Longrightarrow> fits w (TombstoneRange t o' a b) v"
  shows "\<exists>s'. apply_control_message S st w m s = (s', Inr ())"
proof (cases "topic_str (sm_topic m) \<noteq> delete_topic \<or> sm_deleted m")
  case False
  with m obtain r where r: "de_tombstone S (sm_payload m) = Inr r" "tr_origin r = sm_origin m" "tr_from_head_id r \<le> tr_to_head_id r"
    by (auto simp: control_ok_def split: sum.splits)
  from progress [OF inv w _ fits [OF r(3)], of "tr_topic r" "tr_origin r"]
  obtain s' c where "st_tombstone_range st w (tr_topic r) (tr_origin r) (tr_from_head_id r) (tr_to_head_id r) s = (s', Inr c)"
    by (auto simp: map_ok_eq_Inr)
  with r False show ?thesis by (simp add: apply_control_message_def)
qed (simp add: apply_control_message_def)

lemma sync_message_takes:
  assumes p: "sp_store p = st" "\<And>i. no_fault (sp_env p i)" and inv: "inv (sy_store y)" and m: "takes (sp_serde p) head m"
    and head: "head_of (view (sy_store y)) (message_log m) \<noteq> - 1"
      "sm_head_id m = saturating_add (head_of (view (sy_store y)) (message_log m)) 1"
    and fits: "\<And>w v. spec_put v m \<noteq> None \<Longrightarrow> fits w (PutReplicatedMessage m) v"
      "\<And>w t o' a b v. a \<le> b \<Longrightarrow> fits w (TombstoneRange t o' a b) v"
    and rv: "v_msg rv (message_log m, sm_head_id m) = Some m"
  shows "\<exists>y'. sync_message p peer head (proto_message m) y = (y', Inr (sm_head_id m)) \<and> inv (sy_store y')
    \<and> extends (view (sy_store y)) (view (sy_store y')) \<and> sourced (sp_serde p) rv (view (sy_store y)) (view (sy_store y'))
    \<and> got (sp_serde p) (view (sy_store y')) m
    \<and> (\<forall>k. head_of (view (sy_store y')) k = (if k = message_log m then sm_head_id m else head_of (view (sy_store y)) k))"
proof -
  let ?v = "view (sy_store y)"
  note put = spec_put_next [OF inv_wf [OF inv] head]
  have "valid_stored m" using m by (auto simp: takes_def sendable_def valid_stored_def)
  with perform_total [OF inv p(2) [of "sy_calls y"] _ fits(1)] put obtain s where s:
    "st_put_replicated_message st (sp_env p (sy_calls y)) m (sy_store y) = (s, Inr Inserted)" "inv s" "view s = copied ?v m"
    by (auto simp: map_ok_eq_Inr)
  have "control_ok (sp_serde p) m" using m by (simp add: takes_def)
  from control_total [OF s(2) p(2) this fits(2), of "Suc (sy_calls y)"]
  obtain t where t: "apply_control_message (sp_serde p) st (sp_env p (Suc (sy_calls y))) m s = (t, Inr ())" by blast
  note control = apply_control [OF s(2) t]
  let ?y' = "y\<lparr>sy_store := t, sy_calls := Suc (Suc (sy_calls y)), sy_published := sy_published y @ [m]\<rparr>"
  have "core_message (proto_message m) = Inr m" using m by (simp add: takes_def core_message_Inr)
  then have "sync_message p peer head (proto_message m) y = (?y', Inr (sm_head_id m))"
    using s t m by (simp add: sync_message_def sync_store_call_def takes_def p(1))
  moreover have "extends ?v (view t)"
    using spec_put_extends [OF inv_wf [OF inv] put] s(3) control(2) extends_trans by metis
  moreover have "sourced (sp_serde p) rv ?v (view t)"
  proof (rule sourced_trans [OF sourced_copied [OF rv]])
    from s(2) t show "sourced (sp_serde p) rv (copied ?v m) (view t)"
    proof (cases rule: apply_control_effect)
      case unchanged
      then show ?thesis by (simp add: s(3) sourced_refl)
    next
      case (recorded r)
      then have "marks (sp_serde p) m (log_of (tr_topic r) (tr_origin r)) (tr_from_head_id r, tr_to_head_id r)" by (auto simp: marks_def)
      from sourced_tombstone [OF rv recorded(2) this] show ?thesis by (simp add: recorded(7) s(3))
    qed
    show "extends (copied ?v m) (view t)" using control(2) s(3) by simp
  qed
  moreover have "got (sp_serde p) (view t) m"
  proof -
    have "v_msg (view s) (message_log m, sm_head_id m) = Some (mark_deleted ?v m)" by (simp add: s(3) copied_def)
    with extendsD [OF control(2)] obtain m' where "v_msg (view t) (message_log m, sm_head_id m) = Some m'" "evolved (mark_deleted ?v m) m'"
      by blast
    moreover have "evolved m (mark_deleted ?v m)" by (simp add: evolved_def mark_deleted_def)
    ultimately show ?thesis using control(4) evolved_trans by (auto simp: got_def)
  qed
  moreover have "head_of (view t) k = (if k = message_log m then sm_head_id m else head_of ?v k)" for k
    using control(3) s(3) copied_simps(3) by (simp add: head_of_def)
  ultimately show ?thesis using control(1) by (intro exI [of _ ?y']) simp
qed

lemma sync_messages_takes:
  assumes p: "sp_store p = st" "\<And>i. no_fault (sp_env p i)"
    and fits: "\<And>w v m. takes (sp_serde p) head m \<Longrightarrow> spec_put v m \<noteq> None \<Longrightarrow> fits w (PutReplicatedMessage m) v"
      "\<And>w t o' a b v. a \<le> b \<Longrightarrow> fits w (TombstoneRange t o' a b) v"
    and "inv (sy_store y)" "\<forall>m \<in> set ms. takes (sp_serde p) head m \<and> v_msg rv (message_log m, sm_head_id m) = Some m"
      "lh = head_of (view (sy_store y)) (head_log head)" "consecutive (Suc (unat lh)) ms"
  shows "\<exists>y' n'. sync_messages p peer head (map (\<lambda>m. Some (proto_message m)) ms) lh n y
      = (y', Inr (if ms = [] then lh else sm_head_id (last ms), n'))
    \<and> inv (sy_store y') \<and> extends (view (sy_store y)) (view (sy_store y')) \<and> sourced (sp_serde p) rv (view (sy_store y)) (view (sy_store y'))
    \<and> (\<forall>m \<in> set ms. got (sp_serde p) (view (sy_store y')) m)
    \<and> (\<forall>k. head_of (view (sy_store y')) k
         = (if k = head_log head then if ms = [] then lh else sm_head_id (last ms) else head_of (view (sy_store y)) k))
    \<and> (ms \<noteq> [] \<or> n \<noteq> 0 \<longrightarrow> n' \<noteq> 0)"
  using assms(5-8)
proof (induction ms arbitrary: lh n y)
  case (Cons m ms)
  have m: "takes (sp_serde p) head m" "message_log m = head_log head" "v_msg rv (message_log m, sm_head_id m) = Some m"
    using Cons.prems(2) by (auto simp: takes_def)
  have h: "unat (sm_head_id m) = Suc (unat lh)" using Cons.prems(4) by (simp add: consecutive_Cons)
  then have ne1: "lh \<noteq> - 1" using unsigned_less [of "sm_head_id m", where ?'a = nat]
    by (auto simp: unsigned_minus_1_eq_mask mask_eq_exp_minus_1)
  then have next_head: "sm_head_id m = saturating_add lh 1" using h by (simp add: word_unat_eq_iff unat_saturating_add_1)
  have "head_of (view (sy_store y)) (message_log m) \<noteq> - 1" "sm_head_id m = saturating_add (head_of (view (sy_store y)) (message_log m)) 1"
    using ne1 next_head m(2) Cons.prems(3) by simp_all
  from sync_message_takes [OF p Cons.prems(1) m(1) this fits(1) [OF m(1)] fits(2) m(3), of peer]
  obtain z where z: "sync_message p peer head (proto_message m) y = (z, Inr (sm_head_id m))" "inv (sy_store z)"
    "extends (view (sy_store y)) (view (sy_store z))" "got (sp_serde p) (view (sy_store z)) m"
    "\<And>k. head_of (view (sy_store z)) k = (if k = message_log m then sm_head_id m else head_of (view (sy_store y)) k)"
    "sourced (sp_serde p) rv (view (sy_store y)) (view (sy_store z))" by blast
  have mx: "max lh (sm_head_id m) = sm_head_id m" using h by (simp add: max_def word_le_nat_alt)
  have "\<forall>m \<in> set ms. takes (sp_serde p) head m \<and> v_msg rv (message_log m, sm_head_id m) = Some m" "sm_head_id m = head_of (view (sy_store z)) (head_log head)"
    "consecutive (Suc (unat (sm_head_id m))) ms"
    using Cons.prems(2,4) z(5) m(2) h by (simp_all add: consecutive_Cons)
  from Cons.IH [OF z(2) this, of "saturating_add n 1"] obtain y' n' where y':
    "sync_messages p peer head (map (\<lambda>m. Some (proto_message m)) ms) (sm_head_id m) (saturating_add n 1) z
      = (y', Inr (if ms = [] then sm_head_id m else sm_head_id (last ms), n'))"
    "inv (sy_store y')" "extends (view (sy_store z)) (view (sy_store y'))" "\<forall>m \<in> set ms. got (sp_serde p) (view (sy_store y')) m"
    "\<forall>k. head_of (view (sy_store y')) k
       = (if k = head_log head then if ms = [] then sm_head_id m else sm_head_id (last ms) else head_of (view (sy_store z)) k)"
    "n' \<noteq> 0" "sourced (sp_serde p) rv (view (sy_store z)) (view (sy_store y'))" by (metis saturating_add_1_neq_0)
  show ?case
  proof (intro exI [of _ y'] exI [of _ n'] conjI)
    show "extends (view (sy_store y)) (view (sy_store y'))" using z(3) y'(3) extends_trans by blast
    show "sourced (sp_serde p) rv (view (sy_store y)) (view (sy_store y'))" using sourced_trans [OF z(6) y'(7,3)] .
    show "\<forall>m \<in> set (m # ms). got (sp_serde p) (view (sy_store y')) m" using y'(4) got_extends [OF z(4) y'(3)] by simp
    show "\<forall>k. head_of (view (sy_store y')) k = (if k = head_log head
        then if m # ms = [] then lh else sm_head_id (last (m # ms)) else head_of (view (sy_store y)) k)"
      using y'(5) z(5) m(2) by simp
  qed (use y' z mx in simp_all)
qed (auto simp: sourced_refl)

end

section \<open>Copying every log\<close>

text \<open>What the pass needs of the two sides: nothing fails, and what the source accepts fits.\<close>

definition takes_log :: "serde \<Rightarrow> store_view \<Rightarrow> topic_head \<Rightarrow> bool" where
  "takes_log S rv head \<longleftrightarrow> valid_part (topic_str (th_topic head)) \<and> valid_node (th_origin head)
     \<and> th_head_id head = head_of rv (head_log head)
     \<and> (\<forall>h m. v_msg rv (head_log head, h) = Some m \<longrightarrow> takes S head m)"

definition takes_all :: "serde \<Rightarrow> store_view \<Rightarrow> bool" where
  "takes_all S rv \<longleftrightarrow> (\<forall>l. v_head rv l \<noteq> None \<longrightarrow> takes_log S rv (head_entry rv l))"

text \<open>\<open>v\<close> extends \<open>v0\<close> and has copied the logs \<open>ls\<close> of \<open>rv\<close> to their heads.\<close>

definition caught_up :: "serde \<Rightarrow> store_view \<Rightarrow> log_key set \<Rightarrow> store_view \<Rightarrow> store_view \<Rightarrow> bool" where
  "caught_up S rv ls v0 v \<longleftrightarrow> extends v0 v \<and> sourced S rv v0 v \<and> (\<forall>l. l \<notin> ls \<longrightarrow> head_of v l = head_of v0 l)
     \<and> (\<forall>l \<in> ls. head_of rv l \<le> head_of v l \<and> got_range S rv l (head_of v0 l) (head_of v l) v)"

lemma caught_up_insert:
  assumes adv: "advanced S rv l u v" "head_of rv l \<le> head_of v l" and rest: "caught_up S rv ls v w" "l \<notin> ls"
  shows "caught_up S rv (insert l ls) u w"
proof -
  have head: "head_of w l = head_of v l" using rest by (simp add: caught_up_def)
  have "got_range S rv l (head_of u l) (head_of w l) w"
    unfolding head using adv(1) rest(1) got_range_extends [of S rv l "head_of u l" "head_of v l" v w]
    by (simp add: advanced_def caught_up_def)
  moreover have "\<forall>k \<in> ls. head_of v k = head_of u k" using adv(1) rest(2) by (auto simp: advanced_def)
  moreover have "extends u w" using adv(1) rest(1) extends_trans by (auto simp: advanced_def caught_up_def)
  moreover have "sourced S rv u w" using adv(1) rest(1) sourced_trans unfolding advanced_def caught_up_def by blast
  ultimately show ?thesis using adv rest head by (auto simp: caught_up_def advanced_def)
qed

lemma caught_up_same_logs:
  assumes "caught_up S rv ls u v" "v_msg v' = v_msg v" "v_head v' = v_head v" "v_tomb v' = v_tomb v"
  shows "caught_up S rv ls u v'"
proof -
  have "head_of v' = head_of v" using assms(3) by (simp add: head_of_def fun_eq_iff)
  then show ?thesis
    using assms(1) extends_same_logs [OF assms(2-4)] sourced_same_logs [OF assms(2-4)] extends_trans got_range_extends sourced_trans
    unfolding caught_up_def by (metis (no_types, lifting))
qed

text \<open>
  A message that another daemon can take over. With slashes in the parts of an origin the log would
  not determine the origin, and the peer's messages could disagree with its list of heads.
\<close>

definition exchangeable :: "serde \<Rightarrow> stored_message \<Rightarrow> bool" where
  "exchangeable S m \<longleftrightarrow> sendable m \<and> valid_node (sm_origin m) \<and> slash_free (sm_origin m) \<and> control_ok S m"

lemma takes_all_exchangeable:
  assumes wf: "wf_view rv" and good: "\<forall>k m. v_msg rv k = Some m \<longrightarrow> exchangeable S m"
  shows "takes_all S rv"
  unfolding takes_all_def
proof (intro allI impI)
  fix l assume "v_head rv l \<noteq> None"
  then obtain h where h: "v_head rv l = Some h" by blast
  obtain m where m: "v_msg rv (l, h) = Some m" using wf_view_head_stored [OF wf h] by blast
  then have entry: "head_entry rv l = \<lparr>th_topic = sm_topic m, th_origin = sm_origin m, th_head_id = h\<rparr>"
    using h by (simp add: head_entry_def)
  have l: "message_log m = l" using wf_view_placed [OF wf m] by simp
  have "takes S (head_entry rv l) m'" if "v_msg rv (l, h') = Some m'" for h' m'
  proof -
    have "message_log m' = message_log m" using wf_view_placed [OF wf that] l by simp
    moreover have "slash_free (sm_origin m)" "slash_free (sm_origin m')" "sendable m'" "control_ok S m'"
      using good m that by (auto simp: exchangeable_def)
    ultimately show ?thesis
      using node_key_inj by (auto simp: takes_def entry log_of_def topic.expand)
  qed
  moreover have "valid_part (topic_str (sm_topic m))" "valid_node (sm_origin m)"
    using good m by (auto simp: exchangeable_def sendable_def)
  ultimately show "takes_log S rv (head_entry rv l)"
    using l h by (simp add: takes_log_def entry head_of_def)
qed

lemma head_entry_log: "wf_view v \<Longrightarrow> v_head v l = Some h \<Longrightarrow> head_log (head_entry v l) = l"
  using wf_view_head_stored [of v l h] wf_view_placed [of v l h] by (auto simp: head_entry_def)

context sync_pair
begin

lemma sync_batch_takes:
  assumes p: "sp_store p = st" "\<And>i. no_fault (sp_env p i)" "sp_client p = loopback svc ws"
    and svc: "svc_store svc = rst" and rinv: "rinv (sv_store rsv)" and ws: "\<And>i. no_fault (ws i)"
    and head: "takes_log (sp_serde p) (rview (sv_store rsv)) head"
    and rfits: "\<And>w q. fq_from_head_id q \<le> th_head_id head \<Longrightarrow> rfits w (FetchMessages q) (rview (sv_store rsv))"
    and fits: "\<And>w v m. takes (sp_serde p) head m \<Longrightarrow> spec_put v m \<noteq> None \<Longrightarrow> fits w (PutReplicatedMessage m) v"
      "\<And>w t o' a b v. a \<le> b \<Longrightarrow> fits w (TombstoneRange t o' a b) v"
    and inv: "inv (sy_store y)" and lh: "lh = head_of (view (sy_store y)) (head_log head)" "lh < th_head_id head"
  shows "\<exists>y' lh' k. sync_batch p peer head limit lh (y, (rsv, n)) = ((y', (rsv, Suc n)), Inr (lh', k)) \<and> k \<noteq> 0
    \<and> lh < lh' \<and> inv (sy_store y') \<and> lh' = head_of (view (sy_store y')) (head_log head)
    \<and> advanced (sp_serde p) (rview (sv_store rsv)) (head_log head) (view (sy_store y)) (view (sy_store y'))"
proof -
  let ?l = "head_log head" and ?rv = "rview (sv_store rsv)"
  let ?ms = "spec_fetch ?rv ?l (saturating_add lh 1) (max limit 1)"
  note wf = r.inv_wf [OF rinv]
  have less: "lh < head_of ?rv ?l" using lh(2) head by (simp add: takes_log_def)
  then have ne1: "lh \<noteq> - 1" by (metis word_order.extremum_strict)
  note page = find_page [OF wf less refl, where limit = "max limit 1"]
  have ms: "\<forall>m \<in> set ?ms. takes (sp_serde p) head m \<and> v_msg ?rv (message_log m, sm_head_id m) = Some m"
    using head spec_fetch_stored(1,2) [OF wf] unfolding takes_log_def by metis
  from sync_messages_takes [OF p(1,2) fits inv ms lh(1) page_consecutive [OF wf ne1], of peer 0] page(1)
  obtain y' k where y': "sync_messages p peer head (map (\<lambda>m. Some (proto_message m)) ?ms) lh 0 y = (y', Inr (sm_head_id (last ?ms), k))"
    "inv (sy_store y')" "extends (view (sy_store y)) (view (sy_store y'))" "\<forall>m \<in> set ?ms. got (sp_serde p) (view (sy_store y')) m"
    "\<forall>k. head_of (view (sy_store y')) k = (if k = ?l then sm_head_id (last ?ms) else head_of (view (sy_store y)) k)" "k \<noteq> 0"
    "sourced (sp_serde p) ?rv (view (sy_store y)) (view (sy_store y'))" by auto
  have "valid_part (topic_str (th_topic head))" "valid_node (th_origin head)" using head by (simp_all add: takes_log_def)
  from remote_fetch [OF svc rinv ws this rfits lh(2)] y'(1) p(3)
  have "sync_batch p peer head limit lh (y, (rsv, n)) = ((y', (rsv, Suc n)), Inr (sm_head_id (last ?ms), k))"
    by (simp add: sync_batch_def remotely_def locally_def)
  moreover have "\<exists>m. v_msg ?rv (?l, h) = Some m \<and> got (sp_serde p) (view (sy_store y')) m" if h: "lh < h" "h \<le> sm_head_id (last ?ms)" for h
  proof -
    have "v_msg ?rv (?l, h) \<noteq> None"
      using h page(3) wf_view_gapless [OF wf, of ?l h] by (auto simp: word_1_le_iff)
    then obtain m where "v_msg ?rv (?l, h) = Some m" "find (\<lambda>m. sm_head_id m = h) ?ms = Some m" using page(4) [of h] h by auto
    with y'(4) find_SomeD show ?thesis by metis
  qed
  ultimately show ?thesis using y' page(2) lh(1) by (auto simp: advanced_def got_range_def)
qed

lemma sync_log_takes:
  assumes p: "sp_store p = st" "\<And>i. no_fault (sp_env p i)" "sp_client p = loopback svc ws"
    and svc: "svc_store svc = rst" and rinv: "rinv (sv_store rsv)" and ws: "\<And>i. no_fault (ws i)"
    and head: "takes_log (sp_serde p) (rview (sv_store rsv)) head"
    and rfits: "\<And>w q. fq_from_head_id q \<le> th_head_id head \<Longrightarrow> rfits w (FetchMessages q) (rview (sv_store rsv))"
    and fits: "\<And>w v m. takes (sp_serde p) head m \<Longrightarrow> spec_put v m \<noteq> None \<Longrightarrow> fits w (PutReplicatedMessage m) v"
      "\<And>w t o' a b v. a \<le> b \<Longrightarrow> fits w (TombstoneRange t o' a b) v" "\<And>w ps v. fits w (RecordPeerSyncState ps) v"
    and "inv (sy_store y)" "lh = head_of (view (sy_store y)) (head_log head)"
  shows "\<exists>y' lh' k. sync_log p peer head limit lh (y, (rsv, n)) = ((y', (rsv, k)), Inr lh') \<and> th_head_id head \<le> lh'
    \<and> inv (sy_store y') \<and> lh' = head_of (view (sy_store y')) (head_log head)
    \<and> advanced (sp_serde p) (rview (sv_store rsv)) (head_log head) (view (sy_store y)) (view (sy_store y'))"
  using assms(12,13)
proof (induction "unat (th_head_id head) - unat lh" arbitrary: lh y n rule: less_induct)
  case less
  let ?adv = "advanced (sp_serde p) (rview (sv_store rsv)) (head_log head)"
  show ?case
  proof (cases "lh < th_head_id head")
    case False
    with less.prems show ?thesis by (subst sync_log.simps) (auto simp: advanced_refl)
  next
    case True
    from sync_batch_takes [OF p svc rinv ws head rfits fits(1,2) less.prems(1,2) True, of peer limit n]
    obtain z lz k where z: "sync_batch p peer head limit lh (y, (rsv, n)) = ((z, (rsv, Suc n)), Inr (lz, k))" "k \<noteq> 0" "lh < lz"
      "inv (sy_store z)" "lz = head_of (view (sy_store z)) (head_log head)" "?adv (view (sy_store y)) (view (sy_store z))" by auto
    obtain u where u: "record_peer_sync_success p peer (Some (th_topic head)) (Some (th_origin head)) lz (th_head_id head) lz z = (u, Inr ())"
      "inv (sy_store u)" "v_msg (view (sy_store u)) = v_msg (view (sy_store z))" "v_head (view (sy_store u)) = v_head (view (sy_store z))"
      "v_tomb (view (sy_store u)) = v_tomb (view (sy_store z))"
      using success_total [OF p(1,2) z(4) fits(3)] by (metis option.simps(3))
    have step: "sync_log p peer head limit lh (y, (rsv, n)) = sync_log p peer head limit lz (u, (rsv, Suc n))"
      using True z(1-3) u(1) by (subst sync_log.simps) (auto simp: locally_def)
    have "lz = head_of (view (sy_store u)) (head_log head)" using z(5) u(4) by (simp add: head_of_def)
    moreover have "unat (th_head_id head) - unat lz < unat (th_head_id head) - unat lh"
      using True z(3) by (simp add: word_less_nat_alt)
    moreover have "?adv (view (sy_store y)) (view (sy_store u))"
      using advanced_trans [OF z(6) advanced_same_logs [OF u(3-5)]] .
    ultimately show ?thesis
      unfolding step using less.hyps [of lz u "Suc n"] u(2) advanced_trans by blast
  qed
qed

lemma sync_head_takes:
  assumes p: "sp_store p = st" "\<And>i. no_fault (sp_env p i)" "sp_client p = loopback svc ws"
    and svc: "svc_store svc = rst" and rinv: "rinv (sv_store rsv)" and ws: "\<And>i. no_fault (ws i)"
    and head: "takes_log (sp_serde p) (rview (sv_store rsv)) head"
    and rfits: "\<And>w q. fq_from_head_id q \<le> th_head_id head \<Longrightarrow> rfits w (FetchMessages q) (rview (sv_store rsv))"
    and fits: "\<And>w v m. takes (sp_serde p) head m \<Longrightarrow> spec_put v m \<noteq> None \<Longrightarrow> fits w (PutReplicatedMessage m) v"
      "\<And>w t o' a b v. a \<le> b \<Longrightarrow> fits w (TombstoneRange t o' a b) v" "\<And>w ps v. fits w (RecordPeerSyncState ps) v"
      "\<And>w t o' v. fits w (GetHead t o') v"
    and inv: "inv (sy_store y)"
  shows "\<exists>y' k. sync_head p peer head limit (y, (rsv, n)) = ((y', (rsv, k)), Inr ()) \<and> inv (sy_store y')
    \<and> th_head_id head \<le> head_of (view (sy_store y')) (head_log head)
    \<and> advanced (sp_serde p) (rview (sv_store rsv)) (head_log head) (view (sy_store y)) (view (sy_store y'))"
proof -
  let ?l = "head_log head" and ?adv = "advanced (sp_serde p) (rview (sv_store rsv)) (head_log head)"
  let ?y = "y\<lparr>sy_calls := Suc (sy_calls y)\<rparr>"
  have "local_head_of p head y = (?y, Inr (head_of (view (sy_store y)) ?l))"
    using perform_total [OF inv p(2) _ fits(4), of "sy_calls y" "th_topic head" "th_origin head"]
    by (auto simp: local_head_of_def sync_store_call_def p(1) map_ok_eq_Inr head_of_def)
  moreover from sync_log_takes [OF p svc rinv ws head rfits fits(1-3), of ?y _ peer limit n] inv
  obtain z lz k where z: "sync_log p peer head limit (head_of (view (sy_store y)) ?l) (?y, (rsv, n)) = ((z, (rsv, k)), Inr lz)"
    "th_head_id head \<le> lz" "inv (sy_store z)" "lz = head_of (view (sy_store z)) ?l" "?adv (view (sy_store y)) (view (sy_store z))" by auto
  moreover obtain u where u: "record_peer_sync_success p peer (Some (th_topic head)) (Some (th_origin head)) lz (th_head_id head) lz z = (u, Inr ())"
    "inv (sy_store u)" "v_msg (view (sy_store u)) = v_msg (view (sy_store z))" "v_head (view (sy_store u)) = v_head (view (sy_store z))"
    "v_tomb (view (sy_store u)) = v_tomb (view (sy_store z))"
    using success_total [OF p(1,2) z(3) fits(3)] by (metis option.simps(3))
  ultimately have "sync_head p peer head limit (y, (rsv, n)) = ((u, (rsv, k)), Inr ())"
    by (simp add: sync_head_def locally_def)
  moreover have "head_of (view (sy_store u)) ?l = lz" using z(4) u(4) by (simp add: head_of_def)
  ultimately show ?thesis using z(2) u(2) advanced_trans [OF z(5) advanced_same_logs [OF u(3-5)]] by auto
qed

lemma sync_heads_takes:
  assumes p: "sp_store p = st" "\<And>i. no_fault (sp_env p i)" "sp_client p = loopback svc ws"
    and svc: "svc_store svc = rst" and rinv: "rinv (sv_store rsv)" and ws: "\<And>i. no_fault (ws i)"
    and rfits: "\<And>w q. \<exists>l. fq_from_head_id q \<le> head_of (rview (sv_store rsv)) l \<Longrightarrow> rfits w (FetchMessages q) (rview (sv_store rsv))"
    and fits: "\<And>w v m. \<exists>head. takes (sp_serde p) head m \<Longrightarrow> spec_put v m \<noteq> None \<Longrightarrow> fits w (PutReplicatedMessage m) v"
      "\<And>w t o' a b v. a \<le> b \<Longrightarrow> fits w (TombstoneRange t o' a b) v" "\<And>w ps v. fits w (RecordPeerSyncState ps) v"
      "\<And>w t o' v. fits w (GetHead t o') v"
    and "inv (sy_store y)" "\<forall>head \<in> set hs. takes_log (sp_serde p) (rview (sv_store rsv)) head" "distinct (map head_log hs)"
  shows "\<exists>y' k. sync_heads p peer limit (map proto_topic_head hs) (y, (rsv, n)) = ((y', (rsv, k)), Inr ()) \<and> inv (sy_store y')
    \<and> caught_up (sp_serde p) (rview (sv_store rsv)) (set (map head_log hs)) (view (sy_store y)) (view (sy_store y'))"
  using assms(12-14)
proof (induction hs arbitrary: y n)
  case Nil
  then show ?case by (simp add: caught_up_def sourced_refl)
next
  case (Cons head hs)
  have head: "takes_log (sp_serde p) (rview (sv_store rsv)) head" using Cons.prems(2) by simp
  have fetch: "rfits w (FetchMessages q) (rview (sv_store rsv))" if "fq_from_head_id q \<le> th_head_id head" for w q
    using rfits that head unfolding takes_log_def by metis
  have put: "fits w (PutReplicatedMessage m) v" if "takes (sp_serde p) head m" "spec_put v m \<noteq> None" for w v m
    using fits(1) that by blast
  from sync_head_takes [OF p svc rinv ws head fetch put fits(2-4) Cons.prems(1), of peer limit n]
  obtain z k where z: "sync_head p peer head limit (y, (rsv, n)) = ((z, (rsv, k)), Inr ())" "inv (sy_store z)"
    "th_head_id head \<le> head_of (view (sy_store z)) (head_log head)"
    "advanced (sp_serde p) (rview (sv_store rsv)) (head_log head) (view (sy_store y)) (view (sy_store z))" by blast
  have "core_topic_head (proto_topic_head head) = Inr head"
    using head by (simp add: takes_log_def core_topic_head_Inr sendable_node_def)
  then have step: "sync_heads p peer limit (map proto_topic_head (head # hs)) (y, (rsv, n))
      = sync_heads p peer limit (map proto_topic_head hs) (z, (rsv, k))"
    using z(1) by simp
  have "\<forall>head \<in> set hs. takes_log (sp_serde p) (rview (sv_store rsv)) head" "distinct (map head_log hs)"
    using Cons.prems(2,3) by simp_all
  from Cons.IH [OF z(2) this, of k] obtain y' j where
    y': "sync_heads p peer limit (map proto_topic_head hs) (z, (rsv, k)) = ((y', (rsv, j)), Inr ())" "inv (sy_store y')"
    "caught_up (sp_serde p) (rview (sv_store rsv)) (set (map head_log hs)) (view (sy_store z)) (view (sy_store y'))" by blast
  have "head_of (rview (sv_store rsv)) (head_log head) \<le> head_of (view (sy_store z)) (head_log head)"
    using z(3) head by (simp add: takes_log_def)
  moreover have "head_log head \<notin> set (map head_log hs)" using Cons.prems(3) by simp
  ultimately have "caught_up (sp_serde p) (rview (sv_store rsv)) (set (map head_log (head # hs))) (view (sy_store y)) (view (sy_store y'))"
    using caught_up_insert [OF z(4) _ y'(3)] by simp
  with step y'(1,2) show ?case by auto
qed

text \<open>A peer that reports an acceptable identity.\<close>

lemma verify_total:
  assumes "sp_client p = loopback svc ws" "valid_node (svc_node svc)" "svc_node svc \<noteq> local_node"
    and "peer_expected_node peer = None \<or> peer_expected_node peer = Some (svc_node svc)"
  shows "verify_peer_identity p local_node peer (y, (rsv, n)) = ((y, (rsv, Suc n)), Inr ())"
  using assms by (auto simp: verify_peer_identity_def remotely_def loopback_def read_call_def srv_health_def sendable_node_def)

lemma sync_once_takes:
  assumes p: "sp_store p = st" "\<And>i. no_fault (sp_env p i)" "sp_client p = loopback svc ws"
    and svc: "svc_store svc = rst" and rinv: "rinv (sv_store rsv)" and ws: "\<And>i. no_fault (ws i)"
    and rfits: "\<And>w q. \<exists>l. fq_from_head_id q \<le> head_of (rview (sv_store rsv)) l \<Longrightarrow> rfits w (FetchMessages q) (rview (sv_store rsv))"
      "\<And>w v. rfits w ListHeads v"
    and fits: "\<And>w v m. \<exists>head. takes (sp_serde p) head m \<Longrightarrow> spec_put v m \<noteq> None \<Longrightarrow> fits w (PutReplicatedMessage m) v"
      "\<And>w t o' a b v. a \<le> b \<Longrightarrow> fits w (TombstoneRange t o' a b) v" "\<And>w ps v. fits w (RecordPeerSyncState ps) v"
      "\<And>w t o' v. fits w (GetHead t o') v"
    and inv: "inv (sy_store y)" and all: "takes_all (sp_serde p) (rview (sv_store rsv))"
    and peer: "cfg_peers config = [peer]" "connect_peer T (sy_calls y) peer (cfg_tls config) = Inr (rsv, n)"
      "valid_node (svc_node svc)" "svc_node svc \<noteq> cfg_local_node config"
      "peer_expected_node peer = None \<or> peer_expected_node peer = Some (svc_node svc)"
  shows "\<exists>y'. sync_once p T config y = (y', Inr ()) \<and> inv (sy_store y')
    \<and> caught_up (sp_serde p) (rview (sv_store rsv)) (dom (v_head (rview (sv_store rsv)))) (view (sy_store y)) (view (sy_store y'))"
proof -
  let ?rv = "rview (sv_store rsv)"
  note wf = r.inv_wf [OF rinv]
  from r.perform_total [OF rinv ws [of "Suc n"] _ rfits(2)] obtain ls where ls: "distinct ls" "set ls = dom (v_head ?rv)"
    "st_list_heads rst (ws (Suc n)) (sv_store rsv) = Inr (map (head_entry ?rv) ls)"
    by (auto simp: map_ok_eq_Inr)
  let ?hs = "map (head_entry ?rv) ls"
  have logs: "map head_log ?hs = ls"
  proof -
    have "head_log (head_entry ?rv l) = l" if "l \<in> set ls" for l using that ls(2) head_entry_log [OF wf, of l] by blast
    then show ?thesis by (simp add: map_idI)
  qed
  have takes: "\<forall>head \<in> set ?hs. takes_log (sp_serde p) ?rv head"
    using all ls(2) by (auto simp: takes_all_def)
  have distinct: "distinct (map head_log ?hs)" unfolding logs by (rule ls(1))
  obtain z k where z: "sync_heads p peer (cfg_batch_limit config) (map proto_topic_head ?hs) (y, (rsv, Suc (Suc n))) = ((z, (rsv, k)), Inr ())"
    "inv (sy_store z)" "caught_up (sp_serde p) ?rv (dom (v_head ?rv)) (view (sy_store y)) (view (sy_store z))"
    using sync_heads_takes [OF p svc rinv ws rfits(1) fits inv takes distinct, of peer "cfg_batch_limit config" "Suc (Suc n)"]
    unfolding logs ls(2) by blast
  from success_total [OF p(1,2) z(2) fits(3), of None None peer 0 0 0] obtain u where
    u: "record_peer_sync_success p peer None None 0 0 0 z = (u, Inr ())" "inv (sy_store u)" "v_msg (view (sy_store u)) = v_msg (view (sy_store z))"
      "v_head (view (sy_store u)) = v_head (view (sy_store z))" "v_tomb (view (sy_store u)) = v_tomb (view (sy_store z))" by auto
  have "remotely (rc_list_heads (sp_client p)) (y, (rsv, Suc n)) = ((y, (rsv, Suc (Suc n))), Inr (map proto_topic_head ?hs))"
    using ls(3) svc p(3) by (simp add: remotely_def loopback_def read_call_def srv_list_heads_def)
  then have "sync_connected p (cfg_local_node config) peer (cfg_batch_limit config) (y, (rsv, n)) = ((u, (rsv, k)), Inr ())"
    using verify_total [OF p(3) peer(3-5), of y rsv n] z(1) u(1) by (simp add: sync_connected_def locally_def)
  then have "sync_once p T config y = (u, Inr ())"
    using peer(1,2) by (simp add: sync_once_def sync_peer_def)
  then show ?thesis using u(2) caught_up_same_logs [OF z(3) u(3-5)] by blast
qed

end

end
