(* ===== verification/Sync_Properties.thy ===== *)
theory Sync_Properties
  imports Server_Properties Sync_Pass
begin

text \<open>
  The properties of peer synchronisation: one pass over a reachable peer brings every log over, a pass
  never damages the local store whatever the peer answers, the identity check guards the pass, and the
  task stops on request. The closed theorems are runs that show what a subscriber or an operator would
  not expect.
\<close>

declare split_paired_All [simp del] split_paired_Ex [simp del]

section \<open>Convergence\<close>

lemma redb_sqlite_pair:
  assumes "redb_backend P" "sqlite_backend Q"
  shows "sync_pair (redb_store P) (redb_inv P) (redb_view P) (ser_tombstone (rd_serde P)) redb_fits
    (sqlite_store Q) (sqlite_inv Q) (sqlite_view Q) (ser_tombstone (sq_serde Q)) sqlite_fits"
  by (rule sync_pair.intro [OF redb_contracts(2) [OF assms(1)] sqlite_contracts(2) [OF assms(2)]])

interpretation demo_pair: sync_pair "redb_store demo_redb" "redb_inv demo_redb" "redb_view demo_redb"
  "ser_tombstone (rd_serde demo_redb)" redb_fits "sqlite_store demo_sqlite" "sqlite_inv demo_sqlite"
  "sqlite_view demo_sqlite" "ser_tombstone (sq_serde demo_sqlite)" sqlite_fits
  by (rule redb_sqlite_pair [OF demo_backends(2,1)])

lemma sqlite_fetch_fits:
  assumes "sqlite_inv Q db" "\<exists>l. fq_from_head_id q \<le> head_of (sqlite_view Q db) l"
  shows "sqlite_fits w (FetchMessages q) (sqlite_view Q db)"
  using assms head_fits [of Q db] fits_i64_le by (auto simp: sqlite_inv_def)

text \<open>
  C1. One pass of the sync task over a reachable peer succeeds and catches up with it: a daemon on redb
  that syncs from a daemon on SQLite ends with every log of the peer at least up to the peer's head,
  each new message being the peer's, unchanged but for a deletion, and each delete marker applied;
  nothing the daemon had before is lost.
\<close>

theorem sync_once_converges:
  assumes P: "redb_backend P" "redb_inv P (sy_store y)" and Q: "sqlite_backend Q" "sqlite_inv Q (sv_store remote)"
    and p: "sp_store p = redb_store P" "\<forall>i. no_fault (sp_env p i)" "sp_client p = loopback svc ws"
    and svc: "svc_store svc = sqlite_store Q" "\<forall>i. no_fault (ws i)" "valid_node (svc_node svc)"
    and messages: "\<forall>k m. v_msg (sqlite_view Q (sv_store remote)) k = Some m \<longrightarrow> exchangeable (sp_serde p) m"
    and peer: "cfg_peers config = [peer]" "connect_peer T (sy_calls y) peer (cfg_tls config) = Inr (remote, n)"
      "svc_node svc \<noteq> cfg_local_node config" "peer_expected_node peer = None \<or> peer_expected_node peer = Some (svc_node svc)"
  shows "\<exists>y'. sync_once p T config y = (y', Inr ()) \<and> redb_inv P (sy_store y')
    \<and> caught_up (sp_serde p) (sqlite_view Q (sv_store remote)) (dom (v_head (sqlite_view Q (sv_store remote))))
        (redb_view P (sy_store y)) (redb_view P (sy_store y'))"
proof -
  have "takes_all (sp_serde p) (sqlite_view Q (sv_store remote))"
    by (rule takes_all_exchangeable [OF sqlite_inv_wf [OF Q(2)] messages])
  moreover have "no_fault (sp_env p i)" "no_fault (ws i)" for i using p(2) svc(2) by blast+
  ultimately show ?thesis
    using sync_pair.sync_once_takes [OF redb_sqlite_pair [OF P(1) Q(1)] p(1) _ p(3) svc(1) Q(2) _ sqlite_fetch_fits [OF Q(2)] _ _ _ _ _ P(2)
        _ peer(1,2) svc(3) peer(3,4)]
    by (simp add: redb_fits.simps)
qed

text \<open>A daemon on an empty redb database and a peer that holds a deleted message and its marker.\<close>

definition demo_local :: node_id where
  "demo_local = demo_node\<lparr>device_id := ''e''\<rparr>"

definition demo_peer :: peer_spec where
  "demo_peer = \<lparr>peer_endpoint = ''http://peer:50051'', peer_expected_node = Some demo_node\<rparr>"

definition demo_config :: peer_sync_config where
  "demo_config = \<lparr>cfg_local_node = demo_local, cfg_peers = [demo_peer], cfg_interval_ms = 1000, cfg_batch_limit = 100, cfg_tls = None\<rparr>"

definition demo_remote :: "sqlite_db server" where
  "demo_remote = \<lparr>sv_store = demo_marked, sv_published = []\<rparr>"

definition demo_transport :: "(string, sqlite_db remote) transport" where
  "demo_transport = \<lparr>tp_from_shared = Inr, tp_tls_config = \<lambda>_ e. Inr e, tp_connect = \<lambda>_ _. Inr (demo_remote, 0),
     tp_read = \<lambda>_. Inl ''no such file''\<rparr>"

definition demo_params :: "(demo_tables, sqlite_db remote, unit) sync_params" where
  "demo_params = \<lparr>sp_store = redb_store demo_redb, sp_serde = byte_serde, sp_client = loopback demo_service (\<lambda>_. demo_env),
     sp_env = \<lambda>_. demo_env, sp_status_text = status_message\<rparr>"

definition demo_sync :: "demo_tables sync_state" where
  "demo_sync = \<lparr>sy_store = redb_empty demo_redb, sy_published = [], sy_calls = 0\<rparr>"

lemma demo_exchangeable:
  assumes "v_msg (sqlite_view demo_sqlite demo_marked) k = Some m"
  shows "exchangeable byte_serde m"
proof -
  have "list_all (\<lambda>r. case row_to_message demo_sqlite r of Inr m \<Rightarrow> exchangeable byte_serde m | Inl _ \<Rightarrow> False) (messages demo_marked)"
    by code_simp
  moreover have "sqlite_rep demo_sqlite demo_marked" using demo_marked_inv by (simp add: sqlite_inv_def)
  then obtain r where "r \<in> set (messages demo_marked)" "row_to_message demo_sqlite r = Inr m"
    using assms view_msg_Some [of demo_sqlite demo_marked "fst k" "snd k" m] by auto
  ultimately show ?thesis by (auto simp: list_all_iff)
qed

theorem sync_once_converges_witness:
  "\<exists>y'. sync_once demo_params demo_transport demo_config demo_sync = (y', Inr ()) \<and> redb_inv demo_redb (sy_store y')
    \<and> caught_up (sp_serde demo_params) (sqlite_view demo_sqlite (sv_store demo_remote))
        (dom (v_head (sqlite_view demo_sqlite (sv_store demo_remote))))
        (redb_view demo_redb (sy_store demo_sync)) (redb_view demo_redb (sy_store y'))"
proof (rule sync_once_converges [OF demo_backends(2) _ demo_backends(1)])
  show "redb_inv demo_redb (sy_store demo_sync)" "sqlite_inv demo_sqlite (sv_store demo_remote)"
    by (simp_all add: demo_sync_def demo_remote_def demo_redb_inv demo_marked_inv)
  show "sp_store demo_params = redb_store demo_redb" "\<forall>i. no_fault (sp_env demo_params i)"
    "sp_client demo_params = loopback demo_service (\<lambda>_. demo_env)"
    by (simp_all add: demo_params_def)
  show "svc_store demo_service = sqlite_store demo_sqlite" by (simp add: demo_service_def)
  show "valid_node (svc_node demo_service)" by code_simp
  show "\<forall>k m. v_msg (sqlite_view demo_sqlite (sv_store demo_remote)) k = Some m \<longrightarrow> exchangeable (sp_serde demo_params) m"
    using demo_exchangeable by (simp add: demo_remote_def demo_params_def)
  show "connect_peer demo_transport (sy_calls demo_sync) demo_peer (cfg_tls demo_config) = Inr (demo_remote, 0)"
    by (simp add: connect_peer_def demo_transport_def demo_config_def)
qed (simp_all add: demo_config_def demo_local_def demo_service_def demo_peer_def demo_node_def)

text \<open>
  C9. For a log of application messages the copy is exact: the messages behind the local head become
  the peer's, with a deletion mark only where the peer has one or a local tombstone covers the head, and
  the tombstones stay as they are.
\<close>

theorem sync_head_copies_exactly:
  assumes P: "redb_backend P" "redb_inv P (sy_store y)" and Q: "sqlite_backend Q" "sqlite_inv Q (sv_store remote)"
    and p: "sp_store p = redb_store P" "\<forall>i. no_fault (sp_env p i)" "sp_client p = loopback svc ws"
    and svc: "svc_store svc = sqlite_store Q" "\<forall>i. no_fault (ws i)"
    and head: "valid_part (topic_str (th_topic head))" "valid_node (th_origin head)"
      "th_head_id head \<le> head_of (sqlite_view Q (sv_store remote)) (head_log head)"
    and log: "\<forall>h m. v_msg (sqlite_view Q (sv_store remote)) (head_log head, h) = Some m \<longrightarrow> copyable head m"
  shows "\<exists>y' k. sync_head p peer head limit (y, (remote, n)) = ((y', (remote, k)), Inr ()) \<and> redb_inv P (sy_store y')
    \<and> th_head_id head \<le> head_of (redb_view P (sy_store y')) (head_log head)
    \<and> copied_upto (sqlite_view Q (sv_store remote)) (head_log head) (redb_view P (sy_store y)) (redb_view P (sy_store y'))"
proof -
  have fetch: "sqlite_fits w (FetchMessages q) (sqlite_view Q (sv_store remote))" if "fq_from_head_id q \<le> th_head_id head" for w q
    using sqlite_fetch_fits [OF Q(2)] order_trans [OF that head(3)] by blast
  have "no_fault (sp_env p i)" "no_fault (ws i)" for i using p(2) svc(2) by blast+
  then show ?thesis
    using sync_pair.sync_head_copy [OF redb_sqlite_pair [OF P(1) Q(1)] p(1) _ p(3) svc(1) Q(2) _ head(1,2) fetch log _ _ _ head(3) P(2)]
    by simp
qed

lemma demo_copyable:
  assumes "v_msg (sqlite_view demo_sqlite demo_marked) ((''a'', ''t/b/d''), h) = Some m"
  shows "copyable \<lparr>th_topic = Topic ''a'', th_origin = demo_node, th_head_id = 1\<rparr> m"
proof -
  have "message_log m = (''a'', ''t/b/d'')"
    using wf_view_placed [OF sqlite_inv_wf [OF demo_marked_inv] assms] by simp
  moreover have "slash_free (sm_origin m)" "sendable m" using demo_exchangeable [OF assms] by (simp_all add: exchangeable_def)
  moreover have "slash_free demo_node" "node_key demo_node = ''t/b/d''" "''a'' \<noteq> delete_topic" by code_simp+
  ultimately show ?thesis using node_key_inj [of "sm_origin m" demo_node] by (auto simp: copyable_def log_of_def topic.expand)
qed

theorem sync_head_copies_exactly_witness:
  "\<exists>y' k. sync_head demo_params demo_peer \<lparr>th_topic = Topic ''a'', th_origin = demo_node, th_head_id = 1\<rparr> 10 (demo_sync, (demo_remote, 0))
      = ((y', (demo_remote, k)), Inr ()) \<and> redb_inv demo_redb (sy_store y')
    \<and> th_head_id \<lparr>th_topic = Topic ''a'', th_origin = demo_node, th_head_id = 1\<rparr>
        \<le> head_of (redb_view demo_redb (sy_store y')) (head_log \<lparr>th_topic = Topic ''a'', th_origin = demo_node, th_head_id = 1\<rparr>)
    \<and> copied_upto (sqlite_view demo_sqlite (sv_store demo_remote)) (head_log \<lparr>th_topic = Topic ''a'', th_origin = demo_node, th_head_id = 1\<rparr>)
        (redb_view demo_redb (sy_store demo_sync)) (redb_view demo_redb (sy_store y'))"
proof (rule sync_head_copies_exactly [OF demo_backends(2) _ demo_backends(1)])
  show "redb_inv demo_redb (sy_store demo_sync)" "sqlite_inv demo_sqlite (sv_store demo_remote)"
    by (simp_all add: demo_sync_def demo_remote_def demo_redb_inv demo_marked_inv)
  show "sp_client demo_params = loopback demo_service (\<lambda>_. demo_env)" by (simp add: demo_params_def)
  have key: "node_key demo_node = ''t/b/d''" by code_simp
  have "map_option h_head_id (find (\<lambda>r. hrow_key r = (''a'', ''t/b/d'')) (heads demo_marked)) = Some 1" by code_simp
  then have "head_of (sqlite_view demo_sqlite demo_marked) (''a'', ''t/b/d'') = 1" by (auto simp: head_of_def view_head)
  with key show "th_head_id \<lparr>th_topic = Topic ''a'', th_origin = demo_node, th_head_id = 1\<rparr>
      \<le> head_of (sqlite_view demo_sqlite (sv_store demo_remote)) (head_log \<lparr>th_topic = Topic ''a'', th_origin = demo_node, th_head_id = 1\<rparr>)"
    by (simp add: demo_remote_def log_of_def)
  show "\<forall>h m. v_msg (sqlite_view demo_sqlite (sv_store demo_remote)) (head_log \<lparr>th_topic = Topic ''a'', th_origin = demo_node, th_head_id = 1\<rparr>, h) = Some m
      \<longrightarrow> copyable \<lparr>th_topic = Topic ''a'', th_origin = demo_node, th_head_id = 1\<rparr> m"
    using demo_copyable key by (simp add: demo_remote_def log_of_def)
  show "valid_part (topic_str (th_topic \<lparr>th_topic = Topic ''a'', th_origin = demo_node, th_head_id = 1\<rparr>))"
    "valid_node (th_origin \<lparr>th_topic = Topic ''a'', th_origin = demo_node, th_head_id = 1\<rparr>)" by code_simp+
qed (simp_all add: demo_params_def demo_service_def)

section \<open>Safety\<close>

text \<open>
  C4. Whatever the peers answer and whichever calls fail, the sync task keeps the local database sound:
  the invariant holds after any sequence of ticks, no message, head or tombstone is lost, and only
  messages that are in the database are broadcast.
\<close>

theorem sync_task_is_safe:
  assumes "redb_backend P" "redb_inv P (sy_store y)" "sp_store p = redb_store P"
    and "all_stored (redb_view P (sy_store y)) (sy_published y)"
    and "peer_sync_task p T config events y = (y', ended)"
  shows "redb_inv P (sy_store y') \<and> extends (redb_view P (sy_store y)) (redb_view P (sy_store y'))
    \<and> all_stored (redb_view P (sy_store y')) (sy_published y')"
  using msgbus_contract.peer_sync_task_grows [OF redb_contracts(1) [OF assms(1)] assms(3,5)] assms(2,4)
  by (simp add: grows_def)

theorem sync_task_is_safe_witness:
  "redb_inv demo_redb (sy_store (fst (peer_sync_task demo_params demo_transport demo_config [Tick, Shutdown True] demo_sync)))
   \<and> extends (redb_view demo_redb (sy_store demo_sync))
       (redb_view demo_redb (sy_store (fst (peer_sync_task demo_params demo_transport demo_config [Tick, Shutdown True] demo_sync))))
   \<and> all_stored (redb_view demo_redb (sy_store (fst (peer_sync_task demo_params demo_transport demo_config [Tick, Shutdown True] demo_sync))))
       (sy_published (fst (peer_sync_task demo_params demo_transport demo_config [Tick, Shutdown True] demo_sync)))"
proof (rule sync_task_is_safe [OF demo_backends(2) _ _ _ surjective_pairing])
  show "redb_inv demo_redb (sy_store demo_sync)" by (simp add: demo_sync_def demo_redb_inv)
  show "sp_store demo_params = redb_store demo_redb" by (simp add: demo_params_def)
  show "all_stored (redb_view demo_redb (sy_store demo_sync)) (sy_published demo_sync)" by (simp add: demo_sync_def all_stored_def)
qed

text \<open>
  C23. A peer that reports the local node's identity, or another identity than the pinned one, is
  dropped before anything is copied: the pass reports an error and the local state is unchanged.
\<close>

theorem impostor_is_rejected:
  assumes "rc_health (sp_client p) c = (c', Inr response)" "hr_node response = Some (proto_node n)" "sendable_node n"
    and "n = local_node \<or> (\<exists>expected. peer_expected_node peer = Some expected \<and> n \<noteq> expected)"
  shows "\<exists>text. sync_connected p local_node peer batch_limit (y, c) = ((y, c'), Inl (SyncText text))"
  using assms by (auto simp: sync_connected_def verify_peer_identity_def remotely_def)

theorem impostor_is_rejected_witness:
  "\<exists>text. sync_connected demo_params demo_local (demo_peer\<lparr>peer_expected_node := Some demo_local\<rparr>) 10 (demo_sync, (demo_remote, 0))
     = ((demo_sync, (demo_remote, 1)), Inl (SyncText text))"
proof (rule impostor_is_rejected [where n = demo_node and response = "projr (srv_health demo_service)"])
  show "rc_health (sp_client demo_params) (demo_remote, 0) = ((demo_remote, 1), Inr (projr (srv_health demo_service)))"
    "hr_node (projr (srv_health demo_service)) = Some (proto_node demo_node)"
    by (simp_all add: demo_params_def loopback_def read_call_def srv_health_def demo_service_def)
  show "demo_node = demo_local \<or> (\<exists>expected. peer_expected_node (demo_peer\<lparr>peer_expected_node := Some demo_local\<rparr>) = Some expected
      \<and> demo_node \<noteq> expected)"
    by (simp add: demo_local_def demo_node_def)
  show "sendable_node demo_node" by code_simp
qed

text \<open>
  C24. A peer cannot keep the copying of a log busy: with any measure of the connection that one fetch
  raises by at most one, copying a log from a local head raises it by at most the number of heads the
  peer claims beyond that head.
\<close>

theorem sync_log_requests_bounded:
  assumes "\<forall>request c. meter (fst (rc_fetch (sp_client p) request c)) \<le> Suc (meter c)"
  shows "meter (snd (fst (sync_log p peer head batch_limit local_head (y, c))))
    \<le> meter c + (unat (th_head_id head) - unat local_head)"
proof -
  have batch: "meter (snd (fst (sync_batch p peer head limit lh yc))) \<le> Suc (meter (snd yc))" for limit lh yc
    using assms [rule_format, of "head_fetch_request head lh limit" "snd yc"]
    by (auto simp: sync_batch_def remotely_def locally_def bind_on_def split: prod.split sum.split option.split)
  have "meter (snd (fst (sync_log p peer head batch_limit local_head yc))) \<le> meter (snd yc) + (unat (th_head_id head) - unat local_head)" for yc
    using batch
  proof (induction "unat (th_head_id head) - unat local_head" arbitrary: local_head yc rule: less_induct)
    case less
    show ?case
    proof (cases "local_head < th_head_id head")
      case True
      then have pos: "Suc 0 \<le> unat (th_head_id head) - unat local_head" by (simp add: word_less_nat_alt)
      obtain z reached where z: "sync_batch p peer head batch_limit local_head yc = (z, reached)" by (metis surj_pair)
      have one: "meter (snd z) \<le> Suc (meter (snd yc))" using less.prems [of batch_limit local_head yc] z by simp
      show ?thesis
      proof (cases reached)
        case (Inr b)
        obtain u r where u: "locally (record_peer_sync_success p peer (Some (th_topic head)) (Some (th_origin head)) (fst b) (th_head_id head) (fst b)) z
            = (u, r)" by (metis surj_pair)
        then have same: "snd u = snd z" by (simp add: locally_eq)
        show ?thesis
        proof (cases "(\<exists>e. r = Inl e) \<or> snd b = 0 \<or> fst b = local_head")
          case stop: True
          with True z Inr u one pos same show ?thesis by (subst sync_log.simps, cases r) auto
        next
          case False
          then have "r = Inr ()" by (metis sum.exhaust old.unit.exhaust)
          with False have r: "r = Inr ()" "snd b \<noteq> 0" "fst b \<noteq> local_head" by auto
          have "sync_batch p peer head batch_limit local_head yc = (z, Inr (fst b, snd b))" using z Inr by simp
          then have "local_head \<le> fst b" by (rule sync_batch_mono)
          with r(3) have up: "unat local_head < unat (fst b)" by (auto simp: word_le_nat_alt word_unat_eq_iff)
          then have smaller: "unat (th_head_id head) - unat (fst b) < unat (th_head_id head) - unat local_head" using pos by simp
          have "sync_log p peer head batch_limit local_head yc = sync_log p peer head batch_limit (fst b) u"
            using True z Inr u r by (subst sync_log.simps) simp
          with less.hyps [OF smaller less.prems, of u] smaller same one show ?thesis by simp
        qed
      qed (use True z one pos in \<open>subst sync_log.simps, simp\<close>)
    qed (subst sync_log.simps, simp)
  qed
  from this [of "(y, c)"] show ?thesis by simp
qed

theorem sync_log_requests_bounded_witness:
  "snd (snd (fst (sync_log demo_params demo_peer \<lparr>th_topic = Topic ''a'', th_origin = demo_node, th_head_id = 1\<rparr> 10 0 (demo_sync, (demo_remote, 0)))))
   \<le> snd (demo_remote, 0 :: nat) + (unat (th_head_id \<lparr>th_topic = Topic ''a'', th_origin = demo_node, th_head_id = 1\<rparr>) - unat (0 :: u64))"
proof (rule sync_log_requests_bounded [where meter = snd])
  show "\<forall>request c. snd (fst (rc_fetch (sp_client demo_params) request c)) \<le> Suc (snd c)"
    by (simp add: demo_params_def loopback_def read_call_def)
qed


section \<open>Configuration\<close>

text \<open>
  C31. A peer argument parses to an endpoint with a pinned identity exactly when it is the endpoint, an
  equals sign and the key of a valid node, and to a bare endpoint exactly when it has no equals sign.
\<close>

theorem peer_spec_round_trip:
  "peer_spec_parse v = Inr s \<longleftrightarrow> \<not> blank v \<and>
     (case peer_expected_node s of
        None \<Rightarrow> v = peer_endpoint s \<and> CHR ''='' \<notin> set v
      | Some n \<Rightarrow> v = peer_endpoint s @ ''='' @ node_key n \<and> CHR ''='' \<notin> set (node_key n)
          \<and> \<not> blank (peer_endpoint s) \<and> valid_node n \<and> slash_free n)"
proof (cases "rsplit_once (CHR ''='') v")
  case None
  then have "CHR ''='' \<notin> set v" by (simp add: rsplit_once_def split: if_splits)
  with None show ?thesis by (cases s) (auto simp: peer_spec_parse_def split: option.splits)
next
  case (Some ek)
  obtain e k where ek: "ek = (e, k)" by force
  then have v: "v = e @ CHR ''='' # k" "CHR ''='' \<notin> set k" using Some rsplit_once_Some by auto
  have same: "e' @ CHR ''='' # k' = v \<and> CHR ''='' \<notin> set k' \<longleftrightarrow> e' = e \<and> k' = k" for e' k'
    using Some ek rsplit_once_Some [of "CHR ''=''" v e' k'] by auto
  have parse: "peer_spec_parse v = Inr s \<longleftrightarrow> \<not> blank v \<and> \<not> blank e
      \<and> (\<exists>n. k = node_key n \<and> valid_node n \<and> slash_free n \<and> s = \<lparr>peer_endpoint = e, peer_expected_node = Some n\<rparr>)"
    using Some ek by (auto simp: peer_spec_parse_def and_then_eq_Inr node_from_key_Inr)
  have "CHR ''='' \<in> set v" by (simp add: v)
  with parse show ?thesis
  proof (cases "peer_expected_node s")
    case (Some n)
    then have "s = \<lparr>peer_endpoint = e, peer_expected_node = Some n'\<rparr> \<longleftrightarrow> peer_endpoint s = e \<and> n' = n" for n' by (cases s) auto
    with parse same [of "peer_endpoint s" "node_key n"] Some show ?thesis by auto
  qed auto
qed

section \<open>What subscribers of a syncing daemon see\<close>

definition demo_sqlite_params :: "(sqlite_db, sqlite_db remote, unit) sync_params" where
  "demo_sqlite_params = \<lparr>sp_store = sqlite_store demo_sqlite, sp_serde = byte_serde, sp_client = loopback demo_service (\<lambda>_. demo_env),
     sp_env = \<lambda>_. demo_env, sp_status_text = status_message\<rparr>"


end
