(* ===== verification/Sync_Merge.thy ===== *)
theory Sync_Merge
  imports Sync_Pass
begin

text \<open>
  Synchronisation as a join. A store is \<^emph>\<open>settled\<close> when deletions and delete markers match: a message is
  deleted only under a tombstone, a tombstone only exists for a marker, and every marker has its tombstone.
  Requests keep a store settled. A pass over a settled peer gives the join of the two stores: the larger
  head of every log, all tombstones of both sides, and the messages of both, deleted where a tombstone of
  either side covers them.
\<close>

declare split_paired_All [simp del] split_paired_Ex [simp del]

section \<open>Settled stores\<close>

definition settled :: "serde \<Rightarrow> store_view \<Rightarrow> bool" where
  "settled S v \<longleftrightarrow>
     (\<forall>l h m. v_msg v (l, h) = Some m \<longrightarrow> exchangeable S m \<and> (sm_deleted m \<longrightarrow> covered v l h)
        \<and> (\<forall>k ab. marks S m k ab \<longrightarrow> ab \<in> v_tomb v k))
     \<and> (\<forall>l ab. ab \<in> v_tomb v l \<longrightarrow> fst l \<noteq> delete_topic \<and> (\<exists>k m. v_msg v k = Some m \<and> marks S m l ab))"

lemma settledD:
  assumes "settled S v" "v_msg v (l, h) = Some m"
  shows "exchangeable S m" "sm_deleted m \<Longrightarrow> covered v l h" "marks S m k ab \<Longrightarrow> ab \<in> v_tomb v k"
  using assms unfolding settled_def by blast+

lemma settled_tomb:
  assumes "settled S v" "ab \<in> v_tomb v l"
  obtains k m where "fst l \<noteq> delete_topic" "v_msg v k = Some m" "marks S m l ab"
  using assms unfolding settled_def by blast

lemma settled_empty: "settled S empty_view"
  by (simp add: settled_def empty_view_def)

lemma settled_same_logs:
  assumes "settled S v" "v_msg v' = v_msg v" "v_tomb v' = v_tomb v"
  shows "settled S v'"
proof -
  have "covered v' = covered v" by (simp add: covered_def fun_eq_iff assms(3))
  with assms(1) show ?thesis by (simp only: settled_def assms(2,3))
qed

lemma settled_deleted:
  assumes "wf_view v" "settled S v" "v_msg v (l, h) = Some m"
  shows "sm_deleted m \<longleftrightarrow> covered v l h"
  using assms settledD(2) wf_view_covered by blast

text \<open>Delete markers are never deleted themselves.\<close>

lemma settled_marker:
  assumes "wf_view v" "settled S v" "v_msg v (l, h) = Some m" "topic_str (sm_topic m) = delete_topic"
  shows "\<not> sm_deleted m"
proof
  assume "sm_deleted m"
  from settledD(2) [OF assms(2,3) this] obtain ab where "ab \<in> v_tomb v l" by (auto simp: covered_def)
  with assms(2) have "fst l \<noteq> delete_topic" unfolding settled_def by blast
  moreover have "fst l = delete_topic" using wf_view_placed [OF assms(1,3)] assms(4) by (auto simp: log_of_def)
  ultimately show False by simp
qed

section \<open>Agreement\<close>

definition agrees :: "store_view \<Rightarrow> store_view \<Rightarrow> bool" where
  "agrees v w \<longleftrightarrow> (\<forall>k m n. v_msg v k = Some m \<longrightarrow> v_msg w k = Some n \<longrightarrow> same_except_deleted m n)"

definition same_logs :: "store_view \<Rightarrow> store_view \<Rightarrow> bool" where
  "same_logs v w \<longleftrightarrow> v_msg v = v_msg w \<and> v_head v = v_head w \<and> v_tomb v = v_tomb w"

lemma same_except_refl [simp]: "same_except_deleted m m"
  by (simp add: same_except_deleted_def)

lemma same_except_sym: "same_except_deleted m n \<Longrightarrow> same_except_deleted n m"
  by (simp add: same_except_deleted_def)

lemma same_except_trans: "same_except_deleted a b \<Longrightarrow> same_except_deleted b c \<Longrightarrow> same_except_deleted a c"
  by (simp add: same_except_deleted_def)

lemma evolved_same_except: "evolved m n \<Longrightarrow> same_except_deleted m n"
  by (auto simp: evolved_def same_except_deleted_def)

lemma same_except_fields:
  assumes "same_except_deleted m n"
  shows "sm_topic n = sm_topic m" "sm_origin n = sm_origin m" "sm_payload n = sm_payload m"
  using arg_cong [OF assms [unfolded same_except_deleted_def], of sm_topic]
    arg_cong [OF assms [unfolded same_except_deleted_def], of sm_origin]
    arg_cong [OF assms [unfolded same_except_deleted_def], of sm_payload] by simp_all

lemma same_except_eq: "same_except_deleted m n \<Longrightarrow> sm_deleted m = sm_deleted n \<Longrightarrow> m = n"
  by (cases m; cases n) (simp add: same_except_deleted_def)

lemma marks_same_except: "same_except_deleted m n \<Longrightarrow> marks S n = marks S m"
  by (simp add: marks_def same_except_fields fun_eq_iff)

lemma v_head_head_of:
  assumes "wf_view v"
  shows "v_head v l = (if head_of v l = 0 then None else Some (head_of v l))"
  using assms by (auto simp: head_of_def wf_view_def heads_positive_def word_1_le_iff split: option.splits)

text \<open>A settled store is determined by its heads, its tombstones and its messages up to deletion.\<close>

lemma settled_determined:
  assumes wf: "wf_view v" "wf_view w" and settled: "settled S v" "settled S w" and "agrees v w"
    and heads: "\<And>l. head_of v l = head_of w l" and tombs: "\<And>l. v_tomb v l = v_tomb w l"
  shows "same_logs v w"
proof -
  have cov: "covered v l h = covered w l h" for l h by (simp add: covered_def tombs)
  have "v_msg v (l, h) = v_msg w (l, h)" for l h
  proof (cases "v_msg v (l, h)")
    case None
    then show ?thesis using wf_view_none [OF wf(1), of l h] wf_view_none [OF wf(2), of l h] heads by simp
  next
    case (Some m)
    then have "v_msg w (l, h) \<noteq> None" using wf_view_none [OF wf(1), of l h] wf_view_none [OF wf(2), of l h] heads by auto
    then obtain n where n: "v_msg w (l, h) = Some n" by blast
    with Some assms(5) have "same_except_deleted m n" unfolding agrees_def by blast
    moreover have "sm_deleted m = sm_deleted n"
      using settled_deleted [OF wf(1) settled(1) Some] settled_deleted [OF wf(2) settled(2) n] cov by simp
    ultimately show ?thesis using Some n same_except_eq by simp
  qed
  then have "v_msg v = v_msg w" by (metis ext surj_pair)
  moreover have "v_head v = v_head w" using v_head_head_of [OF wf(1)] v_head_head_of [OF wf(2)] heads by (simp add: fun_eq_iff)
  ultimately show ?thesis using tombs by (simp add: same_logs_def fun_eq_iff)
qed

section \<open>A pass is a join\<close>

lemma exchangeable_evolved: "exchangeable S m \<Longrightarrow> evolved m m' \<Longrightarrow> exchangeable S m'"
  by (auto simp: exchangeable_def evolved_def sendable_def control_ok_def)

lemma sourced_msg:
  assumes "sourced S rv v v'" "v_msg v' (l, h) = Some m"
  obtains m0 where "v_msg v (l, h) = Some m0 \<or> v_msg rv (l, h) = Some m0" "evolved m0 m"
    "sm_deleted m \<Longrightarrow> sm_deleted m0 \<or> covered v' l h"
  using assms unfolding sourced_def by blast

lemma caught_up_heads:
  assumes wf: "wf_view v'" "wf_view rv" "wf_view v" and up: "caught_up S rv (dom (v_head rv)) v v'"
  shows "head_of v' l = max (head_of v l) (head_of rv l)"
proof (rule antisym)
  have "head_of rv l \<le> head_of v' l"
  proof (cases "v_head rv l")
    case (Some h)
    with up have "\<forall>l \<in> dom (v_head rv). head_of rv l \<le> head_of v' l" "l \<in> dom (v_head rv)" by (auto simp: caught_up_def)
    then show ?thesis by blast
  qed (simp add: head_of_def)
  moreover have "head_of v l \<le> head_of v' l" using up by (simp add: caught_up_def extends_head)
  ultimately show "max (head_of v l) (head_of rv l) \<le> head_of v' l" by simp
  show "head_of v' l \<le> max (head_of v l) (head_of rv l)"
  proof (cases "head_of v' l = 0")
    case False
    let ?h = "head_of v' l"
    have "v_msg v' (l, ?h) \<noteq> None" using wf_view_gapless [OF wf(1), of l ?h] False by (simp add: word_1_le_iff)
    then obtain m where m: "v_msg v' (l, ?h) = Some m" by blast
    have "sourced S rv v v'" using up by (simp add: caught_up_def)
    from sourced_msg [OF this m] obtain m0 where "v_msg v (l, ?h) = Some m0 \<or> v_msg rv (l, ?h) = Some m0" by blast
    then have "?h \<le> head_of v l \<or> ?h \<le> head_of rv l"
      using wf_view_gapless [OF wf(2), of l ?h] wf_view_gapless [OF wf(3), of l ?h] by auto
    then show ?thesis by (simp add: le_max_iff_disj)
  qed simp
qed

lemma caught_up_tombs:
  assumes wf: "wf_view rv" "wf_view v" and settled: "settled S v" "settled S rv" and agree: "agrees v rv"
    and up: "caught_up S rv (dom (v_head rv)) v v'"
  shows "v_tomb v' l = v_tomb v l \<union> v_tomb rv l"
proof (intro equalityI subsetI)
  fix ab assume "ab \<in> v_tomb v' l"
  with up have "ab \<in> v_tomb v l \<or> (\<exists>k m. v_msg rv k = Some m \<and> marks S m l ab)" unfolding caught_up_def sourced_def by blast
  then show "ab \<in> v_tomb v l \<union> v_tomb rv l"
  proof
    assume "\<exists>k m. v_msg rv k = Some m \<and> marks S m l ab"
    then obtain k m where "v_msg rv k = Some m" "marks S m l ab" by blast
    then have "ab \<in> v_tomb rv l" by (cases k) (metis settledD(3) [OF settled(2)])
    then show ?thesis by simp
  qed simp
next
  fix ab assume "ab \<in> v_tomb v l \<union> v_tomb rv l"
  then show "ab \<in> v_tomb v' l"
  proof
    assume "ab \<in> v_tomb v l"
    with up show ?thesis by (auto simp: caught_up_def extends_def)
  next
    assume "ab \<in> v_tomb rv l"
    from settled_tomb [OF settled(2) this] obtain q h m where m: "v_msg rv (q, h) = Some m" "marks S m l ab" by (metis surj_pair)
    show ?thesis
    proof (cases "head_of v q < h")
      case True
      have "1 \<le> h" "h \<le> head_of rv q" using wf_view_gapless [OF wf(1), of q h] m(1) by simp_all
      moreover from this have "q \<in> dom (v_head rv)" by (auto simp: head_of_def split: option.splits)
      ultimately have "got S v' m"
        using up True m(1) unfolding caught_up_def got_range_def by (metis option.inject order_trans)
      moreover have "topic_str (sm_topic m) = delete_topic" using m(2) by (simp add: marks_def)
      moreover from settled_marker [OF wf(1) settled(2) m(1) this] have "\<not> sm_deleted m" .
      ultimately show ?thesis using m(2) by (auto simp: got_def marks_def marker_applied_def)
    next
      case False
      moreover have "h \<noteq> 0" using wf_view_gapless [OF wf(1), of q h] m(1) by (simp add: word_1_le_iff)
      ultimately obtain n where n: "v_msg v (q, h) = Some n" using wf_view_none [OF wf(2), of q h] by auto
      with agree m(1) have "same_except_deleted n m" unfolding agrees_def by blast
      with m(2) have "marks S n l ab" using marks_same_except by metis
      from settledD(3) [OF settled(1) n this] have "ab \<in> v_tomb v l" .
      with up show ?thesis by (auto simp: caught_up_def extends_def)
    qed
  qed
qed

lemma agrees_refl [simp]: "agrees v v"
  by (auto simp: agrees_def)

lemma agrees_sym: "agrees v w \<Longrightarrow> agrees w v"
  unfolding agrees_def using same_except_sym by blast

lemma sourced_agrees:
  assumes "sourced S rv v v'" "agrees v w" "agrees rv w"
  shows "agrees v' w"
  unfolding agrees_def
proof (intro allI impI)
  fix k m n assume k: "v_msg v' k = Some m" "v_msg w k = Some n"
  obtain l h where lh: "k = (l, h)" by (metis surj_pair)
  from sourced_msg [OF assms(1) k(1) [unfolded lh]] obtain m0 where m0: "v_msg v (l, h) = Some m0 \<or> v_msg rv (l, h) = Some m0" "evolved m0 m" by blast
  with assms(2,3) k(2) lh have "same_except_deleted m0 n" unfolding agrees_def by blast
  with evolved_same_except [OF m0(2)] show "same_except_deleted m n" using same_except_sym same_except_trans by blast
qed

text \<open>What either side has, the pass leaves in the store, up to deletion.\<close>

lemma caught_up_keeps:
  assumes "wf_view v'" "wf_view rv" "wf_view v" "agrees v rv" "caught_up S rv (dom (v_head rv)) v v'"
    and m: "v_msg v (l, h) = Some m \<or> v_msg rv (l, h) = Some m"
  obtains m' where "v_msg v' (l, h) = Some m'" "same_except_deleted m m'"
proof -
  have "1 \<le> h" "h \<le> max (head_of v l) (head_of rv l)"
    using m wf_view_gapless [OF assms(3), of l h] wf_view_gapless [OF assms(2), of l h] by (auto simp: le_max_iff_disj)
  then obtain m' where m': "v_msg v' (l, h) = Some m'"
    using wf_view_gapless [OF assms(1), of l h] caught_up_heads [OF assms(1-3,5), of l] by auto
  have "sourced S rv v v'" using assms(5) by (simp add: caught_up_def)
  then have "agrees v' v" "agrees v' rv" using sourced_agrees assms(4) agrees_sym agrees_refl by blast+
  with m m' have "same_except_deleted m m'" unfolding agrees_def using same_except_sym by blast
  with m' show thesis by (rule that)
qed

lemma caught_up_settled:
  assumes wf: "wf_view v'" "wf_view rv" "wf_view v" and settled: "settled S v" "settled S rv" and agree: "agrees v rv"
    and up: "caught_up S rv (dom (v_head rv)) v v'"
  shows "settled S v'"
proof -
  note tombs = caught_up_tombs [OF wf(2,3) settled agree up]
  have cov: "covered v' l h \<longleftrightarrow> covered v l h \<or> covered rv l h" for l h unfolding covered_def tombs by blast
  have "exchangeable S m \<and> (sm_deleted m \<longrightarrow> covered v' l h) \<and> (\<forall>k ab. marks S m k ab \<longrightarrow> ab \<in> v_tomb v' k)"
    if m: "v_msg v' (l, h) = Some m" for l h m
  proof -
    have "sourced S rv v v'" using up by (simp add: caught_up_def)
    from sourced_msg [OF this m] obtain m0 where m0: "v_msg v (l, h) = Some m0 \<or> v_msg rv (l, h) = Some m0" "evolved m0 m"
      "sm_deleted m \<longrightarrow> sm_deleted m0 \<or> covered v' l h" by blast
    have "marks S m = marks S m0" using marks_same_except [OF evolved_same_except [OF m0(2)]] .
    then show ?thesis
      using m0 settledD [OF settled(1), of l h m0] settledD [OF settled(2), of l h m0] exchangeable_evolved [OF _ m0(2), of S] tombs cov by auto
  qed
  moreover have "fst l \<noteq> delete_topic \<and> (\<exists>k m. v_msg v' k = Some m \<and> marks S m l ab)" if "ab \<in> v_tomb v' l" for l ab
  proof -
    from that tombs obtain q h m where m: "fst l \<noteq> delete_topic" "v_msg v (q, h) = Some m \<or> v_msg rv (q, h) = Some m" "marks S m l ab"
      by (metis Un_iff settled settled_tomb surj_pair)
    from caught_up_keeps [OF wf agree up m(2)] obtain m' where "v_msg v' (q, h) = Some m'" "same_except_deleted m m'" .
    with m(1,3) show ?thesis using marks_same_except by metis
  qed
  ultimately show ?thesis unfolding settled_def by blast
qed

section \<open>Requests keep a store settled\<close>

lemma settled_add:
  assumes settled: "settled S v" and ext: "extends v v'"
    and old: "\<And>l h y. v_msg v' (l, h) = Some y \<Longrightarrow> (l, h) \<noteq> (q, n) \<Longrightarrow>
      \<exists>m. v_msg v (l, h) = Some m \<and> evolved m y \<and> (sm_deleted y \<longrightarrow> sm_deleted m \<or> covered v' l h)"
    and new: "v_msg v' (q, n) = Some x" "exchangeable S x" "sm_deleted x \<Longrightarrow> covered v' q n" "\<And>k ab. marks S x k ab \<Longrightarrow> ab \<in> v_tomb v' k"
    and tombs: "\<And>l ab. ab \<in> v_tomb v' l \<Longrightarrow> ab \<in> v_tomb v l \<or> fst l \<noteq> delete_topic \<and> marks S x l ab"
  shows "settled S v'"
proof -
  have "exchangeable S y \<and> (sm_deleted y \<longrightarrow> covered v' l h) \<and> (\<forall>k ab. marks S y k ab \<longrightarrow> ab \<in> v_tomb v' k)"
    if y: "v_msg v' (l, h) = Some y" for l h y
  proof (cases "(l, h) = (q, n)")
    case False
    from old [OF y this] obtain m where m: "v_msg v (l, h) = Some m" "evolved m y" "sm_deleted y \<longrightarrow> sm_deleted m \<or> covered v' l h" by blast
    note before = settledD [OF settled m(1)]
    have y_marks: "marks S y = marks S m" using marks_same_except [OF evolved_same_except [OF m(2)]] .
    have "v_tomb v k \<subseteq> v_tomb v' k" for k using ext by (simp add: extends_def)
    then show ?thesis
      unfolding y_marks using exchangeable_evolved [OF before(1) m(2)] before(2,3) m(3) extends_covered [OF ext, of l h] by blast
  qed (use y new in simp)
  moreover have "fst l \<noteq> delete_topic \<and> (\<exists>k m. v_msg v' k = Some m \<and> marks S m l ab)" if "ab \<in> v_tomb v' l" for l ab
  proof (cases "ab \<in> v_tomb v l")
    case True
    from settled_tomb [OF settled this] obtain k m where m: "fst l \<noteq> delete_topic" "v_msg v k = Some m" "marks S m l ab" by blast
    from extendsD [OF ext m(2)] obtain m' where m': "v_msg v' k = Some m'" "evolved m m'" by blast
    then have "marks S m' l ab" using m(3) marks_same_except [OF evolved_same_except [OF m'(2)], of S] by simp
    with m(1) m'(1) show ?thesis by blast
  next
    case False
    with tombs [OF that] new(1) show ?thesis by blast
  qed
  ultimately show ?thesis unfolding settled_def by blast
qed

lemma spec_append_effect:
  assumes "spec_append v m at = (v', x)" "l = log_of (nm_topic m) (nm_origin m)"
  shows "x = mark_deleted v (stamp m (saturating_add (head_of v l) 1) at)" "v_tomb v' = v_tomb v"
    "v_msg v' = (v_msg v)((l, saturating_add (head_of v l) 1) \<mapsto> x)"
  using assms by (auto simp: spec_append_def Let_def)

lemma settled_append:
  assumes wf: "wf_view v" and settled: "settled S v" and room: "head_of v (log_of (nm_topic m) (nm_origin m)) \<noteq> - 1"
    and append: "spec_append v m at = (v', x)" and x: "exchangeable S x" "\<And>k ab. \<not> marks S x k ab"
  shows "settled S v'"
proof -
  let ?l = "log_of (nm_topic m) (nm_origin m)"
  let ?h = "saturating_add (head_of v ?l) 1"
  note v' = spec_append_effect [OF append refl]
  show ?thesis
  proof (rule settled_add [OF settled, where q = ?l and n = ?h and x = x])
    show "extends v v'" using spec_append_extends [OF wf room, of at] append by simp
    show "\<exists>m. v_msg v (l, h) = Some m \<and> evolved m y \<and> (sm_deleted y \<longrightarrow> sm_deleted m \<or> covered v' l h)"
      if "v_msg v' (l, h) = Some y" "(l, h) \<noteq> (?l, ?h)" for l h y
    proof -
      have "v_msg v (l, h) = Some y" using that(1) unfolding v'(3) fun_upd_other [OF that(2)] .
      then show ?thesis by (metis evolved_refl)
    qed
    show "covered v' ?l ?h" if "sm_deleted x"
    proof -
      have "covered v ?l ?h" using that v'(1) by (cases "covered v ?l ?h") (simp_all add: mark_deleted_def stamp_def)
      then show ?thesis by (simp add: covered_def v'(2))
    qed
  qed (simp_all add: v'(2,3) x)
qed

text \<open>A tombstone and its marker are recorded together.\<close>

lemma settled_marker_call:
  assumes codec: "serde_codec S" and wf: "wf_view v" and settled: "settled S v" and room: "\<And>l. head_of v l \<noteq> - 1"
    and n: "valid_node n" "slash_free n" and t: "topic_str t \<noteq> delete_topic" and ab: "a \<le> b" and w: "valid_part (uuid w)"
    and mark: "spec_marker (ser_tombstone S) w v t n a b (Topic delete_topic) n = Some (v', c, x)"
  shows "settled S v'"
proof -
  let ?l = "log_of t n" and ?r = "\<lparr>tr_topic = t, tr_origin = n, tr_from_head_id = a, tr_to_head_id = b, tr_created_at_ms = now w 0\<rparr>"
  obtain payload where payload: "ser_tombstone S ?r = Inr payload"
    and append: "spec_append (fst (spec_tombstone v ?l a b)) (new_message_new (uuid w) (Topic delete_topic) n payload fmempty) (now w 1) = (v', x)"
    using mark by (auto simp: spec_marker_def Let_def split: sum.splits prod.splits)
  have decoded: "de_tombstone S payload = Inr ?r" using round_tripsD [OF serde_codec.tombstone_json [OF codec] payload] .
  let ?v = "fst (spec_tombstone v ?l a b)" and ?k = "(delete_topic, node_key n)"
  let ?h = "saturating_add (head_of v ?k) 1"
  have head: "head_of ?v q = head_of v q" for q by (simp add: spec_tombstone_def)
  have k: "?k = log_of (nm_topic (new_message_new (uuid w) (Topic delete_topic) n payload fmempty))
      (nm_origin (new_message_new (uuid w) (Topic delete_topic) n payload fmempty))"
    by (simp add: log_of_def new_message_new_def)
  note v1 = spec_append_effect [OF append k, unfolded head]
  have tombs: "v_tomb v' = (v_tomb v)(?l := insert (a, b) (v_tomb v ?l))" unfolding v1(2) by (simp add: spec_tombstone_def)
  have "ab \<notin> v_tomb v ?k" for ab
  proof
    assume "ab \<in> v_tomb v ?k"
    from settled_tomb [OF settled this] show False by simp
  qed
  moreover have "?l \<noteq> ?k" using t by (simp add: log_of_def)
  ultimately have "v_tomb ?v ?k = {}" by (auto simp: spec_tombstone_def)
  then have x: "x = stamp (new_message_new (uuid w) (Topic delete_topic) n payload fmempty) ?h (now w 1)"
    unfolding v1(1) mark_deleted_def by (simp add: stamp_def new_message_new_def log_of_def covered_def)
  have marks_x: "marks S x q cd \<longleftrightarrow> q = ?l \<and> cd = (a, b)" for q cd
    using decoded by (auto simp: marks_def x stamp_def new_message_new_def)
  show ?thesis
  proof (rule settled_add [OF settled, where q = ?k and n = ?h and x = x])
    show "extends v v'" by (rule spec_marker_extends [OF wf room mark])
    show "\<exists>m. v_msg v (l, h) = Some m \<and> evolved m y \<and> (sm_deleted y \<longrightarrow> sm_deleted m \<or> covered v' l h)"
      if y: "v_msg v' (l, h) = Some y" "(l, h) \<noteq> (?k, ?h)" for l h y
    proof -
      have "delete_between ?l a b (v_msg v) (l, h) = Some y"
        using y(1) unfolding v1(3) fun_upd_other [OF y(2)] by (simp add: spec_tombstone_def)
      then show ?thesis by (auto simp: delete_between_def evolved_def covered_def tombs split: if_splits)
    qed
    show "v_msg v' (?k, ?h) = Some x" unfolding v1(3) by simp
    show "exchangeable S x"
      using n w ab decoded
      by (simp add: exchangeable_def sendable_def sendable_node_def control_ok_def x stamp_def new_message_new_def message_id_new_def)
    show "ab \<in> v_tomb v l \<or> fst l \<noteq> delete_topic \<and> marks S x l ab" if "ab \<in> v_tomb v' l" for l ab
      using that t unfolding marks_x by (auto simp: tombs log_of_def split: if_splits)
    show "covered v' ?k ?h" if "sm_deleted x" using that by (simp add: x stamp_def)
    show "ab \<in> v_tomb v' k" if "marks S x k ab" for k ab using that unfolding marks_x by (simp add: tombs)
  qed
qed

lemma settled_call:
  assumes codec: "serde_codec S" and wf: "wf_view v" and settled: "settled S v" and room: "\<And>l. head_of v l \<noteq> - 1"
    and n: "valid_node n" "slash_free n" and call: "owned_call n c" "valid_call w c" "spec_call (ser_tombstone S) w c v r v'"
  shows "settled S v'"
proof (cases c)
  case (AppendMessage m)
  with call obtain x where x: "spec_append v m (now w 0) = (v', x)" by auto
  have fields: "sm_id x = nm_id m" "sm_topic x = nm_topic m" "sm_origin x = nm_origin m" "sm_head_id x \<noteq> 0"
    unfolding spec_append_effect(1) [OF x refl] by (simp_all add: mark_deleted_def stamp_def saturating_add_1_neq_0)
  have "exchangeable S x" "\<not> marks S x k ab" for k ab
    using call(1,2) AppendMessage n fields
    by (auto simp: exchangeable_def sendable_def sendable_node_def control_ok_def valid_new_def marks_def)
  then show ?thesis using settled_append [OF wf settled room x] by blast
next
  case (TombstoneRangeWithMarker t o' a b mt mn)
  with call settled_marker_call [OF codec wf settled room n] show ?thesis by auto
next
  case (EnqueueFifo f)
  with call settled show ?thesis by (auto simp: spec_enqueue_def Let_def intro: settled_same_logs)
next
  case (AckFifo q i)
  then have "v' = fst (spec_ack v (queue_str q) i)" using call(3) by (auto simp: fst_def split: prod.splits)
  then show ?thesis by (intro settled_same_logs [OF settled]) (simp_all add: spec_ack_def split: option.splits)
next
  case (RejectFifo q i)
  then have "v' = fst (spec_reject v (queue_str q) i)" using call(3) by (auto simp: fst_def split: prod.splits)
  then show ?thesis by (intro settled_same_logs [OF settled]) (simp_all add: spec_reject_def split: option.splits)
qed (use call(1) in simp_all)

end
