(* ===== verification/Cluster.thy ===== *)
theory Cluster
  imports Sync_Merge Redb_Live
begin

text \<open>
  Several daemons that serve their own clients and pull from each other: every daemon is a server of
  this development, a pull is a pass of its sync task over a connection to another one, and requests and
  passes come in any order. However such a cluster got to where it is, its stores are settled, and
  all copies of a log agree with the log of the node that wrote it; so once one daemon has pulled from all
  others and all others from it, every daemon has the same logs.
\<close>

declare split_paired_All [simp del] split_paired_Ex [simp del]

section \<open>Daemons that pull from each other\<close>

record 's cluster =
  cl_store :: "'s msgbus_store"
  cl_serde :: serde
  cl_node :: "nat \<Rightarrow> node_id"
  cl_batch_limit :: u32
  cl_status_text :: "status \<Rightarrow> string"

definition cl_service :: "'s cluster \<Rightarrow> nat \<Rightarrow> 's service" where
  "cl_service C i = \<lparr>svc_store = cl_store C, svc_node = cl_node C i\<rparr>"

text \<open>The configuration and the connection with which daemon \<open>i\<close> pulls from daemon \<open>j\<close>.\<close>

definition cl_config :: "'s cluster \<Rightarrow> nat \<Rightarrow> nat \<Rightarrow> peer_sync_config" where
  "cl_config C i j =
     \<lparr>cfg_local_node = cl_node C i, cfg_peers = [\<lparr>peer_endpoint = [], peer_expected_node = Some (cl_node C j)\<rparr>],
      cfg_interval_ms = 1000, cfg_batch_limit = cl_batch_limit C, cfg_tls = None\<rparr>"

definition cl_transport :: "'s server \<Rightarrow> (string, 's remote) transport" where
  "cl_transport sv =
     \<lparr>tp_from_shared = Inr, tp_tls_config = \<lambda>_ e. Inr e, tp_connect = \<lambda>_ _. Inr (sv, 0), tp_read = \<lambda>_. Inl []\<rparr>"

definition pull :: "'s cluster \<Rightarrow> (nat \<Rightarrow> call_env) \<Rightarrow> nat \<Rightarrow> nat \<Rightarrow> (nat \<Rightarrow> 's server) \<Rightarrow> 's server \<times> (sync_error + unit)" where
  "pull C ws i j g =
     (let (y, r) = sync_once \<lparr>sp_store = cl_store C, sp_serde = cl_serde C, sp_client = loopback (cl_service C j) ws,
            sp_env = ws, sp_status_text = cl_status_text C\<rparr> (cl_transport (g j)) (cl_config C i j)
            \<lparr>sy_store = sv_store (g i), sy_published = sv_published (g i), sy_calls = 0\<rparr>
      in (\<lparr>sv_store = sy_store y, sv_published = sy_published y\<rparr>, r))"

datatype cluster_event = Serve nat call_env rpc_call | Pull nat nat "nat \<Rightarrow> call_env"

fun cluster_step :: "'s cluster \<Rightarrow> cluster_event \<Rightarrow> (nat \<Rightarrow> 's server) \<Rightarrow> nat \<Rightarrow> 's server" where
  "cluster_step C (Serve i w c) g = g(i := after_rpc (cl_service C i) w c (g i))"
| "cluster_step C (Pull i j ws) g = g(i := fst (pull C ws i j g))"

fun cluster_run :: "'s cluster \<Rightarrow> cluster_event list \<Rightarrow> (nat \<Rightarrow> 's server) \<Rightarrow> nat \<Rightarrow> 's server" where
  "cluster_run C [] g = g"
| "cluster_run C (e # es) g = cluster_run C es (cluster_step C e g)"

lemma cluster_run_append [simp]: "cluster_run C (es @ fs) g = cluster_run C fs (cluster_run C es g)"
  by (induction es arbitrary: g) auto

definition cluster_ok :: "'s cluster \<Rightarrow> nat \<Rightarrow> bool" where
  "cluster_ok C n \<longleftrightarrow> (\<forall>i < n. valid_node (cl_node C i) \<and> slash_free (cl_node C i)) \<and> inj_on (cl_node C) {..<n}"

fun event_ok :: "nat \<Rightarrow> cluster_event \<Rightarrow> bool" where
  "event_ok n (Serve i w c) \<longleftrightarrow> i < n \<and> valid_part (uuid w)"
| "event_ok n (Pull i j ws) \<longleftrightarrow> i < n \<and> j < n \<and> i \<noteq> j \<and> (\<forall>k. no_fault (ws k))"

section \<open>The invariant of a cluster\<close>

text \<open>One store has every log as far as another one, with the same messages but for deletions.\<close>

definition subsumes :: "store_view \<Rightarrow> store_view \<Rightarrow> bool" where
  "subsumes w v \<longleftrightarrow> (\<forall>l. head_of v l \<le> head_of w l \<and> v_tomb v l \<subseteq> v_tomb w l)
     \<and> (\<forall>q m. v_msg v q = Some m \<longrightarrow> (\<exists>m'. v_msg w q = Some m' \<and> same_except_deleted m m'))"

lemma subsumes_refl [simp]: "subsumes v v"
  by (simp add: subsumes_def)

lemma subsumes_trans:
  assumes "subsumes x w" "subsumes w v"
  shows "subsumes x v"
proof -
  have "\<exists>m''. v_msg x q = Some m'' \<and> same_except_deleted m m''" if "v_msg v q = Some m" for q m
    using assms that same_except_trans unfolding subsumes_def by metis
  with assms show ?thesis unfolding subsumes_def by (meson order_trans)
qed

lemma subsumes_same_logs: "same_logs w' w \<Longrightarrow> subsumes w v \<Longrightarrow> subsumes w' v"
  by (simp add: same_logs_def subsumes_def head_of_def)

lemma subsumesI:
  assumes "wf_view v" "wf_view w" "agrees v w" "\<And>l. head_of v l \<le> head_of w l" "\<And>l. v_tomb v l \<subseteq> v_tomb w l"
  shows "subsumes w v"
proof -
  have "\<exists>m'. v_msg w q = Some m' \<and> same_except_deleted m m'" if "v_msg v q = Some m" for q m
  proof -
    obtain l h where q: "q = (l, h)" by (metis surj_pair)
    have "1 \<le> h" "h \<le> head_of w l"
      using wf_view_gapless [OF assms(1), of l h] that assms(4) [of l] by (auto simp: q)
    then obtain m' where "v_msg w q = Some m'" using wf_view_gapless [OF assms(2), of l h] by (auto simp: q)
    with assms(3) that show ?thesis unfolding agrees_def by blast
  qed
  with assms(4,5) show ?thesis by (simp add: subsumes_def)
qed

lemma subsumes_extends:
  assumes "extends v w" "\<And>l. head_of v l \<le> head_of w l" "\<And>l. v_tomb v l \<subseteq> v_tomb w l"
  shows "subsumes w v"
  using assms evolved_same_except unfolding subsumes_def by (meson extendsD)

text \<open>A store that takes whatever the source accepts, as redb does.\<close>

locale replica = live_contract st inv view "ser_tombstone S" fits + codec: serde_codec S
  for st :: "'s msgbus_store" and inv view S fits +
  assumes fits_put: "spec_put v m \<noteq> None \<Longrightarrow> fits w (PutReplicatedMessage m) v"
    and fits_tombstone: "a \<le> b \<Longrightarrow> fits w (TombstoneRange t o' a b) v"
    and fits_others: "fits w (RecordPeerSyncState ps) v" "fits w (GetHead t o') v" "fits w ListHeads v" "fits w (FetchMessages q) v"
begin

abbreviation logs :: "'s server \<Rightarrow> store_view" where
  "logs sv \<equiv> view (sv_store sv)"

text \<open>
  Every store is sound and settled, no head is beyond \<open>k\<close>, and every message is, up to its deletion, in
  the store of the daemon whose node wrote it.
\<close>

definition cluster_inv :: "'s cluster \<Rightarrow> nat \<Rightarrow> nat \<Rightarrow> (nat \<Rightarrow> 's server) \<Rightarrow> bool" where
  "cluster_inv C n k g \<longleftrightarrow>
     (\<forall>i < n. inv (sv_store (g i)) \<and> settled S (logs (g i)) \<and> (\<forall>l. unat (head_of (logs (g i)) l) \<le> k)
        \<and> (\<forall>l h m. v_msg (logs (g i)) (l, h) = Some m \<longrightarrow>
             (\<exists>j < n. snd l = node_key (cl_node C j) \<and> (\<exists>m'. v_msg (logs (g j)) (l, h) = Some m' \<and> same_except_deleted m m'))))"

lemma cluster_invD:
  assumes "cluster_inv C n k g" "i < n"
  shows "inv (sv_store (g i))" "wf_view (logs (g i))" "settled S (logs (g i))" "unat (head_of (logs (g i)) l) \<le> k"
  using assms inv_wf by (auto simp: cluster_inv_def)

lemma cluster_inv_empty:
  assumes "\<And>i. i < n \<Longrightarrow> inv (sv_store (g i))" "\<And>i. i < n \<Longrightarrow> logs (g i) = empty_view"
  shows "cluster_inv C n 0 g"
  using assms by (simp add: cluster_inv_def settled_empty) (simp add: empty_view_def head_of_def)

lemma cluster_owner:
  assumes "cluster_inv C n k g" "i < n" "v_msg (logs (g i)) (l, h) = Some m"
  obtains j m' where "j < n" "snd l = node_key (cl_node C j)" "v_msg (logs (g j)) (l, h) = Some m'" "same_except_deleted m m'"
  using assms unfolding cluster_inv_def by blast

lemma cluster_agrees:
  assumes ok: "cluster_ok C n" and g: "cluster_inv C n k g" and "i < n" "j < n"
  shows "agrees (logs (g i)) (logs (g j))"
  unfolding agrees_def
proof (intro allI impI)
  fix q m m' assume m: "v_msg (logs (g i)) q = Some m" "v_msg (logs (g j)) q = Some m'"
  obtain l h where q: "q = (l, h)" by (metis surj_pair)
  from cluster_owner [OF g assms(3) m(1) [unfolded q]] obtain a x where a: "a < n" "snd l = node_key (cl_node C a)"
    "v_msg (logs (g a)) (l, h) = Some x" "same_except_deleted m x" by blast
  from cluster_owner [OF g assms(4) m(2) [unfolded q]] obtain b y where b: "b < n" "snd l = node_key (cl_node C b)"
    "v_msg (logs (g b)) (l, h) = Some y" "same_except_deleted m' y" by blast
  have "cl_node C a = cl_node C b" using a b ok node_key_inj unfolding cluster_ok_def by metis
  then have "a = b" using a(1) b(1) ok by (auto simp: cluster_ok_def inj_on_def)
  with a(3,4) b(3,4) show "same_except_deleted m m'" using same_except_sym same_except_trans by (metis option.inject)
qed

text \<open>When one store moves on, by own messages and by copies, the others stay as they are.\<close>

lemma cluster_inv_update:
  assumes g: "cluster_inv C n k g" and i: "i < n" and inv: "inv (sv_store sv)" and settled: "settled S (logs sv)"
    and heads: "\<And>l. unat (head_of (logs sv) l) \<le> k'" "k \<le> k'" and ext: "extends (logs (g i)) (logs sv)"
    and new: "\<And>l h m. v_msg (logs sv) (l, h) = Some m \<Longrightarrow> snd l = node_key (cl_node C i)
      \<or> (\<exists>j < n. \<exists>m0. v_msg (logs (g j)) (l, h) = Some m0 \<and> same_except_deleted m0 m)"
  shows "cluster_inv C n k' (g(i := sv))"
proof -
  have owner: "\<exists>j < n. snd l = node_key (cl_node C j) \<and> (\<exists>m'. v_msg (logs ((g(i := sv)) j)) (l, h) = Some m' \<and> same_except_deleted m m')"
    if "a < n" "v_msg (logs (g a)) (l, h) = Some m0" "same_except_deleted m0 m" for a l h m0 m
  proof -
    from cluster_owner [OF g that(1,2)] obtain j x where x: "j < n" "snd l = node_key (cl_node C j)"
      "v_msg (logs (g j)) (l, h) = Some x" "same_except_deleted m0 x" by blast
    have "\<exists>m'. v_msg (logs ((g(i := sv)) j)) (l, h) = Some m' \<and> same_except_deleted x m'"
      using x(3) extendsD [OF ext, of "(l, h)" x] evolved_same_except by (cases "j = i") auto
    with x that(3) show ?thesis using same_except_sym same_except_trans by blast
  qed
  have "(\<exists>j < n. snd l = node_key (cl_node C j) \<and> (\<exists>m'. v_msg (logs ((g(i := sv)) j)) (l, h) = Some m' \<and> same_except_deleted m m'))"
    if "a < n" "v_msg (logs ((g(i := sv)) a)) (l, h) = Some m" for a l h m
  proof (cases "a = i")
    case True
    with that(2) have m: "v_msg (logs sv) (l, h) = Some m" by simp
    from new [OF m] show ?thesis
    proof
      assume "snd l = node_key (cl_node C i)"
      with m i show ?thesis by (intro exI [of _ i]) auto
    qed (use owner in blast)
  next
    case False
    with that owner [OF that(1), of l h m m] show ?thesis by simp
  qed
  moreover have "unat (head_of (logs (g a)) l) \<le> k'" if "a < n" for a l
    using cluster_invD(4) [OF g that, of l] heads(2) by simp
  ultimately show ?thesis
    using cluster_invD(1,3) [OF g] inv settled heads(1) unfolding cluster_inv_def by auto
qed

section \<open>Steps\<close>

lemma serve_step:
  assumes ok: "cluster_ok C n" and C: "cl_store C = st" and g: "cluster_inv C n k g" and i: "i < n"
    and w: "valid_part (uuid w)" and k: "Suc k < 2 ^ 64"
  shows "cluster_inv C n (Suc k) (cluster_step C (Serve i w c) g)"
proof -
  let ?svc = "cl_service C i" and ?sv = "after_rpc (cl_service C i) w c (g i)"
  have svc: "svc_store ?svc = st" "svc_node ?svc = cl_node C i" by (simp_all add: cl_service_def C)
  have node: "valid_node (cl_node C i)" "slash_free (cl_node C i)" using ok i by (simp_all add: cluster_ok_def)
  have room: "head_of (logs (g i)) l \<noteq> - 1" for l
    using cluster_invD(4) [OF g i, of l] k by (auto simp: unsigned_minus_1_eq_mask mask_eq_exp_minus_1)
  note before = cluster_invD [OF g i]
  note step = rpc_step [where c = c, OF svc(1) w before(1) room refl]
  have "settled S (logs ?sv)"
  proof (cases "?sv = g i")
    case False
    with after_rpc_effect [OF svc(1) w, of c "g i"] obtain d r where d: "owned_call (cl_node C i) d" "valid_call w d"
      "perform st w d (sv_store (g i)) = (sv_store ?sv, Inr r)" by (auto simp: rpc_effect_def svc)
    from perform_ok [OF before(1) d(2,3)] have "spec_call (ser_tombstone S) w d (logs (g i)) r (logs ?sv)" by simp
    from settled_call [OF codec.serde_codec_axioms before(2,3) room node d(1,2) this] show ?thesis .
  qed (use before(3) in simp)
  note settled = this
  have new: "snd l = node_key (cl_node C i) \<or> (\<exists>j < n. \<exists>m0. v_msg (logs (g j)) (l, h) = Some m0 \<and> same_except_deleted m0 m)"
    if "v_msg (logs ?sv) (l, h) = Some m" for l h m
    using that step(4) [of l] i by (auto simp: untouched_def svc(2))
  have heads: "unat (head_of (logs ?sv) l) \<le> Suc k" for l using step(3) [of l] before(4) [of l] by simp
  have "cluster_inv C n (Suc k) (g(i := ?sv))"
    by (rule cluster_inv_update [OF g i step(1) settled heads _ step(2) new]) simp_all
  then show ?thesis by simp
qed

lemma pull_step:
  assumes ok: "cluster_ok C n" and C: "cl_store C = st" "cl_serde C = S" and g: "cluster_inv C n k g"
    and ij: "i < n" "j < n" "i \<noteq> j" and ws: "\<And>k. no_fault (ws k)" and sv: "pull C ws i j g = (sv, r)"
  shows "r = Inr ()" "cluster_inv C n k (g(i := sv))"
    "head_of (logs sv) l = max (head_of (logs (g i)) l) (head_of (logs (g j)) l)"
    "v_tomb (logs sv) l = v_tomb (logs (g i)) l \<union> v_tomb (logs (g j)) l"
    "subsumes (logs sv) (logs (g i))" "subsumes (logs sv) (logs (g j))"
proof -
  let ?v = "logs (g i)" and ?rv = "logs (g j)"
  let ?p = "\<lparr>sp_store = st, sp_serde = S, sp_client = loopback (cl_service C j) ws, sp_env = ws, sp_status_text = cl_status_text C\<rparr>"
  let ?y = "\<lparr>sy_store = sv_store (g i), sy_published = sv_published (g i), sy_calls = 0\<rparr>"
  note vi = cluster_invD [OF g ij(1)] and vj = cluster_invD [OF g ij(2)]
  note agree = cluster_agrees [OF ok g ij(1,2)]
  have takes: "takes_all S ?rv"
    by (rule takes_all_exchangeable [OF vj(2)]) (metis settledD(1) [OF vj(3)] surj_pair)
  have nodes: "valid_node (cl_node C j)" "cl_node C j \<noteq> cl_node C i"
    using ok ij by (auto simp: cluster_ok_def inj_on_def)
  have connect: "connect_peer (cl_transport (g j)) 0 \<lparr>peer_endpoint = [], peer_expected_node = Some (cl_node C j)\<rparr> None = Inr (g j, 0)"
    by (simp add: connect_peer_def cl_transport_def)
  have "sync_pair st inv view (ser_tombstone S) fits st inv view (ser_tombstone S) fits"
    by (rule sync_pair.intro [OF live_contract_axioms live_contract_axioms])
  from sync_pair.sync_once_takes [OF this, of ?p "cl_service C j" ws "g j" ?y "cl_config C i j" _ "cl_transport (g j)" 0]
  obtain y where y: "sync_once ?p (cl_transport (g j)) (cl_config C i j) ?y = (y, Inr ())" "inv (sy_store y)"
    "caught_up S ?rv (dom (v_head ?rv)) ?v (view (sy_store y))"
    using ws vi(1) vj(1) takes nodes connect fits_put fits_tombstone fits_others by (auto simp: cl_service_def cl_config_def C)
  then have sv': "r = Inr ()" "sv_store sv = sy_store y" using sv by (auto simp: pull_def C)
  then show "r = Inr ()" by simp
  have wf: "wf_view (logs sv)" and up: "caught_up S ?rv (dom (v_head ?rv)) ?v (logs sv)" using inv_wf [OF y(2)] y(3) sv'(2) by simp_all
  note heads = caught_up_heads [OF wf vj(2) vi(2) up]
  then show "head_of (logs sv) l = max (head_of ?v l) (head_of ?rv l)" .
  note tombs = caught_up_tombs [OF vj(2) vi(2,3) vj(3) agree up]
  then show "v_tomb (logs sv) l = v_tomb ?v l \<union> v_tomb ?rv l" .
  show "subsumes (logs sv) ?v" using up heads tombs by (intro subsumes_extends) (auto simp: caught_up_def)
  show inv': "cluster_inv C n k (g(i := sv))"
  proof (rule cluster_inv_update [OF g ij(1)])
    show "settled S (logs sv)" by (rule caught_up_settled [OF wf vj(2) vi(2,3) vj(3) agree up])
    show "unat (head_of (logs sv) l) \<le> k" for l using heads [of l] vi(4) [of l] vj(4) [of l] by (simp add: max_def)
    show "extends ?v (logs sv)" using up by (simp add: caught_up_def)
    show "snd l = node_key (cl_node C i) \<or> (\<exists>j < n. \<exists>m0. v_msg (logs (g j)) (l, h) = Some m0 \<and> same_except_deleted m0 m)"
      if "v_msg (logs sv) (l, h) = Some m" for l h m
      using sourced_msg [OF _ that, of S ?rv ?v] up ij(1,2) evolved_same_except unfolding caught_up_def by metis
  qed (use y(2) sv'(2) in simp_all)
  have "agrees ?rv (logs sv)" using cluster_agrees [OF ok inv' ij(2,1)] ij(3) by simp
  then show "subsumes (logs sv) ?rv" using heads tombs by (intro subsumesI [OF vj(2) wf]) auto
qed

lemma cluster_run_inv:
  assumes ok: "cluster_ok C n" and C: "cl_store C = st" "cl_serde C = S"
  shows "cluster_inv C n k g \<Longrightarrow> list_all (event_ok n) es \<Longrightarrow> k + length es < 2 ^ 64 \<Longrightarrow> cluster_inv C n (k + length es) (cluster_run C es g)"
proof (induction es arbitrary: g k)
  case (Cons e es)
  have "cluster_inv C n (Suc k) (cluster_step C e g)"
  proof (cases e)
    case (Serve i w c)
    with Cons.prems serve_step [OF ok C(1), of k g i w c] show ?thesis by simp
  next
    case (Pull i j ws)
    with Cons.prems pull_step(2) [OF ok C, of k g i j ws "fst (pull C ws i j g)" "snd (pull C ws i j g)"]
    have "cluster_inv C n k (cluster_step C e g)" by simp
    then show ?thesis unfolding cluster_inv_def by (meson le_SucI)
  qed
  with Cons.IH [of "Suc k" "cluster_step C e g"] Cons.prems(2,3) show ?case by simp
qed simp

section \<open>Gathering and scattering\<close>

lemma gather:
  assumes ok: "cluster_ok C n" and C: "cl_store C = st" "cl_serde C = S" and n: "0 < n" and ws: "\<And>k. no_fault (ws k)"
  shows "cluster_inv C n k g \<Longrightarrow> set js \<subseteq> {1..<n} \<Longrightarrow> g' = cluster_run C (map (\<lambda>j. Pull 0 j ws) js) g \<Longrightarrow>
    cluster_inv C n k g' \<and> (\<forall>j. j \<noteq> 0 \<longrightarrow> g' j = g j) \<and> subsumes (logs (g' 0)) (logs (g 0))
    \<and> (\<forall>j \<in> set js. subsumes (logs (g' 0)) (logs (g j)))"
proof (induction js arbitrary: g)
  case (Cons j js)
  obtain sv r where sv: "pull C ws 0 j g = (sv, r)" by force
  have j: "j < n" "0 \<noteq> j" using Cons.prems(2) by auto
  note step = pull_step [OF ok C Cons.prems(1) n j ws sv]
  have js: "set js \<subseteq> {1..<n}" using Cons.prems(2) by simp
  have "g' = cluster_run C (map (\<lambda>j. Pull 0 j ws) js) (g(0 := sv))" using Cons.prems(3) sv by simp
  note ih = Cons.IH [OF step(2) js this]
  then have "subsumes (logs (g' 0)) (logs sv)" by simp
  moreover have "subsumes (logs (g' 0)) (logs (g a))" if "a \<in> set js" for a using ih that js by fastforce
  ultimately show ?case using ih step(5,6) subsumes_trans by auto
qed auto

lemma scatter:
  assumes ok: "cluster_ok C n" and C: "cl_store C = st" "cl_serde C = S" and n: "0 < n" and ws: "\<And>k. no_fault (ws k)"
  shows "cluster_inv C n k g \<Longrightarrow> set js \<subseteq> {1..<n} \<Longrightarrow> distinct js \<Longrightarrow> \<forall>j \<in> set js. subsumes (logs (g 0)) (logs (g j)) \<Longrightarrow>
    g' = cluster_run C (map (\<lambda>j. Pull j 0 ws) js) g \<Longrightarrow>
    cluster_inv C n k g' \<and> (\<forall>j. j \<notin> set js \<longrightarrow> g' j = g j) \<and> (\<forall>j \<in> set js. same_logs (logs (g' j)) (logs (g 0)))"
proof (induction js arbitrary: g)
  case (Cons j js)
  obtain sv r where sv: "pull C ws j 0 g = (sv, r)" by force
  have j: "j < n" "j \<noteq> 0" using Cons.prems(2) by auto
  note step = pull_step [OF ok C Cons.prems(1) j(1) n j(2) ws sv]
  let ?g = "g(j := sv)"
  have "subsumes (logs (g 0)) (logs (g j))" using Cons.prems(4) by simp
  then have eq: "head_of (logs sv) l = head_of (logs (g 0)) l" "v_tomb (logs sv) l = v_tomb (logs (g 0)) l" for l
    using step(3,4) [of l] by (auto simp: subsumes_def max_def)
  have same: "same_logs (logs sv) (logs (g 0))"
    using settled_determined [OF cluster_invD(2) [OF step(2) j(1)] cluster_invD(2) [OF step(2) n] cluster_invD(3) [OF step(2) j(1)]
        cluster_invD(3) [OF step(2) n] cluster_agrees [OF ok step(2) j(1) n]] eq j(2) by simp
  have g': "g' = cluster_run C (map (\<lambda>j. Pull j 0 ws) js) ?g" using Cons.prems(5) sv by simp
  have "\<forall>a \<in> set js. subsumes (logs (?g 0)) (logs (?g a))" "set js \<subseteq> {1..<n}" "distinct js" using Cons.prems(2-4) j(2) by auto
  note ih = Cons.IH [OF step(2) this(2,3,1) g']
  then have "g' j = sv" using Cons.prems(3) by simp
  with ih same j(2) show ?case by auto
qed auto

lemma exchange_converges:
  assumes ok: "cluster_ok C n" and C: "cl_store C = st" "cl_serde C = S" and ws: "\<And>k. no_fault (ws k)" and g: "cluster_inv C n k g"
    and g': "g' = cluster_run C (map (\<lambda>j. Pull 0 j ws) [1..<n] @ map (\<lambda>j. Pull j 0 ws) [1..<n]) g" and ij: "i < n" "j < n"
  shows "same_logs (logs (g' i)) (logs (g' j))" "subsumes (logs (g' i)) (logs (g j))"
proof -
  have n: "0 < n" using ij by simp
  let ?h = "cluster_run C (map (\<lambda>j. Pull 0 j ws) [1..<n]) g"
  have h: "cluster_inv C n k ?h" "\<forall>j \<in> set [1..<n]. subsumes (logs (?h 0)) (logs (?h j))"
    and all: "subsumes (logs (?h 0)) (logs (g j))"
    using gather [OF ok C n ws g _ refl, of "[1..<n]"] ij(2) by (cases "j = 0"; auto)+
  have "g' = cluster_run C (map (\<lambda>j. Pull j 0 ws) [1..<n]) ?h" using g' by simp
  from scatter [OF ok C n ws h(1) _ _ h(2) this]
  have "g' 0 = ?h 0" "\<forall>j \<in> set [1..<n]. same_logs (logs (g' j)) (logs (?h 0))" by auto
  then have same: "same_logs (logs (g' a)) (logs (?h 0))" if "a < n" for a
    using that by (cases "a = 0") (auto simp: same_logs_def)
  from same [OF ij(1)] same [OF ij(2)] show "same_logs (logs (g' i)) (logs (g' j))" by (simp add: same_logs_def)
  show "subsumes (logs (g' i)) (logs (g j))" by (rule subsumes_same_logs [OF same [OF ij(1)] all])
qed

end

sublocale redb_backend \<subseteq> replica "redb_store P" "redb_inv P" "redb_view P" "rd_serde P" redb_fits
  by unfold_locales simp_all

context redb_backend
begin

lemmas redb_replica = replica_axioms

end

end
