(* ===== verification/Daemon.thy ===== *)
theory Daemon
  imports Peer_Sync Server_Control Sqlite_Store Redb_Store
begin

text \<open>
  The daemon \<open>msgbusd\<close>, \<open>crates/msgbus-server/src/main.rs\<close>: its arguments with their defaults, the
  configuration it derives from them, and start-up up to the running service. Parsing the command
  line, logging, sockets and signals are not modelled. Files are read through a function argument,
  and the databases that \<open>open\<close> finds are arguments too.
\<close>

section \<open>Arguments\<close>

datatype storage_kind = Redb | Sqlite

record args =
  arg_listen :: string
  arg_data :: string
  arg_storage :: storage_kind
  arg_peers :: "string list"
  arg_peer_tls_ca :: "string option"
  arg_peer_tls_cert :: "string option"
  arg_peer_tls_key :: "string option"
  arg_peer_tls_domain :: "string option"
  arg_tls_cert :: "string option"
  arg_tls_key :: "string option"
  arg_tls_client_ca :: "string option"
  arg_sync_interval_ms :: u64
  arg_sync_batch_limit :: u32
  arg_tenant_id :: string
  arg_bl_name :: string
  arg_device_id :: string

definition default_args :: args where
  "default_args =
     \<lparr>arg_listen = ''127.0.0.1:50051'', arg_data = ''./msgbus.redb'', arg_storage = Redb, arg_peers = [],
      arg_peer_tls_ca = None, arg_peer_tls_cert = None, arg_peer_tls_key = None, arg_peer_tls_domain = None,
      arg_tls_cert = None, arg_tls_key = None, arg_tls_client_ca = None,
      arg_sync_interval_ms = 1000, arg_sync_batch_limit = 100,
      arg_tenant_id = ''tenant'', arg_bl_name = ''default'', arg_device_id = ''device''\<rparr>"

section \<open>Configuration\<close>

datatype daemon_error = DaemonCore msgbus_error | DaemonStatus status | DaemonText string

definition peer_tls_config :: "args \<Rightarrow> daemon_error + peer_client_tls_config option" where
  "peer_tls_config a =
     (case (arg_peer_tls_cert a, arg_peer_tls_key a) of
        (Some _, None) \<Rightarrow> Inl (DaemonText ''peer TLS cert and key must be configured together'')
      | (None, Some _) \<Rightarrow> Inl (DaemonText ''peer TLS cert and key must be configured together'')
      | _ \<Rightarrow>
          (let config = \<lparr>tls_ca_cert = arg_peer_tls_ca a, tls_cert = arg_peer_tls_cert a,
                         tls_key = arg_peer_tls_key a, tls_domain_name = arg_peer_tls_domain a\<rparr>
           in Inr (if tls_is_enabled config then Some config else None)))"

record server_tls =
  srv_tls_identity :: "bytes \<times> bytes"
  srv_tls_client_ca :: "bytes option"

definition server_tls_config :: "(string \<Rightarrow> string + bytes) \<Rightarrow> args \<Rightarrow> daemon_error + server_tls option" where
  "server_tls_config read a =
     (case (arg_tls_cert a, arg_tls_key a) of
        (Some cert, Some key) \<Rightarrow>
          and_then (map_err DaemonText (read cert)) (\<lambda>cert.
          and_then (map_err DaemonText (read key)) (\<lambda>key.
          case arg_tls_client_ca a of
            Some client_ca \<Rightarrow>
              and_then (map_err DaemonText (read client_ca)) (\<lambda>client_ca.
              Inr (Some \<lparr>srv_tls_identity = (cert, key), srv_tls_client_ca = Some client_ca\<rparr>))
          | None \<Rightarrow> Inr (Some \<lparr>srv_tls_identity = (cert, key), srv_tls_client_ca = None\<rparr>)))
      | (None, None) \<Rightarrow>
          (if arg_tls_client_ca a \<noteq> None
           then Inl (DaemonText ''MSGBUS_TLS_CLIENT_CA requires MSGBUS_TLS_CERT and MSGBUS_TLS_KEY'')
           else Inr None)
      | _ \<Rightarrow> Inl (DaemonText ''server TLS cert and key must be configured together''))"

definition daemon_config ::
  "(string \<Rightarrow> string + bytes) \<Rightarrow> args \<Rightarrow> daemon_error + (peer_sync_config \<times> server_tls option)" where
  "daemon_config read a =
     and_then (map_err DaemonCore (node_new (arg_tenant_id a) (arg_bl_name a) (arg_device_id a))) (\<lambda>node.
     and_then (map_err DaemonCore (try_map peer_spec_parse (arg_peers a))) (\<lambda>peers.
     and_then (peer_tls_config a) (\<lambda>peer_tls.
     and_then (server_tls_config read a) (\<lambda>server_tls.
     Inr (\<lparr>cfg_local_node = node, cfg_peers = peers,
           cfg_interval_ms = max (arg_sync_interval_ms a) 100,
           cfg_batch_limit = max (arg_sync_batch_limit a) 1, cfg_tls = peer_tls\<rparr>, server_tls)))))"

section \<open>Start-up\<close>

text \<open>
  \<open>serve\<close> replays the control messages, creates the service and starts the sync task if there are
  peers, and then configures TLS, which the transport library may refuse with an error; the value is
  \<open>None\<close> when the replay does not return. When TLS is refused the sync task goes with the daemon.
\<close>

record 's running =
  run_service :: "'s service"
  run_server :: "'s server"
  run_sync :: "peer_sync_config option"
  run_tls :: "server_tls option"

definition serve ::
  "serde \<Rightarrow> 's msgbus_store \<Rightarrow> (nat \<Rightarrow> call_env) \<Rightarrow> (server_tls \<Rightarrow> string option) \<Rightarrow> node_id
     \<Rightarrow> peer_sync_config \<Rightarrow> server_tls option \<Rightarrow> 's \<Rightarrow> (daemon_error + 's running) option" where
  "serve S st ws refused node sync server_tls s =
     (case replay_control_messages S st ws s of
        None \<Rightarrow> None
      | Some (_, Inl e) \<Rightarrow> Some (Inl (DaemonStatus e))
      | Some ((_, s), Inr _) \<Rightarrow>
          (let (service, server) = service_new st node s;
               sync_task = (if peer_sync_is_enabled sync then Some sync else None)
           in case Option.bind server_tls refused of
                Some e \<Rightarrow> Some (Inl (DaemonText e))
              | None \<Rightarrow>
                  Some (Inr \<lparr>run_service = service, run_server = server, run_sync = sync_task,
                             run_tls = server_tls\<rparr>)))"

datatype ('b, 'u) daemon =
    OnRedb "('b, 'u) redb_db running"
  | OnSqlite "sqlite_db running"

record ('b, 'u) daemon_env =
  denv_serde :: serde
  denv_redb :: "('b, 'u) redb_params"
  denv_redb_file :: "string \<Rightarrow> ('b, 'u) redb_db option"
  denv_sqlite :: sqlite_params
  denv_sqlite_file :: "string \<Rightarrow> sqlite_db option"
  denv_open :: call_env
  denv_replay :: "nat \<Rightarrow> call_env"
  denv_read :: "string \<Rightarrow> string + bytes"
  denv_refused :: "server_tls \<Rightarrow> string option"

definition daemon_main :: "('b, 'u) daemon_env \<Rightarrow> args \<Rightarrow> (daemon_error + ('b, 'u) daemon) option" where
  "daemon_main e a =
     (case daemon_config (denv_read e) a of
        Inl err \<Rightarrow> Some (Inl err)
      | Inr (sync, server_tls) \<Rightarrow>
          (case arg_storage a of
             Redb \<Rightarrow>
               (case redb_open (denv_redb e) (denv_open e) (denv_redb_file e (arg_data a)) of
                  Inl err \<Rightarrow> Some (Inl (DaemonCore err))
                | Inr db \<Rightarrow>
                    map_option (\<lambda>r. and_then r (\<lambda>run. Inr (OnRedb run)))
                      (serve (denv_serde e) (redb_store (denv_redb e)) (denv_replay e) (denv_refused e)
                        (cfg_local_node sync) sync
                        server_tls db))
           | Sqlite \<Rightarrow>
               (case sqlite_open (denv_open e) (denv_sqlite_file e (arg_data a)) of
                  Inl err \<Rightarrow> Some (Inl (DaemonCore err))
                | Inr db \<Rightarrow>
                    map_option (\<lambda>r. and_then r (\<lambda>run. Inr (OnSqlite run)))
                      (serve (denv_serde e) (sqlite_store (denv_sqlite e)) (denv_replay e) (denv_refused e)
                        (cfg_local_node sync) sync
                        server_tls db))))"

lemma daemon_config_Inr:
  assumes "daemon_config read a = Inr (sync, tls)"
  shows "valid_node (cfg_local_node sync)" "100 \<le> cfg_interval_ms sync" "1 \<le> cfg_batch_limit sync"
    "length (cfg_peers sync) = length (arg_peers a)"
    "tls = None \<longleftrightarrow> arg_tls_cert a = None"
  using assms
  by (auto simp: daemon_config_def and_then_eq_Inr node_new_Inr server_tls_config_def dest!: try_map_length
      split: option.splits if_splits)

section \<open>A started daemon\<close>

text \<open>
  What holds of a daemon that came up on a store that held \<open>s\<close>: the service runs on the configured
  node, nothing is broadcast yet, the store is sound and lost nothing, every delete marker it holds is
  in force, and a sync task runs for the configured node with bounded settings.
\<close>

definition started ::
  "serde \<Rightarrow> 's msgbus_store \<Rightarrow> ('s \<Rightarrow> bool) \<Rightarrow> ('s \<Rightarrow> store_view) \<Rightarrow> 's \<Rightarrow> 's running \<Rightarrow> bool" where
  "started S st sound view s x \<longleftrightarrow>
     (let node = svc_node (run_service x); s' = sv_store (run_server x) in
        svc_store (run_service x) = st \<and> valid_node node \<and> sv_published (run_server x) = []
        \<and> sound s' \<and> extends (view s) (view s')
        \<and> (\<forall>origin h m. v_msg (view s') ((delete_topic, origin), h) = Some m \<longrightarrow> marker_applied S (view s') m)
        \<and> (\<forall>sync. run_sync x = Some sync \<longrightarrow> cfg_peers sync \<noteq> [] \<and> cfg_local_node sync = node
             \<and> 100 \<le> cfg_interval_ms sync \<and> 1 \<le> cfg_batch_limit sync))"

context msgbus_contract
begin

lemma serve_returns:
  assumes inv: "inv s" and room: "\<And>l. head_of (view s) l \<noteq> - 1" and config: "daemon_config read a = Inr (sync, tls)"
  shows "\<exists>r. serve S st ws refused (cfg_local_node sync) sync tls s = Some r
    \<and> (\<forall>x. r = Inr x \<longrightarrow> started S st inv view s x \<and> run_tls x = tls)"
proof -
  obtain i s' r where r: "replay_control_messages S st ws s = Some ((i, s'), r)" "inv s'" "extends (view s) (view s')"
    "r = Inr () \<Longrightarrow> fst l = delete_topic \<Longrightarrow> v_msg (view s') (l, h) = Some m \<Longrightarrow> marker_applied S (view s') m" for l h m
    using replay_control_ok [OF inv room, of S ws] by blast
  note config = daemon_config_Inr [OF config]
  show ?thesis
  proof (cases r)
    case (Inl e)
    with r(1) show ?thesis by (simp add: serve_def)
  next
    case (Inr u)
    with r(4) have "marker_applied S (view s') m" if "v_msg (view s') ((delete_topic, origin), h) = Some m" for origin h m
      using that by auto
    with r(1-3) Inr config(1-3) show ?thesis
      by (auto simp: serve_def service_new_def started_def peer_sync_is_enabled_def Let_def split: option.splits)
  qed
qed

end

context live_contract
begin

lemma serve_fresh:
  assumes "inv s" "v_head (view s) = Map.empty" "no_fault (ws 0)" "fits (ws 0) ListHeads (view s)"
    and "Option.bind tls refused = None"
  shows "\<exists>x. serve S st ws refused node sync tls s = Some (Inr x)"
proof -
  from perform_total [OF assms(1,3) _ assms(4)] obtain s' hs where "st_list_heads st (ws 0) s = Inr hs"
    by (auto simp: map_ok_eq_Inr)
  moreover from list_heads_ok [OF assms(1) this] assms(2) have "hs = []" by auto
  ultimately show ?thesis using assms(5) by (simp add: serve_def replay_control_messages_def service_new_def Let_def)
qed

end

text \<open>A first start: there is no database yet, the arguments are accepted and nothing fails.\<close>

definition fresh_start :: "('b, 'u) daemon_env \<Rightarrow> args \<Rightarrow> bool" where
  "fresh_start e a \<longleftrightarrow>
     (case daemon_config (denv_read e) a of Inl _ \<Rightarrow> False | Inr (sync, tls) \<Rightarrow> Option.bind tls (denv_refused e) = None)
     \<and> denv_sqlite_file e (arg_data a) = None \<and> denv_redb_file e (arg_data a) = None
     \<and> no_fault (denv_open e) \<and> no_fault (denv_replay e 0)"

lemma sqlite_open_cases:
  "sqlite_open w file = Inr (case file of None \<Rightarrow> empty_db | Some db \<Rightarrow> db) \<or> (\<exists>err. sqlite_open w file = Inl err) \<and> \<not> no_fault w"
  by (auto simp: sqlite_open_def sqlite_configure_def sqlite_initialize_def io_then_def no_fault_def split: option.split)

lemma redb_open_cases:
  "redb_open P w file = Inr (case file of None \<Rightarrow> redb_empty P | Some db \<Rightarrow> db) \<or> (\<exists>err. redb_open P w file = Inl err) \<and> \<not> no_fault w"
  by (auto simp: redb_open_def redb_initialize_def io_then_def no_fault_def split: option.split)

context live_contract
begin

lemma boot_returns:
  assumes "inv s" "\<And>l. head_of (view s) l \<noteq> - 1" "daemon_config read a = Inr (sync, tls)"
    and wrap: "\<And>x y. wrap x = wrap y \<Longrightarrow> x = y"
    and opened: "opened = Inr s \<or> (\<exists>err. opened = Inl err) \<and> \<not> no_fault w"
  shows "\<exists>r. (case opened of
          Inl err \<Rightarrow> Some (Inl (DaemonCore err))
        | Inr db \<Rightarrow> map_option (\<lambda>r. and_then r (\<lambda>x. Inr (wrap x)))
            (serve S st ws refused (cfg_local_node sync) sync tls db)) = Some r
    \<and> (\<forall>x. r = Inr (wrap x) \<longrightarrow> started S st inv view s x)
    \<and> (\<forall>d. r = Inr d \<longrightarrow> (\<exists>x. d = wrap x))
    \<and> (no_fault w \<longrightarrow> v_head (view s) = Map.empty \<longrightarrow> no_fault (ws 0) \<longrightarrow> fits (ws 0) ListHeads (view s)
        \<longrightarrow> Option.bind tls refused = None \<longrightarrow> (\<exists>d. r = Inr d))"
proof (cases opened)
  case (Inl err)
  with opened show ?thesis by auto
next
  case (Inr db)
  with opened have db: "db = s" by auto
  from serve_returns [OF assms(1-3), of S ws refused] obtain r where r:
    "serve S st ws refused (cfg_local_node sync) sync tls s = Some r" "\<And>x. r = Inr x \<Longrightarrow> started S st inv view s x" by blast
  have "\<exists>d. r = Inr d" if "v_head (view s) = Map.empty" "no_fault (ws 0)" "fits (ws 0) ListHeads (view s)" "Option.bind tls refused = None"
    using serve_fresh [of s ws tls refused S "cfg_local_node sync" sync] assms(1) that r(1) by simp
  with Inr db r show ?thesis by (cases r) (auto dest: wrap)
qed

end

section \<open>Transport security\<close>

fun daemon_tls :: "('b, 'u) daemon \<Rightarrow> server_tls option" where
  "daemon_tls (OnRedb x) = run_tls x"
| "daemon_tls (OnSqlite x) = run_tls x"

lemma serve_tls: "serve S st ws refused node sync tls s = Some (Inr x) \<Longrightarrow> run_tls x = tls \<and> Option.bind tls refused = None"
  by (auto simp: serve_def Let_def split: option.splits prod.splits sum.splits)

lemma serve_node: "serve S st ws refused node sync tls s = Some (Inr x) \<Longrightarrow> svc_node (run_service x) = node"
  by (auto simp: serve_def Let_def service_new_def split: option.splits prod.splits sum.splits)

lemma daemon_main_node:
  assumes "daemon_main e a = Some (Inr (OnRedb x))" "daemon_config (denv_read e) a = Inr (sync, tls)"
  shows "svc_node (run_service x) = cfg_local_node sync"
  using assms by (auto simp: daemon_main_def and_then_eq_Inr dest!: serve_node split: storage_kind.splits sum.splits)

lemma server_tls_config_Inr:
  "server_tls_config read a = Inr tls \<longleftrightarrow>
     (case (arg_tls_cert a, arg_tls_key a, arg_tls_client_ca a) of
        (None, None, None) \<Rightarrow> tls = None
      | (Some cert, Some key, None) \<Rightarrow>
          (\<exists>c k. read cert = Inr c \<and> read key = Inr k \<and> tls = Some \<lparr>srv_tls_identity = (c, k), srv_tls_client_ca = None\<rparr>)
      | (Some cert, Some key, Some ca) \<Rightarrow>
          (\<exists>c k r. read cert = Inr c \<and> read key = Inr k \<and> read ca = Inr r
             \<and> tls = Some \<lparr>srv_tls_identity = (c, k), srv_tls_client_ca = Some r\<rparr>)
      | _ \<Rightarrow> False)"
  by (auto simp: server_tls_config_def and_then_eq_Inr split: option.splits)

lemma daemon_main_tls:
  assumes "daemon_main e a = Some (Inr d)"
  shows "server_tls_config (denv_read e) a = Inr (daemon_tls d) \<and> Option.bind (daemon_tls d) (denv_refused e) = None
    \<and> (arg_peer_tls_cert a = None \<longleftrightarrow> arg_peer_tls_key a = None)"
proof -
  obtain sync tls where config: "daemon_config (denv_read e) a = Inr (sync, tls)"
    using assms by (auto simp: daemon_main_def split: sum.splits)
  then have "server_tls_config (denv_read e) a = Inr tls" "arg_peer_tls_cert a = None \<longleftrightarrow> arg_peer_tls_key a = None"
    by (auto simp: daemon_config_def and_then_eq_Inr peer_tls_config_def split: option.splits)
  moreover have "daemon_tls d = tls \<and> Option.bind tls (denv_refused e) = None"
    using assms config
    by (auto simp: daemon_main_def and_then_eq_Inr dest!: serve_tls split: storage_kind.splits sum.splits)
  ultimately show ?thesis by simp
qed

end
