(* ===== verification/Sdk.thy ===== *)
theory Sdk
  imports Rpc_Client
begin

text \<open>
  The Rust SDK, \<open>crates/msgbus-sdk-rust/src/lib.rs\<close>: one definition per helper over the generated
  client stub, and the reconnecting subscription. A round of the loop of \<open>next_message\<close> is
  \<open>next_attempt\<close>; the loop itself may wait forever for a message and is a partial function. Sleeping
  between attempts has no effect on the state and is left out.
\<close>

section \<open>Errors and helpers\<close>

datatype sdk_error = Transport string | SdkStatus status | Protocol string

definition required :: "'a option \<Rightarrow> string \<Rightarrow> sdk_error + 'a" where
  "required value message = ok_or (Protocol message) value"

fun retryable_status :: "code \<Rightarrow> bool" where
  "retryable_status Unavailable \<longleftrightarrow> True"
| "retryable_status DeadlineExceeded \<longleftrightarrow> True"
| "retryable_status Aborted \<longleftrightarrow> True"
| "retryable_status Cancelled \<longleftrightarrow> True"
| "retryable_status _ \<longleftrightarrow> False"

section \<open>The client\<close>

record 'c msgbus_client =
  mc_client :: 'c
  mc_default_origin :: "pb_node option"

definition sdk_connect :: "(string \<Rightarrow> string + 'c) \<Rightarrow> string \<Rightarrow> sdk_error + 'c msgbus_client" where
  "sdk_connect dial endpoint =
     and_then (map_err Transport (dial endpoint)) (\<lambda>client.
     Inr \<lparr>mc_client = client, mc_default_origin = None\<rparr>)"

definition with_default_origin :: "pb_node \<Rightarrow> 'c msgbus_client \<Rightarrow> 'c msgbus_client" where
  "with_default_origin origin cl = cl\<lparr>mc_default_origin := Some origin\<rparr>"

definition call :: "('c \<Rightarrow> 'c \<times> 'a rpc) \<Rightarrow> 'c msgbus_client \<Rightarrow> 'c msgbus_client \<times> (sdk_error + 'a)" where
  "call f cl = (let (c, r) = f (mc_client cl) in (cl\<lparr>mc_client := c\<rparr>, map_err SdkStatus r))"

definition or_default :: "pb_node option \<Rightarrow> 'c msgbus_client \<Rightarrow> pb_node option" where
  "or_default origin cl = (case origin of Some n \<Rightarrow> Some n | None \<Rightarrow> mc_default_origin cl)"

definition sdk_health ::
  "('c, 'h) rpc_client \<Rightarrow> 'c msgbus_client \<Rightarrow> 'c msgbus_client \<times> (sdk_error + string)" where
  "sdk_health rc cl = bind_on (call (rc_health rc) cl) (\<lambda>cl response. (cl, Inr (hr_status response)))"

definition sdk_ready ::
  "('c, 'h) rpc_client \<Rightarrow> 'c msgbus_client \<Rightarrow> 'c msgbus_client \<times> (sdk_error + ready_response)" where
  "sdk_ready rc cl = call (rc_ready rc) cl"

definition publish_with_headers ::
  "('c, 'h) rpc_client \<Rightarrow> string \<Rightarrow> bytes \<Rightarrow> headers \<Rightarrow> 'c msgbus_client
     \<Rightarrow> 'c msgbus_client \<times> (sdk_error + message_envelope)" where
  "publish_with_headers rc topic payload headers cl =
     bind_on (call (rc_publish rc \<lparr>pr_topic = topic, pr_origin = mc_default_origin cl, pr_payload = payload,
         pr_headers = headers\<rparr>) cl) (\<lambda>cl response.
     try_on cl (required response ''server returned empty publish response'') (\<lambda>message. (cl, Inr message)))"

definition sdk_publish ::
  "('c, 'h) rpc_client \<Rightarrow> string \<Rightarrow> bytes \<Rightarrow> 'c msgbus_client
     \<Rightarrow> 'c msgbus_client \<times> (sdk_error + message_envelope)" where
  "sdk_publish rc topic payload cl = publish_with_headers rc topic payload fmempty cl"

text \<open>Reading the response stream to its end: items without a message are skipped.\<close>

definition sdk_fetch ::
  "('c, 'h) rpc_client \<Rightarrow> string \<Rightarrow> pb_node option \<Rightarrow> u64 \<Rightarrow> u32 \<Rightarrow> 'c msgbus_client
     \<Rightarrow> 'c msgbus_client \<times> (sdk_error + message_envelope list)" where
  "sdk_fetch rc topic origin from_head_id limit cl =
     bind_on (call (rc_fetch rc \<lparr>fr_topic = topic, fr_origin = or_default origin cl,
         fr_from_head_id = from_head_id, fr_limit = limit\<rparr>) cl) (\<lambda>cl (responses, failure).
     case failure of
       Some s \<Rightarrow> (cl, Inl (SdkStatus s))
     | None \<Rightarrow> (cl, Inr (List.map_filter (\<lambda>response. response) responses)))"

record subscribe_options =
  so_origin :: "pb_node option"
  so_from_head_id :: u64
  so_replay_limit :: u32
  so_reconnect_delay_ms :: u64

definition default_options :: subscribe_options where
  "default_options = \<lparr>so_origin = None, so_from_head_id = 1, so_replay_limit = 100, so_reconnect_delay_ms = 250\<rparr>"

definition subscribe_with_options ::
  "('c, 'h) rpc_client \<Rightarrow> string \<Rightarrow> subscribe_options \<Rightarrow> 'c msgbus_client
     \<Rightarrow> 'c msgbus_client \<times> (sdk_error + 'h)" where
  "subscribe_with_options rc topic options cl =
     call (rc_subscribe rc \<lparr>sr_topic = topic, sr_origin = or_default (so_origin options) cl,
       sr_from_head_id = so_from_head_id options, sr_replay_limit = so_replay_limit options\<rparr>) cl"

definition sdk_subscribe ::
  "('c, 'h) rpc_client \<Rightarrow> string \<Rightarrow> pb_node option \<Rightarrow> u64 \<Rightarrow> 'c msgbus_client
     \<Rightarrow> 'c msgbus_client \<times> (sdk_error + 'h)" where
  "sdk_subscribe rc topic origin from_head_id cl =
     subscribe_with_options rc topic (default_options\<lparr>so_origin := origin, so_from_head_id := from_head_id\<rparr>) cl"

definition sdk_get_head ::
  "('c, 'h) rpc_client \<Rightarrow> string \<Rightarrow> pb_node option \<Rightarrow> 'c msgbus_client
     \<Rightarrow> 'c msgbus_client \<times> (sdk_error + get_head_response)" where
  "sdk_get_head rc topic origin cl =
     call (rc_get_head rc \<lparr>gr_topic = topic, gr_origin = or_default origin cl\<rparr>) cl"

definition sdk_list_heads ::
  "('c, 'h) rpc_client \<Rightarrow> 'c msgbus_client \<Rightarrow> 'c msgbus_client \<times> (sdk_error + pb_topic_head list)" where
  "sdk_list_heads rc cl = call (rc_list_heads rc) cl"

definition sdk_list_peer_sync_states ::
  "('c, 'h) rpc_client \<Rightarrow> 'c msgbus_client \<Rightarrow> 'c msgbus_client \<times> (sdk_error + pb_peer_sync_state list)" where
  "sdk_list_peer_sync_states rc cl = call (rc_list_peer_sync_states rc) cl"

definition sdk_delete_range ::
  "('c, 'h) rpc_client \<Rightarrow> string \<Rightarrow> pb_node option \<Rightarrow> u64 \<Rightarrow> u64 \<Rightarrow> 'c msgbus_client
     \<Rightarrow> 'c msgbus_client \<times> (sdk_error + u64)" where
  "sdk_delete_range rc topic origin from_head_id to_head_id cl =
     call (rc_delete_range rc \<lparr>dr_topic = topic, dr_origin = or_default origin cl,
       dr_from_head_id = from_head_id, dr_to_head_id = to_head_id\<rparr>) cl"

definition enqueue_fifo_with_headers ::
  "('c, 'h) rpc_client \<Rightarrow> string \<Rightarrow> string \<Rightarrow> pb_node \<Rightarrow> bytes \<Rightarrow> headers \<Rightarrow> 'c msgbus_client
     \<Rightarrow> 'c msgbus_client \<times> (sdk_error + fifo_message)" where
  "enqueue_fifo_with_headers rc queue topic target payload headers cl =
     bind_on (call (rc_enqueue_fifo rc \<lparr>er_queue = queue, er_topic = topic, er_source = mc_default_origin cl,
         er_target = Some target, er_payload = payload, er_headers = headers\<rparr>) cl) (\<lambda>cl response.
     try_on cl (required response ''server returned empty fifo response'') (\<lambda>message. (cl, Inr message)))"

definition sdk_enqueue_fifo ::
  "('c, 'h) rpc_client \<Rightarrow> string \<Rightarrow> string \<Rightarrow> pb_node \<Rightarrow> bytes \<Rightarrow> 'c msgbus_client
     \<Rightarrow> 'c msgbus_client \<times> (sdk_error + fifo_message)" where
  "sdk_enqueue_fifo rc queue topic target payload cl =
     enqueue_fifo_with_headers rc queue topic target payload fmempty cl"

definition sdk_peek_fifo ::
  "('c, 'h) rpc_client \<Rightarrow> string \<Rightarrow> 'c msgbus_client \<Rightarrow> 'c msgbus_client \<times> (sdk_error + fifo_message)" where
  "sdk_peek_fifo rc queue cl =
     bind_on (call (rc_peek_fifo rc queue) cl) (\<lambda>cl response.
     try_on cl (required response ''server returned empty fifo response'') (\<lambda>message. (cl, Inr message)))"

definition sdk_ack_fifo ::
  "('c, 'h) rpc_client \<Rightarrow> string \<Rightarrow> string \<Rightarrow> 'c msgbus_client \<Rightarrow> 'c msgbus_client \<times> (sdk_error + bool)" where
  "sdk_ack_fifo rc queue message_id cl =
     call (rc_ack_fifo rc \<lparr>ar_queue = queue, ar_message_id = message_id\<rparr>) cl"

definition sdk_reject_fifo ::
  "('c, 'h) rpc_client \<Rightarrow> string \<Rightarrow> string \<Rightarrow> 'c msgbus_client \<Rightarrow> 'c msgbus_client \<times> (sdk_error + bool)" where
  "sdk_reject_fifo rc queue message_id cl =
     call (rc_reject_fifo rc \<lparr>rr_queue = queue, rr_message_id = message_id\<rparr>) cl"

section \<open>Reconnecting subscriptions\<close>

record ('c, 'h) resilient_subscription =
  rsub_client :: 'c
  rsub_topic :: string
  rsub_origin :: "pb_node option"
  rsub_next_head_id :: u64
  rsub_replay_limit :: u32
  rsub_reconnect_delay_ms :: u64
  rsub_stream :: "'h option"

definition subscribe_reconnecting_with_options ::
  "string \<Rightarrow> subscribe_options \<Rightarrow> 'c msgbus_client \<Rightarrow> ('c, 'h) resilient_subscription" where
  "subscribe_reconnecting_with_options topic options cl =
     \<lparr>rsub_client = mc_client cl, rsub_topic = topic, rsub_origin = or_default (so_origin options) cl,
      rsub_next_head_id = max (so_from_head_id options) 1, rsub_replay_limit = so_replay_limit options,
      rsub_reconnect_delay_ms = so_reconnect_delay_ms options, rsub_stream = None\<rparr>"

definition subscribe_reconnecting ::
  "string \<Rightarrow> pb_node option \<Rightarrow> u64 \<Rightarrow> 'c msgbus_client \<Rightarrow> ('c, 'h) resilient_subscription" where
  "subscribe_reconnecting topic origin from_head_id cl =
     subscribe_reconnecting_with_options topic
       (default_options\<lparr>so_origin := origin, so_from_head_id := from_head_id\<rparr>) cl"

definition open_stream ::
  "('c, 'h) rpc_client \<Rightarrow> ('c, 'h) resilient_subscription
     \<Rightarrow> ('c, 'h) resilient_subscription \<times> (sdk_error + unit)" where
  "open_stream rc rs =
     (let (c, r) = rc_subscribe rc \<lparr>sr_topic = rsub_topic rs, sr_origin = rsub_origin rs,
            sr_from_head_id = rsub_next_head_id rs, sr_replay_limit = rsub_replay_limit rs\<rparr> (rsub_client rs);
          rs = rs\<lparr>rsub_client := c\<rparr>
      in case r of
           Inl s \<Rightarrow> (rs, Inl (SdkStatus s))
         | Inr h \<Rightarrow> (rs\<lparr>rsub_stream := Some h\<rparr>, Inr ()))"

datatype ('c, 'h) attempt =
    Retry "('c, 'h) resilient_subscription"
  | Return "('c, 'h) resilient_subscription" "sdk_error + message_envelope"

text \<open>Polling the open stream.\<close>

definition poll_stream ::
  "('c, 'h) rpc_client \<Rightarrow> ('c, 'h) resilient_subscription \<Rightarrow> ('c, 'h) attempt" where
  "poll_stream rc rs =
     (case rsub_stream rs of
        None \<Rightarrow> Return rs (Inl (Protocol ''subscription stream was not opened''))
      | Some stream \<Rightarrow>
          (let ((c, stream), r) = rc_message rc stream (rsub_client rs);
               rs = rs\<lparr>rsub_client := c, rsub_stream := Some stream\<rparr>
           in case r of
                Inr (Some response) \<Rightarrow>
                  (case required response ''server returned empty subscribe response'' of
                     Inl e \<Rightarrow> Return rs (Inl e)
                   | Inr message \<Rightarrow>
                       Return (rs\<lparr>rsub_next_head_id := saturating_add (me_head_id message) 1\<rparr>) (Inr message))
              | Inr None \<Rightarrow> Retry (rs\<lparr>rsub_stream := None\<rparr>)
              | Inl s \<Rightarrow>
                  (if retryable_status (status_code s) then Retry (rs\<lparr>rsub_stream := None\<rparr>)
                   else Return rs (Inl (SdkStatus s)))))"

definition next_attempt ::
  "('c, 'h) rpc_client \<Rightarrow> ('c, 'h) resilient_subscription \<Rightarrow> ('c, 'h) attempt" where
  "next_attempt rc rs =
     (if rsub_stream rs = None then
        (case open_stream rc rs of
           (rs, Inr _) \<Rightarrow> poll_stream rc rs
         | (rs, Inl (SdkStatus s)) \<Rightarrow>
             (if retryable_status (status_code s) then Retry rs else Return rs (Inl (SdkStatus s)))
         | (rs, Inl e) \<Rightarrow> Return rs (Inl e))
      else poll_stream rc rs)"

partial_function (option) next_message ::
  "('c, 'h) rpc_client \<Rightarrow> ('c, 'h) resilient_subscription
     \<Rightarrow> (('c, 'h) resilient_subscription \<times> (sdk_error + message_envelope)) option" where
  "next_message rc rs =
     (case next_attempt rc rs of
        Retry rs \<Rightarrow> next_message rc rs
      | Return rs r \<Rightarrow> Some (rs, r))"

declare next_message.simps [code]

section \<open>The resume point\<close>

text \<open>A finite number of retries followed by an attempt that returns.\<close>

inductive attempts ::
  "('c, 'h) rpc_client \<Rightarrow> ('c, 'h) resilient_subscription \<Rightarrow> ('c, 'h) resilient_subscription \<Rightarrow>
    sdk_error + message_envelope \<Rightarrow> bool" for rc where
  returned: "next_attempt rc rs = Return rs' r \<Longrightarrow> attempts rc rs rs' r"
| retried: "next_attempt rc rs = Retry rs1 \<Longrightarrow> attempts rc rs1 rs' r \<Longrightarrow> attempts rc rs rs' r"

lemma next_message_attempts: "attempts rc rs rs' r \<Longrightarrow> next_message rc rs = Some (rs', r)"
  by (induction rule: attempts.induct) (simp_all add: next_message.simps)

lemma next_message_Some: "next_message rc rs = Some x \<Longrightarrow> attempts rc rs (fst x) (snd x)"
proof (erule next_message.raw_induct [where P = "\<lambda>rc rs x. attempts rc rs (fst x) (snd x)", rotated])
  fix loop and rc :: "('c, 'h) rpc_client" and rs and x :: "('c, 'h) resilient_subscription \<times> (sdk_error + message_envelope)"
  assume "\<And>rc rs x. loop rc rs = Some x \<Longrightarrow> attempts rc rs (fst x) (snd x)"
    "(case next_attempt rc rs of Retry rs \<Rightarrow> loop rc rs | Return rs r \<Rightarrow> Some (rs, r)) = Some x"
  then show "attempts rc rs (fst x) (snd x)"
    by (cases "next_attempt rc rs") (auto intro: attempts.intros)
qed

text \<open>What an attempt keeps, and where it moves the resume point.\<close>

definition same_subscription :: "('c, 'h) resilient_subscription \<Rightarrow> ('c, 'h) resilient_subscription \<Rightarrow> bool" where
  "same_subscription rs rs' \<longleftrightarrow> rsub_topic rs' = rsub_topic rs \<and> rsub_origin rs' = rsub_origin rs
     \<and> rsub_replay_limit rs' = rsub_replay_limit rs"

lemma open_stream_same:
  assumes "open_stream rc rs = (rs', r)"
  shows "same_subscription rs rs'" "rsub_next_head_id rs' = rsub_next_head_id rs"
  using assms by (auto simp: open_stream_def same_subscription_def Let_def split: prod.splits sum.splits)

lemma poll_stream_same:
  "case poll_stream rc rs of
     Retry rs' \<Rightarrow> same_subscription rs rs' \<and> rsub_next_head_id rs' = rsub_next_head_id rs \<and> rsub_stream rs' = None
   | Return rs' r \<Rightarrow> same_subscription rs rs' \<and> rsub_next_head_id rs' =
       (case r of Inl _ \<Rightarrow> rsub_next_head_id rs | Inr m \<Rightarrow> saturating_add (me_head_id m) 1)"
  by (auto simp: poll_stream_def same_subscription_def Let_def required_def ok_or_def
      split: option.split prod.split sum.split)

lemma next_attempt_same:
  "case next_attempt rc rs of
     Retry rs' \<Rightarrow> same_subscription rs rs' \<and> rsub_next_head_id rs' = rsub_next_head_id rs \<and> rsub_stream rs' = None
   | Return rs' r \<Rightarrow> same_subscription rs rs' \<and> rsub_next_head_id rs' =
       (case r of Inl _ \<Rightarrow> rsub_next_head_id rs | Inr m \<Rightarrow> saturating_add (me_head_id m) 1)"
proof (cases "rsub_stream rs")
  case None
  obtain rs1 x where o: "open_stream rc rs = (rs1, x)" by force
  note same = open_stream_same [OF o]
  show ?thesis
  proof (cases x)
    case (Inl e)
    have "rsub_stream rs1 = None"
      using o None Inl by (auto simp: open_stream_def Let_def split: prod.splits sum.splits)
    with o None Inl same show ?thesis by (cases e) (auto simp: next_attempt_def)
  next
    case (Inr u)
    with o None have "next_attempt rc rs = poll_stream rc rs1" by (simp add: next_attempt_def)
    with poll_stream_same [where rc = rc and rs = rs1] same show ?thesis
      by (auto simp: same_subscription_def split: attempt.splits sum.splits)
  qed
next
  case (Some h)
  with poll_stream_same [where rc = rc and rs = rs] show ?thesis by (simp add: next_attempt_def)
qed

lemma attempts_same:
  "attempts rc rs rs' r \<Longrightarrow> same_subscription rs rs' \<and> rsub_next_head_id rs' =
     (case r of Inl _ \<Rightarrow> rsub_next_head_id rs | Inr m \<Rightarrow> saturating_add (me_head_id m) 1)"
proof (induction rule: attempts.induct)
  case (returned rs rs' r)
  with next_attempt_same [where rc = rc and rs = rs] show ?case by simp
next
  case (retried rs rs1 rs' r)
  with next_attempt_same [where rc = rc and rs = rs] show ?case by (auto simp: same_subscription_def split: sum.splits)
qed

section \<open>Streams without gaps\<close>

text \<open>
  What a reconnecting subscription relies on: \<open>pos h\<close> is the head that the stream \<open>h\<close> delivers next; a
  new stream starts at the requested head and each message moves it on by one. The stream may fail or
  end at any point.
\<close>

definition stream_contract :: "('c, 'h) rpc_client \<Rightarrow> ('h \<Rightarrow> u64) \<Rightarrow> bool" where
  "stream_contract rc pos \<longleftrightarrow>
     (\<forall>r c c' h. rc_subscribe rc r c = (c', Inr h) \<longrightarrow> pos h = max (sr_from_head_id r) 1)
     \<and> (\<forall>h c c' h' e. rc_message rc h c = ((c', h'), Inr (Some (Some e)))
          \<longrightarrow> me_head_id e = pos h \<and> pos h' = saturating_add (pos h) 1)"

definition in_step :: "('h \<Rightarrow> u64) \<Rightarrow> ('c, 'h) resilient_subscription \<Rightarrow> bool" where
  "in_step pos rs \<longleftrightarrow> rsub_next_head_id rs \<noteq> 0 \<and> (\<forall>h. rsub_stream rs = Some h \<longrightarrow> pos h = rsub_next_head_id rs)"

lemma poll_stream_step:
  assumes "stream_contract rc pos" "in_step pos rs" "poll_stream rc rs = Return rs' (Inr e)"
  shows "me_head_id e = rsub_next_head_id rs \<and> in_step pos rs'"
proof -
  obtain h where h: "rsub_stream rs = Some h" using assms(3) by (auto simp: poll_stream_def split: option.splits)
  obtain c h' r where m: "rc_message rc h (rsub_client rs) = ((c, h'), r)" by (metis surj_pair)
  have "r = Inr (Some (Some e))" and rs': "rs' = rs\<lparr>rsub_client := c, rsub_stream := Some h', rsub_next_head_id := saturating_add (me_head_id e) 1\<rparr>"
    using assms(3) h m by (auto simp: poll_stream_def Let_def required_def ok_or_def split: sum.splits option.splits if_splits)
  with assms(1) m have "me_head_id e = pos h" "pos h' = saturating_add (pos h) 1" unfolding stream_contract_def by blast+
  with assms(2) h rs' show ?thesis by (simp add: in_step_def)
qed

lemma open_stream_step:
  assumes "stream_contract rc pos" "in_step pos rs" "open_stream rc rs = (rs', Inr u)"
  shows "in_step pos rs' \<and> rsub_next_head_id rs' = rsub_next_head_id rs"
proof -
  obtain c h where sub: "rc_subscribe rc \<lparr>sr_topic = rsub_topic rs, sr_origin = rsub_origin rs,
      sr_from_head_id = rsub_next_head_id rs, sr_replay_limit = rsub_replay_limit rs\<rparr> (rsub_client rs) = (c, Inr h)"
    and rs': "rs' = rs\<lparr>rsub_client := c, rsub_stream := Some h\<rparr>"
    using assms(3) by (auto simp: open_stream_def Let_def split: prod.splits sum.splits)
  from sub assms(1) have "pos h = max (rsub_next_head_id rs) 1" unfolding stream_contract_def by fastforce
  also have "\<dots> = rsub_next_head_id rs"
    using assms(2) unfolding in_step_def max_def by unat_arith
  finally have "pos h = rsub_next_head_id rs" .
  with assms(2) show ?thesis unfolding rs' in_step_def by simp
qed

lemma attempts_step:
  assumes "stream_contract rc pos"
  shows "attempts rc rs rs' r \<Longrightarrow> in_step pos rs \<Longrightarrow> r = Inr e \<Longrightarrow> me_head_id e = rsub_next_head_id rs \<and> in_step pos rs'"
proof (induction rule: attempts.induct)
  case (returned rs rs' r)
  show ?case
  proof (cases "rsub_stream rs")
    case None
    obtain rs1 x where o: "open_stream rc rs = (rs1, x)" by (metis surj_pair)
    with None returned obtain u where x: "x = Inr u" by (cases x) (auto simp: next_attempt_def split: sdk_error.splits if_splits)
    with o None returned have "poll_stream rc rs1 = Return rs' (Inr e)" by (simp add: next_attempt_def)
    with open_stream_step [OF assms returned.prems(1)] o x poll_stream_step [OF assms] show ?thesis by metis
  next
    case (Some h)
    with returned have "poll_stream rc rs = Return rs' (Inr e)" by (simp add: next_attempt_def)
    from poll_stream_step [OF assms returned.prems(1) this] show ?thesis .
  qed
next
  case (retried rs rs1 rs' r)
  from next_attempt_same [where rc = rc and rs = rs] retried.hyps(1)
  have next_head: "rsub_next_head_id rs1 = rsub_next_head_id rs" "rsub_stream rs1 = None" by simp_all
  then have "in_step pos rs1" using retried.prems(1) by (simp add: in_step_def)
  from retried.IH [OF this retried.prems(2)] show ?case unfolding next_head(1) .
qed

text \<open>Asking for \<open>n\<close> messages in a row; \<open>None\<close> when a request does not return or returns an error.\<close>

fun next_messages ::
  "('c, 'h) rpc_client \<Rightarrow> nat \<Rightarrow> ('c, 'h) resilient_subscription \<Rightarrow> message_envelope list option" where
  "next_messages rc 0 rs = Some []"
| "next_messages rc (Suc n) rs =
     (case next_message rc rs of
        Some (rs, Inr message) \<Rightarrow> map_option ((#) message) (next_messages rc n rs)
      | _ \<Rightarrow> None)"

lemma next_messages_heads:
  assumes "stream_contract rc pos"
  shows "next_messages rc n rs = Some ms \<Longrightarrow> in_step pos rs \<Longrightarrow> unat (rsub_next_head_id rs) + n < 2 ^ 64 \<Longrightarrow>
    map (\<lambda>m. unat (me_head_id m)) ms = [unat (rsub_next_head_id rs)..<unat (rsub_next_head_id rs) + n]"
proof (induction n arbitrary: rs ms)
  case (Suc n)
  then obtain rs' m ms' where m: "next_message rc rs = Some (rs', Inr m)" "next_messages rc n rs' = Some ms'" "ms = m # ms'"
    by (auto split: option.splits sum.splits)
  have attempts: "attempts rc rs rs' (Inr m)" using next_message_Some [OF m(1)] by simp
  from attempts_step [OF assms attempts Suc.prems(2)] have head: "me_head_id m = rsub_next_head_id rs" "in_step pos rs'" by auto
  have "rsub_next_head_id rs \<noteq> - 1"
    using Suc.prems(3) by (auto simp: unsigned_minus_1_eq_mask mask_eq_exp_minus_1)
  with attempts_same [OF attempts] head(1) have next_head: "unat (rsub_next_head_id rs') = Suc (unat (rsub_next_head_id rs))"
    by (simp add: unat_saturating_add_1)
  with Suc.IH [OF m(2) head(2)] Suc.prems(3) m(3) head(1) show ?case
    by (simp add: upt_conv_Cons del: upt_Suc)
qed simp

text \<open>
  A connection that recovers: every attempt returns a message, or is retried and brings the subscription
  closer, by some measure, to one that does.
\<close>

definition recovers :: "('c, 'h) rpc_client \<Rightarrow> (('c, 'h) resilient_subscription \<Rightarrow> nat) \<Rightarrow> bool" where
  "recovers rc distance \<longleftrightarrow> (\<forall>rs.
     case next_attempt rc rs of
       Retry rs' \<Rightarrow> distance rs' < distance rs
     | Return rs' r \<Rightarrow> (\<exists>message. r = Inr message))"

lemma recovers_attempts:
  assumes "recovers rc distance"
  shows "\<exists>rs' m. attempts rc rs rs' (Inr m)"
proof (induction "distance rs" arbitrary: rs rule: less_induct)
  case less
  show ?case
  proof (cases "next_attempt rc rs")
    case (Retry rs1)
    with spec [OF assms [unfolded recovers_def], of rs] have "distance rs1 < distance rs" by simp
    with less Retry show ?thesis by (blast intro: attempts.retried)
  next
    case (Return rs' r)
    with spec [OF assms [unfolded recovers_def], of rs] obtain m where "r = Inr m" by auto
    with Return show ?thesis by (blast intro: attempts.returned)
  qed
qed

lemma recovers_next_messages:
  assumes "recovers rc distance"
  shows "\<exists>ms. next_messages rc n rs = Some ms"
proof (induction n arbitrary: rs)
  case (Suc n)
  from recovers_attempts [OF assms, of rs] obtain rs' m where "next_message rc rs = Some (rs', Inr m)"
    using next_message_attempts by blast
  with Suc [of rs'] show ?case by auto
qed simp

end
