(* ===== verification/Go_Sdk.thy ===== *)
theory Go_Sdk
  imports Sdk
begin

text \<open>
  The Go SDK, \<open>go-sdk/msgbus/client.go\<close>: one definition per function over the same client stub as the
  Rust SDK. \<open>'c\<close> is the state of the connection and of everything behind it. A context is what its
  \<open>Err()\<close> returns in such a state, and its \<open>Done()\<close> channel is closed when that is an error; how a
  context affects an RPC shows in the answers of the stub. A nil pointer is \<open>None\<close>, and a pair of a
  result and an error is a sum. The loops of \<open>waitReady\<close> and \<open>Recv\<close> may run forever and are partial
  functions. The last section shows that the iterator and the Rust SDK's reconnecting subscription
  deliver the same messages.
\<close>

section \<open>Errors and contexts\<close>

datatype go_error = GoStatus status | GoText string

type_synonym 'c go_context = "'c \<Rightarrow> string option"

definition background :: "'c go_context" where
  "background = (\<lambda>_. None)"

text \<open>\<open>status.Code\<close> of an error that is no status is \<open>Unknown\<close>.\<close>

fun error_code :: "go_error \<Rightarrow> code" where
  "error_code (GoStatus s) = status_code s"
| "error_code (GoText _) = Unknown"

definition is_retryable :: "go_error \<Rightarrow> bool" where
  "is_retryable err \<longleftrightarrow> (let code = error_code err in
     code = Unavailable \<or> code = DeadlineExceeded \<or> code = Aborted \<or> code = Cancelled)"

section \<open>The client\<close>

record 'c go_client =
  gc_conn :: 'c
  gc_default_origin :: "pb_node option"

text \<open>
  What the SDK uses of the gRPC library and of timers: creating a channel with options \<open>'o\<close>, starting
  to connect, the state of the channel, waiting until it differs from a given one (false when the
  context ends first), closing it, and a \<open>select\<close> between a timer and the end of the context (true
  when the timer's case is taken).
\<close>

datatype conn_state = ConnIdle | Connecting | ConnReady | TransientFailure | ConnShutdown

record ('o, 'c) go_grpc =
  grpc_insecure :: 'o
  grpc_new_client :: "string \<Rightarrow> 'o list \<Rightarrow> string + 'c"
  grpc_connect :: "'c \<Rightarrow> 'c"
  grpc_get_state :: "'c \<Rightarrow> conn_state"
  grpc_wait_for_state_change :: "'c go_context \<Rightarrow> conn_state \<Rightarrow> 'c \<Rightarrow> 'c \<times> bool"
  grpc_close :: "'c \<Rightarrow> 'c \<times> string option"
  go_select_timer :: "'c go_context \<Rightarrow> int \<Rightarrow> 'c \<Rightarrow> 'c \<times> bool"

definition go_dial_lazy :: "('o, 'c) go_grpc \<Rightarrow> string \<Rightarrow> 'o list \<Rightarrow> go_error + 'c go_client" where
  "go_dial_lazy G target opts =
     (let opts = (if opts = [] then [grpc_insecure G] else opts) in
      and_then (map_err GoText (grpc_new_client G target opts)) (\<lambda>conn.
      Inr \<lparr>gc_conn = grpc_connect G conn, gc_default_origin = None\<rparr>))"

partial_function (option) go_wait_ready ::
  "('o, 'c) go_grpc \<Rightarrow> 'c go_context \<Rightarrow> 'c \<Rightarrow> ('c \<times> (go_error + unit)) option" where
  "go_wait_ready G ctx c =
     (let state = grpc_get_state G c in
      if state = ConnReady then Some (c, Inr ())
      else (case grpc_wait_for_state_change G ctx state (grpc_connect G c) of
              (c, changed) \<Rightarrow>
                (if \<not> changed then
                   Some (c, Inl (GoText (case ctx c of Some err \<Rightarrow> err | None \<Rightarrow> ''msgbus: connection did not become ready'')))
                 else go_wait_ready G ctx c)))"

declare go_wait_ready.simps [code]

definition go_close :: "('o, 'c) go_grpc \<Rightarrow> 'c go_client option \<Rightarrow> 'c go_client option \<times> (go_error + unit)" where
  "go_close G client =
     (case client of
        None \<Rightarrow> (None, Inr ())
      | Some cl \<Rightarrow> (let (c, err) = grpc_close G (gc_conn cl) in
          (Some (cl\<lparr>gc_conn := c\<rparr>), case err of None \<Rightarrow> Inr () | Some err \<Rightarrow> Inl (GoText err))))"

text \<open>\<open>Dial\<close> also gives the connection it leaves behind, if any, when it fails.\<close>

definition go_dial ::
  "('o, 'c) go_grpc \<Rightarrow> 'c go_context option \<Rightarrow> string \<Rightarrow> 'o list
     \<Rightarrow> ('c go_client option \<times> (go_error + 'c go_client)) option" where
  "go_dial G ctx target opts =
     (case ctx of
        None \<Rightarrow> Some (None, Inl (GoText ''msgbus: nil context''))
      | Some ctx \<Rightarrow>
          (case go_dial_lazy G target opts of
             Inl err \<Rightarrow> Some (None, Inl err)
           | Inr client \<Rightarrow>
               (case go_wait_ready G ctx (gc_conn client) of
                  None \<Rightarrow> None
                | Some (c, Inl err) \<Rightarrow> Some (fst (go_close G (Some (client\<lparr>gc_conn := c\<rparr>))), Inl err)
                | Some (c, Inr _) \<Rightarrow> Some (None, Inr (client\<lparr>gc_conn := c\<rparr>)))))"

definition go_with_default_origin :: "pb_node option \<Rightarrow> 'c go_client \<Rightarrow> 'c go_client" where
  "go_with_default_origin origin cl = cl\<lparr>gc_default_origin := origin\<rparr>"

definition go_call :: "('c \<Rightarrow> 'c \<times> 'a rpc) \<Rightarrow> 'c go_client \<Rightarrow> 'c go_client \<times> (go_error + 'a)" where
  "go_call f cl = (let (c, r) = f (gc_conn cl) in (cl\<lparr>gc_conn := c\<rparr>, map_err GoStatus r))"

definition go_or_default :: "pb_node option \<Rightarrow> 'c go_client \<Rightarrow> pb_node option" where
  "go_or_default origin cl = (if origin = None then gc_default_origin cl else origin)"

definition go_health ::
  "('c, 'h) rpc_client \<Rightarrow> 'c go_client \<Rightarrow> 'c go_client \<times> (go_error + string)" where
  "go_health rc cl = bind_on (go_call (rc_health rc) cl) (\<lambda>cl resp. (cl, Inr (hr_status resp)))"

definition go_ready ::
  "('c, 'h) rpc_client \<Rightarrow> 'c go_client \<Rightarrow> 'c go_client \<times> (go_error + ready_response)" where
  "go_ready rc cl = go_call (rc_ready rc) cl"

definition go_publish_with_headers ::
  "('c, 'h) rpc_client \<Rightarrow> string \<Rightarrow> bytes \<Rightarrow> headers \<Rightarrow> 'c go_client
     \<Rightarrow> 'c go_client \<times> (go_error + message_envelope)" where
  "go_publish_with_headers rc topic payload headers cl =
     bind_on (go_call (rc_publish rc \<lparr>pr_topic = topic, pr_origin = gc_default_origin cl, pr_payload = payload,
         pr_headers = headers\<rparr>) cl) (\<lambda>cl resp.
     case resp of
       None \<Rightarrow> (cl, Inl (GoText ''msgbus: empty publish response''))
     | Some message \<Rightarrow> (cl, Inr message))"

definition go_publish ::
  "('c, 'h) rpc_client \<Rightarrow> string \<Rightarrow> bytes \<Rightarrow> 'c go_client \<Rightarrow> 'c go_client \<times> (go_error + message_envelope)" where
  "go_publish rc topic payload cl = go_publish_with_headers rc topic payload fmempty cl"

text \<open>The loop of \<open>Fetch\<close> over the items of the stream and the error it ended with, if any.\<close>

fun go_collect :: "fetch_response list \<Rightarrow> status option \<Rightarrow> message_envelope list \<Rightarrow> go_error + message_envelope list" where
  "go_collect [] None messages = Inr messages"
| "go_collect [] (Some s) messages = Inl (GoStatus s)"
| "go_collect (resp # resps) failure messages =
     go_collect resps failure (case resp of None \<Rightarrow> messages | Some message \<Rightarrow> messages @ [message])"

definition go_fetch ::
  "('c, 'h) rpc_client \<Rightarrow> string \<Rightarrow> pb_node option \<Rightarrow> u64 \<Rightarrow> u32 \<Rightarrow> 'c go_client
     \<Rightarrow> 'c go_client \<times> (go_error + message_envelope list)" where
  "go_fetch rc topic origin from_head_id limit cl =
     bind_on (go_call (rc_fetch rc \<lparr>fr_topic = topic, fr_origin = go_or_default origin cl,
         fr_from_head_id = from_head_id, fr_limit = limit\<rparr>) cl) (\<lambda>cl (resps, failure).
     (cl, go_collect resps failure []))"

definition go_get_head ::
  "('c, 'h) rpc_client \<Rightarrow> string \<Rightarrow> pb_node option \<Rightarrow> 'c go_client
     \<Rightarrow> 'c go_client \<times> (go_error + get_head_response)" where
  "go_get_head rc topic origin cl =
     go_call (rc_get_head rc \<lparr>gr_topic = topic, gr_origin = go_or_default origin cl\<rparr>) cl"

definition go_list_heads ::
  "('c, 'h) rpc_client \<Rightarrow> 'c go_client \<Rightarrow> 'c go_client \<times> (go_error + pb_topic_head list)" where
  "go_list_heads rc cl = go_call (rc_list_heads rc) cl"

definition go_list_peer_sync_states ::
  "('c, 'h) rpc_client \<Rightarrow> 'c go_client \<Rightarrow> 'c go_client \<times> (go_error + pb_peer_sync_state list)" where
  "go_list_peer_sync_states rc cl = go_call (rc_list_peer_sync_states rc) cl"

definition go_delete_range ::
  "('c, 'h) rpc_client \<Rightarrow> string \<Rightarrow> pb_node option \<Rightarrow> u64 \<Rightarrow> u64 \<Rightarrow> 'c go_client
     \<Rightarrow> 'c go_client \<times> (go_error + u64)" where
  "go_delete_range rc topic origin from_head_id to_head_id cl =
     go_call (rc_delete_range rc \<lparr>dr_topic = topic, dr_origin = go_or_default origin cl,
       dr_from_head_id = from_head_id, dr_to_head_id = to_head_id\<rparr>) cl"

definition go_fifo_message :: "'c go_client \<times> (go_error + fifo_response) \<Rightarrow> 'c go_client \<times> (go_error + fifo_message)" where
  "go_fifo_message reply =
     bind_on reply (\<lambda>cl resp.
     case resp of
       None \<Rightarrow> (cl, Inl (GoText ''msgbus: empty fifo response''))
     | Some message \<Rightarrow> (cl, Inr message))"

definition go_enqueue_fifo_with_headers ::
  "('c, 'h) rpc_client \<Rightarrow> string \<Rightarrow> string \<Rightarrow> pb_node option \<Rightarrow> bytes \<Rightarrow> headers \<Rightarrow> 'c go_client
     \<Rightarrow> 'c go_client \<times> (go_error + fifo_message)" where
  "go_enqueue_fifo_with_headers rc queue topic target payload headers cl =
     go_fifo_message (go_call (rc_enqueue_fifo rc \<lparr>er_queue = queue, er_topic = topic,
       er_source = gc_default_origin cl, er_target = target, er_payload = payload, er_headers = headers\<rparr>) cl)"

definition go_enqueue_fifo ::
  "('c, 'h) rpc_client \<Rightarrow> string \<Rightarrow> string \<Rightarrow> pb_node option \<Rightarrow> bytes \<Rightarrow> 'c go_client
     \<Rightarrow> 'c go_client \<times> (go_error + fifo_message)" where
  "go_enqueue_fifo rc queue topic target payload cl =
     go_enqueue_fifo_with_headers rc queue topic target payload fmempty cl"

definition go_peek_fifo ::
  "('c, 'h) rpc_client \<Rightarrow> string \<Rightarrow> 'c go_client \<Rightarrow> 'c go_client \<times> (go_error + fifo_message)" where
  "go_peek_fifo rc queue cl = go_fifo_message (go_call (rc_peek_fifo rc queue) cl)"

definition go_ack_fifo ::
  "('c, 'h) rpc_client \<Rightarrow> string \<Rightarrow> string \<Rightarrow> 'c go_client \<Rightarrow> 'c go_client \<times> (go_error + bool)" where
  "go_ack_fifo rc queue message_id cl = go_call (rc_ack_fifo rc \<lparr>ar_queue = queue, ar_message_id = message_id\<rparr>) cl"

definition go_reject_fifo ::
  "('c, 'h) rpc_client \<Rightarrow> string \<Rightarrow> string \<Rightarrow> 'c go_client \<Rightarrow> 'c go_client \<times> (go_error + bool)" where
  "go_reject_fifo rc queue message_id cl =
     go_call (rc_reject_fifo rc \<lparr>rr_queue = queue, rr_message_id = message_id\<rparr>) cl"

section \<open>Subscriptions\<close>

record go_subscribe_options =
  go_origin :: "pb_node option"
  go_from_head_id :: u64
  go_replay_limit :: u32
  go_reconnect_delay :: int

definition go_default_replay_limit :: u32 where
  "go_default_replay_limit = 100"

definition default_subscribe_options :: "'c go_client \<Rightarrow> go_subscribe_options \<Rightarrow> go_subscribe_options" where
  "default_subscribe_options cl opts =
     \<lparr>go_origin = (if go_origin opts = None then gc_default_origin cl else go_origin opts),
      go_from_head_id = (if go_from_head_id opts = 0 then 1 else go_from_head_id opts),
      go_replay_limit = (if go_replay_limit opts = 0 then go_default_replay_limit else go_replay_limit opts),
      go_reconnect_delay = (if go_reconnect_delay opts = 0 then 250 * 1000000 else go_reconnect_delay opts)\<rparr>"

definition go_subscribe_with_options ::
  "('c, 'h) rpc_client \<Rightarrow> string \<Rightarrow> go_subscribe_options \<Rightarrow> 'c go_client \<Rightarrow> 'c go_client \<times> (go_error + 'h)" where
  "go_subscribe_with_options rc topic opts cl =
     (let opts = default_subscribe_options cl opts in
      go_call (rc_subscribe rc \<lparr>sr_topic = topic, sr_origin = go_origin opts,
        sr_from_head_id = go_from_head_id opts, sr_replay_limit = go_replay_limit opts\<rparr>) cl)"

definition go_subscribe ::
  "('c, 'h) rpc_client \<Rightarrow> string \<Rightarrow> pb_node option \<Rightarrow> u64 \<Rightarrow> 'c go_client \<Rightarrow> 'c go_client \<times> (go_error + 'h)" where
  "go_subscribe rc topic origin from_head_id cl =
     go_subscribe_with_options rc topic
       \<lparr>go_origin = origin, go_from_head_id = from_head_id, go_replay_limit = 0, go_reconnect_delay = 0\<rparr> cl"

record ('c, 'h) go_iterator =
  it_ctx :: "'c go_context"
  it_client :: "'c go_client"
  it_topic :: string
  it_options :: go_subscribe_options
  it_stream :: "'h option"

definition subscribe_iterator ::
  "'c go_context option \<Rightarrow> string \<Rightarrow> go_subscribe_options \<Rightarrow> 'c go_client \<Rightarrow> ('c, 'h) go_iterator" where
  "subscribe_iterator ctx topic opts cl =
     \<lparr>it_ctx = (case ctx of None \<Rightarrow> background | Some ctx \<Rightarrow> ctx), it_client = cl, it_topic = topic,
      it_options = default_subscribe_options cl opts, it_stream = None\<rparr>"

definition wait_reconnect ::
  "('o, 'c) go_grpc \<Rightarrow> ('c, 'h) go_iterator \<Rightarrow> ('c, 'h) go_iterator \<times> go_error option" where
  "wait_reconnect G it =
     (let (c, fired) = go_select_timer G (it_ctx it) (go_reconnect_delay (it_options it)) (gc_conn (it_client it));
          it = it\<lparr>it_client := (it_client it)\<lparr>gc_conn := c\<rparr>\<rparr>
      in (it, if fired then None else map_option GoText (it_ctx it c)))"

datatype ('c, 'h) go_attempt =
    GoContinue "('c, 'h) go_iterator"
  | GoReturn "('c, 'h) go_iterator" "go_error + message_envelope"

text \<open>The two places that wait and try again, polling the open stream, and one round of the loop.\<close>

definition wait_and_continue :: "('o, 'c) go_grpc \<Rightarrow> ('c, 'h) go_iterator \<Rightarrow> ('c, 'h) go_attempt" where
  "wait_and_continue G it =
     (case wait_reconnect G it of
        (it, Some err) \<Rightarrow> GoReturn it (Inl err)
      | (it, None) \<Rightarrow> GoContinue it)"

definition recv_stream ::
  "('o, 'c) go_grpc \<Rightarrow> ('c, 'h) rpc_client \<Rightarrow> 'h \<Rightarrow> ('c, 'h) go_iterator \<Rightarrow> ('c, 'h) go_attempt" where
  "recv_stream G rc stream it =
     (let ((c, stream), r) = rc_message rc stream (gc_conn (it_client it));
          it = it\<lparr>it_client := (it_client it)\<lparr>gc_conn := c\<rparr>, it_stream := Some stream\<rparr>
      in case r of
           Inr (Some resp) \<Rightarrow>
             (case resp of
                None \<Rightarrow> GoReturn it (Inl (GoText ''msgbus: empty subscribe response''))
              | Some message \<Rightarrow>
                  GoReturn (it\<lparr>it_options := (it_options it)\<lparr>go_from_head_id := me_head_id message + 1\<rparr>\<rparr>) (Inr message))
         | Inr None \<Rightarrow> wait_and_continue G (it\<lparr>it_stream := None\<rparr>)
         | Inl s \<Rightarrow>
             (if is_retryable (GoStatus s) then wait_and_continue G (it\<lparr>it_stream := None\<rparr>)
              else GoReturn it (Inl (GoStatus s))))"

definition recv_attempt ::
  "('o, 'c) go_grpc \<Rightarrow> ('c, 'h) rpc_client \<Rightarrow> ('c, 'h) go_iterator \<Rightarrow> ('c, 'h) go_attempt" where
  "recv_attempt G rc it =
     (case it_stream it of
        Some stream \<Rightarrow> recv_stream G rc stream it
      | None \<Rightarrow>
          (case go_subscribe_with_options rc (it_topic it) (it_options it) (it_client it) of
             (cl, Inr stream) \<Rightarrow> recv_stream G rc stream (it\<lparr>it_client := cl, it_stream := Some stream\<rparr>)
           | (cl, Inl err) \<Rightarrow>
               (if is_retryable err then wait_and_continue G (it\<lparr>it_client := cl\<rparr>)
                else GoReturn (it\<lparr>it_client := cl\<rparr>) (Inl err))))"

partial_function (option) go_recv ::
  "('o, 'c) go_grpc \<Rightarrow> ('c, 'h) rpc_client \<Rightarrow> ('c, 'h) go_iterator
     \<Rightarrow> (('c, 'h) go_iterator \<times> (go_error + message_envelope)) option" where
  "go_recv G rc it =
     (case recv_attempt G rc it of
        GoContinue it \<Rightarrow> go_recv G rc it
      | GoReturn it r \<Rightarrow> Some (it, r))"

declare go_recv.simps [code]

section \<open>The two SDKs agree\<close>

text \<open>
  The iterator runs with a context that never ends, and waiting for the timer does not disturb the
  connection. No message has the largest head, where the iterator's resume point wraps around.
\<close>

definition undisturbed :: "('o, 'c) go_grpc \<Rightarrow> bool" where
  "undisturbed G \<longleftrightarrow> (\<forall>delay c. go_select_timer G background delay c = (c, True))"

definition below_last_head :: "('c, 'h) rpc_client \<Rightarrow> bool" where
  "below_last_head rc \<longleftrightarrow> (\<forall>h c c' h' e. rc_message rc h c = ((c', h'), Inr (Some (Some e))) \<longrightarrow> me_head_id e \<noteq> - 1)"

definition same_position :: "('c, 'h) resilient_subscription \<Rightarrow> ('c, 'h) go_iterator \<Rightarrow> bool" where
  "same_position rs it \<longleftrightarrow> it_ctx it = background \<and> gc_conn (it_client it) = rsub_client rs \<and> it_topic it = rsub_topic rs
     \<and> go_origin (default_subscribe_options (it_client it) (it_options it)) = rsub_origin rs
     \<and> go_from_head_id (it_options it) = rsub_next_head_id rs \<and> rsub_next_head_id rs \<noteq> 0
     \<and> go_replay_limit (it_options it) = rsub_replay_limit rs \<and> rsub_replay_limit rs \<noteq> 0
     \<and> it_stream it = rsub_stream rs"

fun same_result :: "sdk_error + message_envelope \<Rightarrow> go_error + message_envelope \<Rightarrow> bool" where
  "same_result (Inr m) (Inr m') \<longleftrightarrow> m = m'"
| "same_result (Inl (SdkStatus s)) (Inl (GoStatus s')) \<longleftrightarrow> s = s'"
| "same_result (Inl (Protocol _)) (Inl (GoText _)) \<longleftrightarrow> True"
| "same_result _ _ \<longleftrightarrow> False"

fun same_attempt :: "('c, 'h) attempt \<Rightarrow> ('c, 'h) go_attempt \<Rightarrow> bool" where
  "same_attempt (Retry rs) (GoContinue it) \<longleftrightarrow> same_position rs it"
| "same_attempt (Return rs r) (GoReturn it r') \<longleftrightarrow> same_result r r' \<and> same_position rs it"
| "same_attempt _ _ \<longleftrightarrow> False"

lemma is_retryable_status: "is_retryable (GoStatus s) \<longleftrightarrow> retryable_status (status_code s)"
  by (cases "status_code s") (simp_all add: is_retryable_def)

lemma wait_and_continue_undisturbed:
  assumes "undisturbed G" "it_ctx it = background"
  shows "wait_and_continue G it = GoContinue it"
  using assms by (simp add: wait_and_continue_def wait_reconnect_def undisturbed_def)

lemma same_position_stream:
  "same_position rs it \<Longrightarrow> same_position (rs\<lparr>rsub_client := c, rsub_stream := h\<rparr>) (it\<lparr>it_client := (it_client it)\<lparr>gc_conn := c\<rparr>, it_stream := h\<rparr>)"
  by (auto simp: same_position_def default_subscribe_options_def split: if_splits)

lemma same_position_next:
  assumes "same_position rs it" "h \<noteq> - 1"
  shows "same_position (rs\<lparr>rsub_next_head_id := saturating_add h 1\<rparr>) (it\<lparr>it_options := (it_options it)\<lparr>go_from_head_id := h + 1\<rparr>\<rparr>)"
  using assms by (auto simp: same_position_def default_subscribe_options_def saturating_add_1 eq_neg_iff_add_eq_0 split: if_splits)

lemma recv_stream_agrees:
  assumes "undisturbed G" "below_last_head rc" "same_position rs it" "rsub_stream rs = Some stream"
  shows "same_attempt (poll_stream rc rs) (recv_stream G rc stream it)"
proof -
  obtain c h r where m: "rc_message rc stream (rsub_client rs) = ((c, h), r)" by (metis surj_pair)
  have conn: "gc_conn (it_client it) = rsub_client rs" "it_ctx it = background" using assms(3) by (simp_all add: same_position_def)
  note position = same_position_stream [OF assms(3)]
  note wait = wait_and_continue_undisturbed [OF assms(1)]
  have head: "me_head_id e \<noteq> - 1" if "r = Inr (Some (Some e))" for e using assms(2) m that unfolding below_last_head_def by blast
  show ?thesis using position [where c = c and h = None] position [where c = c and h = "Some h"] head
      same_position_next [OF position [where c = c and h = "Some h"]]
    by (auto simp: poll_stream_def recv_stream_def assms(4) conn m wait is_retryable_status required_def ok_or_def Let_def
        split: sum.splits option.splits)
qed

lemma recv_attempt_agrees:
  assumes "undisturbed G" "below_last_head rc" "same_position rs it"
  shows "same_attempt (next_attempt rc rs) (recv_attempt G rc it)"
proof (cases "rsub_stream rs")
  case None
  have it: "it_stream it = None" using assms(3) None by (simp add: same_position_def)
  let ?request = "\<lparr>sr_topic = rsub_topic rs, sr_origin = rsub_origin rs, sr_from_head_id = rsub_next_head_id rs, sr_replay_limit = rsub_replay_limit rs\<rparr>"
  obtain c r where sub: "rc_subscribe rc ?request (rsub_client rs) = (c, r)" by force
  have open_it: "go_subscribe_with_options rc (it_topic it) (it_options it) (it_client it) = ((it_client it)\<lparr>gc_conn := c\<rparr>, map_err GoStatus r)"
    using assms(3) sub by (simp add: go_subscribe_with_options_def go_call_def same_position_def default_subscribe_options_def)
  show ?thesis
  proof (cases r)
    case (Inl s)
    have "same_position (rs\<lparr>rsub_client := c\<rparr>) (it\<lparr>it_client := (it_client it)\<lparr>gc_conn := c\<rparr>\<rparr>)"
      using assms(3) by (auto simp: same_position_def default_subscribe_options_def split: if_splits)
    with Inl None it open_it sub show ?thesis
      using wait_and_continue_undisturbed [OF assms(1), of "it\<lparr>it_client := (it_client it)\<lparr>gc_conn := c\<rparr>\<rparr>"] assms(3)
      by (simp add: next_attempt_def open_stream_def recv_attempt_def map_err_def is_retryable_status same_position_def)
  next
    case (Inr h)
    with recv_stream_agrees [OF assms(1,2) same_position_stream [OF assms(3), where c = c and h = "Some h"], of h]
      None it open_it sub show ?thesis
      by (simp add: next_attempt_def open_stream_def recv_attempt_def map_err_def)
  qed
next
  case (Some h)
  with assms(3) have "it_stream it = Some h" by (simp add: same_position_def)
  with Some recv_stream_agrees [OF assms Some] show ?thesis by (simp add: next_attempt_def recv_attempt_def)
qed

lemma next_message_recv:
  assumes "undisturbed G" "below_last_head rc"
  shows "attempts rc rs rs' r \<Longrightarrow> same_position rs it \<Longrightarrow>
    \<exists>it' r'. go_recv G rc it = Some (it', r') \<and> same_result r r' \<and> same_position rs' it'"
proof (induction arbitrary: it rule: attempts.induct)
  case (returned rs rs' r)
  from recv_attempt_agrees [OF assms returned.prems] returned.hyps show ?case
    by (cases "recv_attempt G rc it") (auto simp: go_recv.simps)
next
  case (retried rs rs1 rs' r)
  from recv_attempt_agrees [OF assms retried.prems] retried.hyps(1)
  obtain it1 where "recv_attempt G rc it = GoContinue it1" "same_position rs1 it1"
    by (cases "recv_attempt G rc it") auto
  with retried.IH [of it1] show ?case by (simp add: go_recv.simps [of G rc it])
qed

lemma recv_next_message:
  fixes G :: "('o, 'c) go_grpc" and rc :: "('c, 'h) rpc_client"
  assumes "undisturbed G" "below_last_head rc" "go_recv G rc it = Some x" "same_position rs it"
  shows "\<exists>rs' r. attempts rc rs rs' r"
proof -
  have "undisturbed G \<longrightarrow> below_last_head rc \<longrightarrow> (\<forall>rs. same_position rs it \<longrightarrow> (\<exists>rs' r. attempts rc rs rs' r))"
    using assms(3)
  proof (rule go_recv.raw_induct [where P = "\<lambda>G rc it x. undisturbed G \<longrightarrow> below_last_head rc \<longrightarrow>
      (\<forall>rs. same_position rs it \<longrightarrow> (\<exists>rs' r. attempts rc rs rs' r))", rotated])
    fix loop and G :: "('o, 'c) go_grpc" and rc :: "('c, 'h) rpc_client" and it
      and x :: "('c, 'h) go_iterator \<times> (go_error + message_envelope)"
    assume IH: "\<And>G rc it x. loop G rc it = Some x \<Longrightarrow> undisturbed G \<longrightarrow> below_last_head rc \<longrightarrow>
        (\<forall>rs. same_position rs it \<longrightarrow> (\<exists>rs' r. attempts rc rs rs' r))"
      and step: "(case recv_attempt G rc it of GoContinue it \<Rightarrow> loop G rc it | GoReturn it r \<Rightarrow> Some (it, r)) = Some x"
    show "undisturbed G \<longrightarrow> below_last_head rc \<longrightarrow> (\<forall>rs. same_position rs it \<longrightarrow> (\<exists>rs' r. attempts rc rs rs' r))"
    proof (intro impI allI)
      fix rs assume hyps: "undisturbed G" "below_last_head rc" "same_position rs it"
      note agrees = recv_attempt_agrees [OF hyps]
      show "\<exists>rs' r. attempts rc rs rs' r"
      proof (cases "next_attempt rc rs")
        case (Retry rs1)
        with agrees obtain it1 where "recv_attempt G rc it = GoContinue it1" "same_position rs1 it1"
          by (cases "recv_attempt G rc it") auto
        with step IH [of G rc it1 x] hyps(1,2) have "\<exists>rs' r. attempts rc rs1 rs' r" by auto
        with Retry show ?thesis by (blast intro: attempts.retried)
      qed (blast intro: attempts.returned)
    qed
  qed
  with assms show ?thesis by blast
qed

text \<open>One request on each side: both return, with the same result, or neither does.\<close>

lemma recv_agrees:
  assumes "undisturbed G" "below_last_head rc" "same_position rs it"
  shows "rel_option (\<lambda>(rs', r) (it', r'). same_result r r' \<and> same_position rs' it') (next_message rc rs) (go_recv G rc it)"
proof (cases "next_message rc rs")
  case None
  have "go_recv G rc it = None"
  proof (rule ccontr)
    assume "go_recv G rc it \<noteq> None"
    with recv_next_message [OF assms(1,2) _ assms(3)] obtain rs' r where "attempts rc rs rs' r" by blast
    with next_message_attempts None show False by fastforce
  qed
  with None show ?thesis by simp
next
  case (Some x)
  obtain it' r' where "go_recv G rc it = Some (it', r')" "same_result (snd x) r'" "same_position (fst x) it'"
    using next_message_recv [OF assms(1,2) next_message_Some [OF Some] assms(3)] by blast
  with Some show ?thesis by (simp add: case_prod_beta)
qed

text \<open>Asking for \<open>n\<close> messages in a row.\<close>

fun go_messages ::
  "('o, 'c) go_grpc \<Rightarrow> ('c, 'h) rpc_client \<Rightarrow> nat \<Rightarrow> ('c, 'h) go_iterator \<Rightarrow> message_envelope list option" where
  "go_messages G rc 0 it = Some []"
| "go_messages G rc (Suc n) it =
     (case go_recv G rc it of
        Some (it, Inr message) \<Rightarrow> map_option ((#) message) (go_messages G rc n it)
      | _ \<Rightarrow> None)"

lemma messages_agree:
  assumes "undisturbed G" "below_last_head rc"
  shows "same_position rs it \<Longrightarrow> go_messages G rc n it = next_messages rc n rs"
proof (induction n arbitrary: rs it)
  case (Suc n)
  from recv_agrees [OF assms Suc.prems] show ?case
  proof (cases rule: option.rel_cases)
    case (Some x y)
    obtain rs' r it' r' where xy: "x = (rs', r)" "y = (it', r')" by force
    with Some have "same_result r r'" "same_position rs' it'" by simp_all
    with Some xy Suc.IH [of rs' it'] show ?thesis by (cases "(r, r')" rule: same_result.cases) auto
  qed simp
qed simp

lemma subscribe_same_position:
  assumes "gc_conn gc = mc_client cl" "gc_default_origin gc = mc_default_origin cl" "limit \<noteq> 0"
  shows "same_position (subscribe_reconnecting_with_options topic
      \<lparr>so_origin = origin, so_from_head_id = from_head_id, so_replay_limit = limit, so_reconnect_delay_ms = delay\<rparr> cl)
    (subscribe_iterator None topic
      \<lparr>go_origin = origin, go_from_head_id = from_head_id, go_replay_limit = limit, go_reconnect_delay = delay'\<rparr> gc)"
proof -
  have "max from_head_id 1 = (if from_head_id = 0 then 1 else from_head_id)" unfolding max_def by unat_arith
  with assms show ?thesis
    by (simp add: same_position_def subscribe_reconnecting_with_options_def subscribe_iterator_def
        default_subscribe_options_def or_default_def split: option.split)
qed

end
