(* ===== verification/Client_Laws.thy ===== *)
theory Client_Laws
  imports Go_Sdk Subscription
begin

text \<open>
  What a client gets from a server of this development: publishing on a live store succeeds and the
  message can be fetched back from the head it was given, and the codes of the errors that the
  handlers answer with.
\<close>

declare split_paired_All [simp del] split_paired_Ex [simp del]

section \<open>Publishing and fetching\<close>

lemma spec_append_stored:
  assumes "spec_append v m at = (v', x)"
  shows "v_msg v' (log_of (nm_topic m) (nm_origin m), sm_head_id x) = Some x"
    "head_of v' (log_of (nm_topic m) (nm_origin m)) = sm_head_id x"
    "sm_head_id x = saturating_add (head_of v (log_of (nm_topic m) (nm_origin m))) 1"
    "sm_topic x = nm_topic m" "sm_origin x = nm_origin m" "sm_payload x = nm_payload m" "sm_headers x = nm_headers m"
  using assms by (auto simp: spec_append_def Let_def)

lemma spec_fetch_one:
  assumes "wf_view v" "v_msg v (l, h) = Some m"
  shows "spec_fetch v l h 1 = [m]"
proof -
  have "1 \<le> h" "h \<le> head_of v l" using wf_view_gapless [OF assms(1), of l h] assms(2) by simp_all
  then have "max 1 (unat h) = unat h" "unat h \<le> unat (head_of v l)" by (simp_all add: word_le_nat_alt)
  moreover have "page_size 1 = 1" by code_simp
  ultimately have heads: "map (\<lambda>m. unat (sm_head_id m)) (spec_fetch v l h 1) = [unat h]"
    using spec_fetch_heads [OF assms(1), of l h 1] by (simp add: upt_conv_Cons del: upt_Suc)
  then obtain x where x: "spec_fetch v l h 1 = [x]" "sm_head_id x = h"
    by (cases "spec_fetch v l h 1") (auto simp: word_unat_eq_iff)
  with spec_fetch_stored(1) [OF assms(1), of x l h 1] assms(2) show ?thesis by simp
qed

lemma owned_origin_local:
  assumes "valid_node (svc_node svc)" "origin = None \<or> origin = Some (proto_node (svc_node svc))"
  shows "owned_origin svc origin = Inr (svc_node svc)" "request_origin svc origin = Inr (svc_node svc)"
proof -
  show "request_origin svc origin = Inr (svc_node svc)"
    using assms by (auto simp: request_origin_Inr valid_node_def valid_part_def node_is_empty_def)
  then show "owned_origin svc origin = Inr (svc_node svc)" by (simp add: owned_origin_def)
qed

context msgbus_contract
begin

lemma publish_stored:
  assumes svc: "svc_store svc = st" and inv: "inv (sv_store sv)" and w: "valid_part (uuid w)"
    and publish: "srv_publish svc w r sv = (sv', Inr (Some e))"
  obtains m where "e = proto_message m" "valid_part (me_topic e)"
    "v_msg (view (sv_store sv')) (log_of (Topic (me_topic e)) (svc_node svc), me_head_id e) = Some m"
proof -
  let ?m = "new_message_new (uuid w) (Topic (pr_topic r)) (svc_node svc) (pr_payload r) (pr_headers r)"
  obtain m where m: "perform st w (AppendMessage ?m) (sv_store sv) = (sv_store sv', Inr (RMessage m))" "e = proto_message m"
    "valid_part (pr_topic r)"
    using publish_perform [OF publish svc] by auto
  have "valid_call w (AppendMessage ?m)" using m(3) w by (simp add: valid_new_def new_message_new_def message_id_new_def)
  from perform_ok [OF inv this m(1)] have "spec_append (view (sv_store sv)) ?m (now w 0) = (view (sv_store sv'), m)" by auto
  note stored = spec_append_stored [OF this]
  have "me_topic e = pr_topic r" "me_head_id e = sm_head_id m" using stored(4) by (simp_all add: m(2) proto_message_def new_message_new_def)
  with stored(1) m(2,3) show thesis by (intro that) (simp_all add: new_message_new_def)
qed

end

context live_contract
begin

lemma publish_total:
  assumes svc: "svc_store svc = st" and inv: "inv (sv_store sv)" and w: "no_fault w" "valid_part (uuid w)"
    and topic: "valid_part (pr_topic r)" "pr_topic r \<noteq> delete_topic"
    and origin: "valid_node (svc_node svc)" "pr_origin r = None \<or> pr_origin r = Some (proto_node (svc_node svc))"
    and m: "m = new_message_new (uuid w) (Topic (pr_topic r)) (svc_node svc) (pr_payload r) (pr_headers r)"
    and fits: "fits w (AppendMessage m) (view (sv_store sv))"
  shows "\<exists>sv' x. srv_publish svc w r sv = (sv', Inr (Some (proto_message x))) \<and> inv (sv_store sv')
    \<and> spec_append (view (sv_store sv)) m (now w 0) = (view (sv_store sv'), x)"
proof -
  have valid: "valid_call w (AppendMessage m)" using w topic by (simp add: m valid_new_def new_message_new_def message_id_new_def)
  from perform_total [OF inv w(1) valid fits] obtain s' x where
    s': "st_append_message st w m (sv_store sv) = (s', Inr x)" "inv s'" "spec_append (view (sv_store sv)) m (now w 0) = (view s', x)"
    by (auto simp: map_ok_eq_Inr)
  have "srv_publish svc w r sv = (send x (sv\<lparr>sv_store := s'\<rparr>), Inr (Some (proto_message x)))"
    using s'(1) topic owned_origin_local [OF origin] svc
    by (simp add: srv_publish_def on_store_def m topic_new_def ensure_application_topic_def)
  with s' show ?thesis by (simp add: send_def)
qed

lemma fetch_total:
  assumes svc: "svc_store svc = st" and inv: "inv (sv_store sv)" and w: "no_fault w"
    and topic: "valid_part (fr_topic r)"
    and origin: "valid_node (svc_node svc)" "fr_origin r = None \<or> fr_origin r = Some (proto_node (svc_node svc))"
    and q: "q = \<lparr>fq_topic = Topic (fr_topic r), fq_origin = svc_node svc, fq_from_head_id = max (fr_from_head_id r) 1, fq_limit = fr_limit r\<rparr>"
    and fits: "fits w (FetchMessages q) (view (sv_store sv))"
  shows "srv_fetch svc w r sv = Inr (map (\<lambda>m. Some (proto_message m))
    (spec_fetch (view (sv_store sv)) (log_of (Topic (fr_topic r)) (svc_node svc)) (max (fr_from_head_id r) 1) (fr_limit r)))"
proof -
  from perform_total [OF inv w _ fits] obtain ms where "st_fetch_messages st w q (sv_store sv) = Inr ms"
    by (auto simp: map_ok_eq_Inr)
  moreover from fetch_ok [OF inv this] have "ms = spec_fetch (view (sv_store sv)) (log_of (Topic (fr_topic r)) (svc_node svc))
      (max (fr_from_head_id r) 1) (fr_limit r)" by (simp add: q)
  ultimately show ?thesis
    using topic owned_origin_local(2) [OF origin] svc by (simp add: srv_fetch_def topic_new_def q)
qed

lemma fetch_stored:
  assumes svc: "svc_store svc = st" "valid_node (svc_node svc)" and inv: "inv (sv_store sv)" and w: "no_fault w" and topic: "valid_part topic"
    and m: "v_msg (view (sv_store sv)) (log_of (Topic topic) (svc_node svc), h) = Some m"
    and fits: "fits w (FetchMessages \<lparr>fq_topic = Topic topic, fq_origin = svc_node svc, fq_from_head_id = h, fq_limit = 1\<rparr>) (view (sv_store sv))"
  shows "srv_fetch svc w \<lparr>fr_topic = topic, fr_origin = None, fr_from_head_id = h, fr_limit = 1\<rparr> sv = Inr [Some (proto_message m)]"
proof -
  note wf = inv_wf [OF inv]
  have "1 \<le> h" using wf_view_gapless [OF wf] m by (metis option.distinct(1))
  then have one: "max h 1 = h" by (rule max.absorb1)
  show ?thesis
    using fetch_total [OF svc(1) inv w, of "\<lparr>fr_topic = topic, fr_origin = None, fr_from_head_id = h, fr_limit = 1\<rparr>"] svc(2) topic fits
      spec_fetch_one [OF wf m] by (simp add: one)
qed

end

section \<open>Errors\<close>

text \<open>The status a request is answered with, if it is an error.\<close>

fun failure :: "'a rpc \<Rightarrow> status option" where
  "failure (Inl s) = Some s"
| "failure (Inr _) = None"

fun rpc_failure :: "'s service \<Rightarrow> call_env \<Rightarrow> rpc_call \<Rightarrow> 's server \<Rightarrow> status option" where
  "rpc_failure svc w (PublishCall r) sv = failure (snd (srv_publish svc w r sv))"
| "rpc_failure svc w (FetchCall r) sv = failure (srv_fetch svc w r sv)"
| "rpc_failure svc w (SubscribeCall r) sv = failure (srv_subscribe svc w r sv)"
| "rpc_failure svc w (GetHeadCall r) sv = failure (srv_get_head svc w r sv)"
| "rpc_failure svc w ListHeadsCall sv = failure (srv_list_heads svc w sv)"
| "rpc_failure svc w ListPeerSyncStatesCall sv = failure (srv_list_peer_sync_states svc w sv)"
| "rpc_failure svc w (DeleteRangeCall r) sv = failure (snd (srv_delete_range svc w r sv))"
| "rpc_failure svc w (EnqueueFifoCall r) sv = failure (snd (srv_enqueue_fifo svc w r sv))"
| "rpc_failure svc w (PeekFifoCall q) sv = failure (srv_peek_fifo svc w q sv)"
| "rpc_failure svc w (AckFifoCall r) sv = failure (snd (srv_ack_fifo svc w r sv))"
| "rpc_failure svc w (RejectFifoCall r) sv = failure (snd (srv_reject_fifo svc w r sv))"
| "rpc_failure svc w HealthCall sv = failure (srv_health svc)"
| "rpc_failure svc w ReadyCall sv = failure (srv_ready svc w sv)"

definition handler_code :: "code \<Rightarrow> bool" where
  "handler_code c \<longleftrightarrow> c \<in> {CInvalidArgument, CNotFound, PermissionDenied, FailedPrecondition, Internal}"

lemma handler_code_final: "handler_code c \<Longrightarrow> \<not> retryable_status c"
  by (auto simp: handler_code_def)

lemma failure_Some [simp]: "failure r = Some s \<longleftrightarrow> r = Inl s"
  by (cases r) auto

lemma status_from_error_code [simp]: "handler_code (status_code (status_from_error e))"
  by (cases e) (simp_all add: handler_code_def status_def)

lemma mapped_code: "map_err status_from_error r = Inl s \<Longrightarrow> handler_code (status_code s)"
  by (cases r) auto

lemma refused_codes:
  "core_node n = Inl s \<Longrightarrow> handler_code (status_code s)"
  "request_origin svc p = Inl s \<Longrightarrow> handler_code (status_code s)"
  "owned_origin svc p = Inl s \<Longrightarrow> handler_code (status_code s)"
  "ensure_application_topic t = Inl s \<Longrightarrow> handler_code (status_code s)"
  "fifo_ack_parts a = Inl s \<Longrightarrow> handler_code (status_code s)"
  "reject_fifo_parts b = Inl s \<Longrightarrow> handler_code (status_code s)"
proof -
  show core: "core_node n = Inl s \<Longrightarrow> handler_code (status_code s)" for n
    by (auto simp: core_node_def dest: mapped_code split: if_splits)
  show request: "request_origin svc p = Inl s \<Longrightarrow> handler_code (status_code s)"
    by (auto simp: request_origin_def and_then_eq_Inl split: option.splits if_splits dest: core)
  then show "owned_origin svc p = Inl s \<Longrightarrow> handler_code (status_code s)"
    by (auto simp: owned_origin_def and_then_eq_Inl handler_code_def status_def split: if_splits)
qed (auto simp: ensure_application_topic_def fifo_ack_parts_def reject_fifo_parts_def and_then_eq_Inl handler_code_def
    status_def dest: mapped_code [unfolded handler_code_def] split: if_splits)

lemma stored_code: "on_store f sv = (sv', Inl s) \<Longrightarrow> handler_code (status_code s)"
  by (auto simp: on_store_eq_Inl)

lemma transposed_code: "transpose_opt (map_option core_node p) = Inl s \<Longrightarrow> handler_code (status_code s)"
  by (cases p) (auto simp: transpose_opt_def and_then_eq_Inl dest: refused_codes(1))

lemma required_code: "handler_code c \<Longrightarrow> ok_or (status c text) x = Inl s \<Longrightarrow> handler_code (status_code s)"
  by (cases x) (auto simp: ok_or_def status_def)

lemmas handler_codes = mapped_code refused_codes stored_code transposed_code

lemma rpc_failure_code:
  assumes "rpc_failure svc w c sv = Some s"
  shows "handler_code (status_code s)"
proof (cases c)
  case (PublishCall r)
  with assms obtain sv' where "srv_publish svc w r sv = (sv', Inl s)" by (cases "srv_publish svc w r sv") auto
  then show ?thesis by (auto simp: srv_publish_def Let_def try_on_eq_Inl bind_on_eq_Inl dest: handler_codes)
next
  case (DeleteRangeCall r)
  with assms obtain sv' where "srv_delete_range svc w r sv = (sv', Inl s)" by (cases "srv_delete_range svc w r sv") auto
  then show ?thesis by (auto simp: srv_delete_range_def try_on_eq_Inl bind_on_eq_Inl dest: handler_codes)
next
  case (EnqueueFifoCall r)
  with assms obtain sv' where "srv_enqueue_fifo svc w r sv = (sv', Inl s)" by (cases "srv_enqueue_fifo svc w r sv") auto
  then show ?thesis
    by (auto simp: srv_enqueue_fifo_def try_on_eq_Inl bind_on_eq_Inl handler_code_def [of CInvalidArgument]
        dest: handler_codes required_code [rotated])
next
  case (AckFifoCall r)
  with assms obtain sv' where "srv_ack_fifo svc w r sv = (sv', Inl s)" by (cases "srv_ack_fifo svc w r sv") auto
  then show ?thesis by (auto simp: srv_ack_fifo_def try_on_eq_Inl dest: handler_codes)
next
  case (RejectFifoCall r)
  with assms obtain sv' where "srv_reject_fifo svc w r sv = (sv', Inl s)" by (cases "srv_reject_fifo svc w r sv") auto
  then show ?thesis by (auto simp: srv_reject_fifo_def try_on_eq_Inl dest: handler_codes)
next
  case (PeekFifoCall q)
  with assms show ?thesis
    by (auto simp: srv_peek_fifo_def and_then_eq_Inl handler_code_def [of CNotFound] dest: handler_codes required_code [rotated])
qed (use assms in \<open>auto simp: srv_fetch_def srv_subscribe_def subscribe_query_def srv_get_head_def srv_list_heads_def Let_def
    srv_list_peer_sync_states_def srv_health_def srv_ready_def and_then_eq_Inl dest: handler_codes split: sum.splits\<close>)

text \<open>The only error a subscription task sends is that it lagged behind.\<close>

lemma sub_round_failure:
  assumes "Inl s \<in> set (sub_sent (sub_round lag_text published sub))" "Inl s \<notin> set (sub_sent sub)"
  shows "retryable_status (status_code s)"
  using assms
  by (auto simp: sub_round_def tx_send_def Let_def status_def split: list.splits if_splits)

end
