(* ===== verification/Daemon_Run.thy ===== *)
theory Daemon_Run
  imports Daemon Sync_Merge Client_Laws
begin

text \<open>
  A daemon while it runs: the second half of \<open>serve\<close> in \<open>crates/msgbus-server/src/main.rs\<close>. Requests and
  the actions of the sync task come in any order until a signal arrives; then the server drains,
  the sync task gets some time to end, and the daemon stops. Whatever happens in between, the store
  stays sound, nothing in it is lost, and all it holds can be sent.
\<close>

declare split_paired_All [simp del] split_paired_Ex [simp del]

section \<open>The running daemon\<close>

datatype daemon_phase = Serving | Draining | Stopped

record 's daemon_state =
  ds_phase :: daemon_phase
  ds_server :: "'s server"
  ds_unsent :: "stored_message option"

definition daemon_begin :: "'s running \<Rightarrow> 's daemon_state" where
  "daemon_begin x = \<lparr>ds_phase = Serving, ds_server = run_server x, ds_unsent = None\<rparr>"

text \<open>
  Requests are answered and the sync task acts until the daemon stops: after the signal, requests that
  are under way end, and the task may act until it sees the signal or its five seconds are
  over. The daemon stops from \<open>Serving\<close> when the transport fails. A handler makes at most one call that
  changes the store, so a request is one step.
\<close>

inductive daemon_step :: "serde \<Rightarrow> 's running \<Rightarrow> 's daemon_state \<Rightarrow> 's daemon_state \<Rightarrow> bool" for S x where
  request: "ds_phase d \<noteq> Stopped \<Longrightarrow> valid_part (uuid w) \<Longrightarrow>
    daemon_step S x d (d\<lparr>ds_server := after_rpc (run_service x) w c (ds_server d)\<rparr>)"
| sync: "ds_phase d \<noteq> Stopped \<Longrightarrow> run_sync x \<noteq> None \<Longrightarrow>
    sync_act S (svc_store (run_service x)) (ds_server d, ds_unsent d) (sv, unsent) \<Longrightarrow>
    daemon_step S x d (d\<lparr>ds_server := sv, ds_unsent := unsent\<rparr>)"
| signal: "ds_phase d = Serving \<Longrightarrow> daemon_step S x d (d\<lparr>ds_phase := Draining\<rparr>)"
| stop: "ds_phase d \<noteq> Stopped \<Longrightarrow> daemon_step S x d (d\<lparr>ds_phase := Stopped\<rparr>)"

inductive_cases daemon_stepE: "daemon_step S x d d'"

abbreviation daemon_steps :: "serde \<Rightarrow> 's running \<Rightarrow> nat \<Rightarrow> 's daemon_state \<Rightarrow> 's daemon_state \<Rightarrow> bool" where
  "daemon_steps S x n \<equiv> daemon_step S x ^^ n"

text \<open>An uninterrupted run of the sync task is a sequence of steps of the daemon.\<close>

lemma sync_acts_daemon:
  assumes "(sync_act S (svc_store (run_service x)))\<^sup>*\<^sup>* a b" "ds_phase d \<noteq> Stopped" "run_sync x \<noteq> None"
    and "a = (ds_server d, ds_unsent d)"
  shows "(daemon_step S x)\<^sup>*\<^sup>* d (d\<lparr>ds_server := fst b, ds_unsent := snd b\<rparr>)"
  using assms(1)
proof (induction rule: rtranclp_induct)
  case base
  then show ?case by (simp add: assms(4))
next
  case (step b c)
  have "daemon_step S x (d\<lparr>ds_server := fst b, ds_unsent := snd b\<rparr>) (d\<lparr>ds_server := fst c, ds_unsent := snd c\<rparr>)"
    using daemon_step.sync [of "d\<lparr>ds_server := fst b, ds_unsent := snd b\<rparr>" x S "fst c" "snd c"] assms(2,3) step(2) by simp
  with step(3) show ?case by simp
qed

lemma sync_task_daemon:
  assumes "peer_sync_task p T config events y = (y', ended)" "sp_store p = svc_store (run_service x)" "run_sync x \<noteq> None"
    and "ds_phase d \<noteq> Stopped" "ds_server d = sync_server y"
  shows "\<exists>unsent. (daemon_step (sp_serde p) x)\<^sup>*\<^sup>* d (d\<lparr>ds_server := sync_server y', ds_unsent := unsent\<rparr>)"
proof -
  obtain unsent where "(sync_act (sp_serde p) (svc_store (run_service x)))\<^sup>*\<^sup>* (sync_server y, ds_unsent d) (sync_server y', unsent)"
    using peer_sync_task_path [OF assms(1)] assms(2) by (auto simp: sync_path_def)
  from sync_acts_daemon [OF this assms(4,3)] assms(5) show ?thesis by auto
qed

section \<open>Well-formed contents\<close>

text \<open>Every stored message can be sent: a peer that reads its envelope gets the message back.\<close>

definition well_typed :: "store_view \<Rightarrow> bool" where
  "well_typed v \<longleftrightarrow> (\<forall>q m. v_msg v q = Some m \<longrightarrow> sendable m)"

lemma sendable_evolved: "evolved m m' \<Longrightarrow> sendable m' \<longleftrightarrow> sendable m"
  by (auto simp: evolved_def sendable_def)

lemma well_typed_put:
  assumes "well_typed v" "sendable m" "spec_put v m = Some (v', r)"
  shows "well_typed v'"
proof -
  have "sendable (mark_deleted v m)" using assms(2) by (simp add: sendable_evolved [OF evolved_mark_deleted])
  with assms(1,3) show ?thesis
    by (auto simp: well_typed_def spec_put_def Let_def split: if_splits option.splits)
qed

lemma well_typed_tombstone: "well_typed v \<Longrightarrow> well_typed (fst (spec_tombstone v l a b))"
  by (fastforce simp: well_typed_def spec_tombstone_def delete_between_def sendable_def split: if_splits option.splits)

lemma well_typed_append:
  assumes "well_typed v" "valid_new m" "valid_node (nm_origin m)" "spec_append v m at = (v', x)"
  shows "well_typed v'"
proof -
  note x = spec_append_effect [OF assms(4) refl]
  have "sendable x"
    unfolding x(1) sendable_evolved [OF evolved_mark_deleted]
    using assms(2,3) by (simp add: sendable_def sendable_node_def stamp_def valid_new_def saturating_add_1_neq_0)
  with assms(1) x(3) show ?thesis by (simp add: well_typed_def)
qed

lemma well_typed_call:
  assumes v: "well_typed v" and n: "valid_node n" and call: "owned_call n c" "valid_call w c" "spec_call enc w c v r v'"
  shows "well_typed v'"
proof (cases c)
  case (AppendMessage m)
  with call n well_typed_append [OF v] show ?thesis by auto
next
  case (TombstoneRangeWithMarker t o' a b mt mn)
  with call(3) obtain k x where mark: "spec_marker enc w v t o' a b mt mn = Some (v', k, x)" by auto
  then obtain payload where
    "spec_append (fst (spec_tombstone v (log_of t o') a b)) (new_message_new (uuid w) mt mn payload fmempty) (now w 1) = (v', x)"
    by (auto simp: spec_marker_def Let_def split: sum.splits prod.splits)
  from well_typed_append [OF well_typed_tombstone [OF v] _ _ this] call(1,2) n TombstoneRangeWithMarker show ?thesis
    by (simp add: valid_new_def new_message_new_def message_id_new_def)
next
  case (EnqueueFifo f)
  with call v show ?thesis by (auto simp: well_typed_def spec_enqueue_def Let_def)
next
  case (AckFifo q i)
  then have "v' = fst (spec_ack v (queue_str q) i)" using call(3) by (auto simp: fst_def split: prod.splits)
  with v show ?thesis by (simp add: well_typed_def spec_ack_def split: option.splits)
next
  case (RejectFifo q i)
  then have "v' = fst (spec_reject v (queue_str q) i)" using call(3) by (auto simp: fst_def split: prod.splits)
  with v show ?thesis by (simp add: well_typed_def spec_reject_def split: option.splits)
qed (use call(1) in simp_all)

section \<open>What the daemon keeps\<close>

definition ds_outstanding :: "'s daemon_state \<Rightarrow> stored_message list" where
  "ds_outstanding d = outstanding (ds_server d, ds_unsent d)"

context msgbus_contract
begin

abbreviation contents :: "'s daemon_state \<Rightarrow> store_view" where
  "contents d \<equiv> view (sv_store (ds_server d))"

lemma daemon_step_keeps:
  assumes step: "daemon_step S x d d'" and x: "svc_store (run_service x) = st" "valid_node (svc_node (run_service x))"
    and inv: "inv (sv_store (ds_server d))" and room: "\<And>l. head_of (contents d) l \<noteq> - 1"
  shows "inv (sv_store (ds_server d'))" "extends (contents d) (contents d')"
    "unat (head_of (contents d') l) \<le> Suc (unat (head_of (contents d) l))"
    "well_typed (contents d) \<Longrightarrow> well_typed (contents d')"
    "all_stored (contents d) (ds_outstanding d) \<Longrightarrow> all_stored (contents d') (ds_outstanding d')"
proof -
  have "inv (sv_store (ds_server d')) \<and> extends (contents d) (contents d')
    \<and> unat (head_of (contents d') l) \<le> Suc (unat (head_of (contents d) l))
    \<and> (well_typed (contents d) \<longrightarrow> well_typed (contents d'))
    \<and> (all_stored (contents d) (ds_outstanding d) \<longrightarrow> all_stored (contents d') (ds_outstanding d'))"
    using step
  proof cases
    case (request w c)
    let ?sv = "after_rpc (run_service x) w c (ds_server d)"
    note r = rpc_step [where c = c, OF x(1) request(3) inv room refl]
    have "well_typed (view (sv_store ?sv))" if v: "well_typed (contents d)"
    proof (cases "?sv = ds_server d")
      case False
      with after_rpc_effect [OF x(1) request(3), of c "ds_server d"] obtain e k where e: "owned_call (svc_node (run_service x)) e"
        "valid_call w e" "perform st w e (sv_store (ds_server d)) = (sv_store ?sv, Inr k)" by (auto simp: rpc_effect_def x(1))
      from well_typed_call [OF v x(2) e(1,2)] perform_ok [OF inv e(2,3)] show ?thesis by blast
    qed (use v in simp)
    moreover have "all_stored (view (sv_store ?sv)) (outstanding (?sv, ds_unsent d))" if "all_stored (contents d) (ds_outstanding d)"
      using r(5) all_stored_extends [OF that r(2)] that by (auto simp: ds_outstanding_def outstanding_def all_stored_def)
    ultimately show ?thesis using r(1,2) r(3) [of l] request(1) by (simp add: ds_outstanding_def)
  next
    case (sync sv unsent)
    have act: "sync_act S st (ds_server d, ds_unsent d) (sv, unsent)" using sync x(1) by simp
    have inv': "inv (sv_store (fst (ds_server d, ds_unsent d)))" using inv by simp
    have "well_typed (view (sv_store sv))" if v: "well_typed (contents d)"
      using act inv'
    proof (cases rule: sync_act_effect)
      case same
      with v show ?thesis by (simp add: well_typed_def)
    next
      case (stored m k)
      with well_typed_put [OF v] show ?thesis by simp
    next
      case (deleted q i j)
      with well_typed_tombstone [OF v] show ?thesis by simp
    qed
    with sync_act_step [OF act inv'] sync(1) show ?thesis by (simp add: ds_outstanding_def)
  qed (simp_all add: ds_outstanding_def inv)
  then show "inv (sv_store (ds_server d'))" "extends (contents d) (contents d')"
    "unat (head_of (contents d') l) \<le> Suc (unat (head_of (contents d) l))"
    "well_typed (contents d) \<Longrightarrow> well_typed (contents d')"
    "all_stored (contents d) (ds_outstanding d) \<Longrightarrow> all_stored (contents d') (ds_outstanding d')" by blast+
qed

lemma daemon_steps_keep:
  assumes "daemon_steps S x n d d'" and x: "svc_store (run_service x) = st" "valid_node (svc_node (run_service x))"
    and "inv (sv_store (ds_server d))" and "\<And>l. unat (head_of (contents d) l) + n < 2 ^ 64"
  shows "inv (sv_store (ds_server d')) \<and> extends (contents d) (contents d') \<and> (\<forall>l. unat (head_of (contents d') l) \<le> unat (head_of (contents d) l) + n)
    \<and> (well_typed (contents d) \<longrightarrow> well_typed (contents d'))
    \<and> (all_stored (contents d) (ds_outstanding d) \<longrightarrow> all_stored (contents d') (ds_outstanding d'))"
  using assms(1,5)
proof (induction n arbitrary: d')
  case 0
  then show ?case using assms(4) by simp
next
  case (Suc n)
  from Suc.prems(1) obtain e where e: "daemon_steps S x n d e" "daemon_step S x e d'" by auto
  have ih: "inv (sv_store (ds_server e))" "extends (contents d) (contents e)" "\<And>l. unat (head_of (contents e) l) \<le> unat (head_of (contents d) l) + n"
    "well_typed (contents d) \<longrightarrow> well_typed (contents e)"
    "all_stored (contents d) (ds_outstanding d) \<longrightarrow> all_stored (contents e) (ds_outstanding e)"
    using Suc.IH [OF e(1)] Suc.prems(2) by (simp_all add: Suc_lessD)
  have room: "head_of (contents e) l \<noteq> - 1" for l
    using ih(3) [of l] Suc.prems(2) [of l] by (auto simp: unsigned_minus_1_eq_mask mask_eq_exp_minus_1)
  note step = daemon_step_keeps [OF e(2) x ih(1) room]
  have "unat (head_of (contents d') l) \<le> unat (head_of (contents d) l) + Suc n" for l using step(3) [of l] ih(3) [of l] by simp
  with step(1,2,4,5) ih(2,4,5) show ?case using extends_trans by blast
qed

end

end
