(* ===== verification/System_Properties.thy ===== *)
theory System_Properties
  imports Sync_Properties Cluster Daemon_Run
begin

text \<open>
  The properties of running daemons: a cluster of daemons that pull from each other converges, all
  that a daemon stores, serves and broadcasts is well-formed, the sync task is a sequence of a few kinds of
  actions, and what a failing store does to a delete marker that is being copied.
\<close>

declare split_paired_All [simp del] split_paired_Ex [simp del]

section \<open>Clusters\<close>

lemma redb_view_fresh: "redb_backend P \<Longrightarrow> redb_view P (redb_empty P) = empty_view"
  by (simp add: redb_view_def redb_empty_def empty_view_def redb_backend_def ordered_table.get_empty fun_eq_iff)

lemma redb_inv_fresh: "redb_backend P \<Longrightarrow> redb_inv P (redb_empty P)"
  by (rule redb_inv_empty) (simp_all add: redb_backend_def)

lemma fresh_cluster:
  assumes P: "redb_backend P" and g: "\<forall>i < n. sv_store (g i) = redb_empty P"
  shows "replica.cluster_inv (redb_inv P) (redb_view P) (rd_serde P) C n 0 g"
  by (rule replica.cluster_inv_empty [OF redb_backend.redb_replica [OF P]])
    (use g in \<open>simp_all add: redb_inv_fresh [OF P] redb_view_fresh [OF P] del: redb_view_sel\<close>)

text \<open>
  C0. A cluster converges: daemons on redb that start with empty databases, answer any requests and pull from
  each other in any order, and then let the first one pull from all others and all others from the first
  one, have the same messages, heads and tombstones in every log, and every message and tombstone that
  any of them had before the exchange is among them.
\<close>

theorem cluster_converges:
  assumes P: "redb_backend P" and C: "cl_store C = redb_store P" "cl_serde C = rd_serde P" "cluster_ok C n"
    and start: "\<forall>i < n. sv_store (start i) = redb_empty P"
    and events: "list_all (event_ok n) es" "length es < 2 ^ 64" and ws: "\<forall>k. no_fault (ws k)"
    and g: "g = cluster_run C es start"
    and g': "g' = cluster_run C (map (\<lambda>j. Pull 0 j ws) [1..<n] @ map (\<lambda>j. Pull j 0 ws) [1..<n]) g"
    and ij: "i < n" "j < n"
  shows "same_logs (redb_view P (sv_store (g' i))) (redb_view P (sv_store (g' j)))
    \<and> subsumes (redb_view P (sv_store (g' i))) (redb_view P (sv_store (g j)))"
proof -
  note replica = redb_backend.redb_replica [OF P]
  have inv: "replica.cluster_inv (redb_inv P) (redb_view P) (rd_serde P) C n (0 + length es) g"
    unfolding g by (rule replica.cluster_run_inv [OF replica C(3,1,2) fresh_cluster [OF P start] events(1)]) (use events(2) in simp)
  have "no_fault (ws k)" for k using ws by blast
  from replica.exchange_converges [OF replica C(3,1,2) this inv g' ij] show ?thesis by blast
qed

text \<open>Three daemons; the second one deletes what it published after the first one had copied it.\<close>

definition demo_cluster :: "demo_tables cluster" where
  "demo_cluster = \<lparr>cl_store = redb_store demo_redb, cl_serde = byte_serde,
     cl_node = (\<lambda>i. demo_node\<lparr>device_id := nth [''d'', ''e'', ''f''] i\<rparr>), cl_batch_limit = 100, cl_status_text = status_message\<rparr>"

definition demo_traffic :: "cluster_event list" where
  "demo_traffic =
     [Serve 1 demo_env (PublishCall \<lparr>pr_topic = ''a'', pr_origin = None, pr_payload = [1], pr_headers = fmempty\<rparr>),
      Pull 0 1 (\<lambda>_. demo_env),
      Serve 1 demo_env (DeleteRangeCall \<lparr>dr_topic = ''a'', dr_origin = None, dr_from_head_id = 1, dr_to_head_id = 1\<rparr>),
      Serve 2 demo_env (PublishCall \<lparr>pr_topic = ''a'', pr_origin = None, pr_payload = [2], pr_headers = fmempty\<rparr>)]"

definition demo_exchange :: "cluster_event list" where
  "demo_exchange = map (\<lambda>j. Pull 0 j (\<lambda>_. demo_env)) [1..<3] @ map (\<lambda>j. Pull j 0 (\<lambda>_. demo_env)) [1..<3]"

lemma demo_cluster_ok: "cluster_ok demo_cluster 3"
proof -
  have "\<forall>i \<in> set [0..<3]. valid_node (cl_node demo_cluster i) \<and> slash_free (cl_node demo_cluster i)"
    "distinct (map (cl_node demo_cluster) [0..<3])" by code_simp+
  then show ?thesis by (simp add: cluster_ok_def distinct_map lessThan_atLeast0 del: upt_rec_numeral)
qed

theorem cluster_converges_witness:
  "(let g = cluster_run demo_cluster demo_traffic (\<lambda>_. \<lparr>sv_store = redb_empty demo_redb, sv_published = []\<rparr>);
        g' = cluster_run demo_cluster demo_exchange g
    in same_logs (redb_view demo_redb (sv_store (g' 0))) (redb_view demo_redb (sv_store (g' 2)))
      \<and> subsumes (redb_view demo_redb (sv_store (g' 0))) (redb_view demo_redb (sv_store (g 2))))"
  unfolding Let_def demo_exchange_def
proof (rule cluster_converges [where es = demo_traffic, OF demo_backends(2) _ _ demo_cluster_ok _ _ _ _ refl refl])
  have "valid_part ''u''" by code_simp
  then show "list_all (event_ok 3) demo_traffic" by (simp add: demo_traffic_def)
qed (simp_all add: demo_cluster_def demo_redb_def demo_traffic_def)

section \<open>Types\<close>

text \<open>
  C0. A daemon never holds nor sends anything ill-formed: whatever requests, peers, failures and signals
  there are after a start on an empty redb database, every message that the daemon serves or broadcasts is
  one that the receiver's validation accepts, and reading its envelope gives that message back.
\<close>

theorem daemon_traffic_well_formed:
  assumes P: "redb_backend P" and x: "svc_store (run_service x) = redb_store P" "valid_node (svc_node (run_service x))"
    and start: "run_server x = \<lparr>sv_store = redb_empty P, sv_published = []\<rparr>"
    and run: "daemon_steps S x n (daemon_begin x) d" "n < 2 ^ 64"
  shows "(\<forall>w r ms e. srv_fetch (run_service x) w r (ds_server d) = Inr ms \<longrightarrow> e \<in> set ms \<longrightarrow>
      (\<exists>m. e = Some (proto_message m) \<and> core_message (proto_message m) = Inr m))
    \<and> (\<forall>m \<in> set (sv_published (ds_server d)). core_message (proto_message m) = Inr m)"
proof -
  note contract = redb_contracts(1) [OF P]
  have d: "redb_inv P (sv_store (ds_server d))" "well_typed (redb_view P (sv_store (ds_server d)))"
    "all_stored (redb_view P (sv_store (ds_server d))) (ds_outstanding d)"
    using msgbus_contract.daemon_steps_keep [OF contract run(1) x] run(2)
    by (simp_all add: daemon_begin_def start redb_inv_fresh [OF P] redb_view_fresh [OF P] empty_view_def head_of_def well_typed_def
        all_stored_def ds_outstanding_def outstanding_def)
  have "\<exists>m. e = Some (proto_message m) \<and> sendable m"
    if fetch: "srv_fetch (run_service x) w r (ds_server d) = Inr es" "e \<in> set es" for w r es e
  proof -
    from fetch(1) obtain q ms where q: "st_fetch_messages (redb_store P) w q (sv_store (ds_server d)) = Inr ms"
      "es = map (\<lambda>m. Some (proto_message m)) ms"
      by (auto simp: srv_fetch_def x(1) and_then_eq_Inr split: option.splits)
    with fetch(2) obtain m where m: "m \<in> set ms" "e = Some (proto_message m)" by auto
    have "v_msg (redb_view P (sv_store (ds_server d))) (log_of (fq_topic q) (fq_origin q), sm_head_id m) = Some m"
      using spec_fetch_stored(1) [OF redb_inv_wf [OF d(1)]] m(1) msgbus_contract.fetch_ok [OF contract d(1) q(1)] by blast
    with d(2) m(2) show ?thesis unfolding well_typed_def by blast
  qed
  moreover have "sendable m" if "m \<in> set (sv_published (ds_server d))" for m
  proof -
    have "m \<in> set (ds_outstanding d)" using that by (simp add: ds_outstanding_def outstanding_def)
    with d(3) obtain m' where "v_msg (redb_view P (sv_store (ds_server d))) (message_log m, sm_head_id m) = Some m'" "evolved m m'"
      unfolding all_stored_def by blast
    with d(2) show ?thesis unfolding well_typed_def using sendable_evolved by blast
  qed
  ultimately show ?thesis by (simp add: core_message_Inr)
qed

text \<open>A daemon on an empty database, and what it is after a publish request and a signal.\<close>

definition demo_running :: "demo_tables running" where
  "demo_running = \<lparr>run_service = \<lparr>svc_store = redb_store demo_redb, svc_node = demo_node\<rparr>,
     run_server = \<lparr>sv_store = redb_empty demo_redb, sv_published = []\<rparr>, run_sync = None, run_tls = None\<rparr>"

definition demo_request :: rpc_call where
  "demo_request = PublishCall \<lparr>pr_topic = ''a'', pr_origin = None, pr_payload = [1], pr_headers = fmempty\<rparr>"

definition demo_drained :: "demo_tables daemon_state" where
  "demo_drained = daemon_begin demo_running
     \<lparr>ds_phase := Draining, ds_server := after_rpc (run_service demo_running) demo_env demo_request (run_server demo_running)\<rparr>"

lemma demo_drained: "daemon_steps S demo_running 2 (daemon_begin demo_running) demo_drained"
proof -
  let ?d = "daemon_begin demo_running
    \<lparr>ds_server := after_rpc (run_service demo_running) demo_env demo_request (run_server demo_running)\<rparr>"
  have "valid_part ''u''" by code_simp
  then have "daemon_step S demo_running (daemon_begin demo_running) ?d"
    using daemon_step.request [of "daemon_begin demo_running" demo_env S demo_running demo_request] by (simp add: daemon_begin_def)
  moreover have "daemon_step S demo_running ?d demo_drained"
    using daemon_step.signal [of ?d S demo_running] by (simp add: daemon_begin_def demo_drained_def)
  ultimately show ?thesis by (auto simp: numeral_2_eq_2)
qed

theorem daemon_traffic_well_formed_witness:
  "(\<forall>w r ms e. srv_fetch (run_service demo_running) w r (ds_server demo_drained) = Inr ms \<longrightarrow> e \<in> set ms \<longrightarrow>
      (\<exists>m. e = Some (proto_message m) \<and> core_message (proto_message m) = Inr m))
    \<and> (\<forall>m \<in> set (sv_published (ds_server demo_drained)). core_message (proto_message m) = Inr m)"
proof (rule daemon_traffic_well_formed [OF demo_backends(2) _ _ _ demo_drained])
  show "valid_node (svc_node (run_service demo_running))" by code_simp
qed (simp_all add: demo_running_def)

section \<open>The sync task as actions\<close>

text \<open>
  C0. The sync task refines a small set of actions: any run of the task on the store of a daemon, over any
  transport, with any peers, answers and failures, is a sequence of steps of the daemon that record
  the state of a peer, store a message that passed validation, apply a stored control message, or broadcast
  the message stored last; so what holds of those steps holds of the task.
\<close>

theorem sync_task_refines_steps:
  assumes "peer_sync_task p T config events y = (y', ended)" "sp_store p = svc_store (run_service x)" "run_sync x \<noteq> None"
    and "ds_phase d \<noteq> Stopped" "ds_server d = sync_server y"
  shows "\<exists>unsent. (daemon_step (sp_serde p) x)\<^sup>*\<^sup>* d (d\<lparr>ds_server := sync_server y', ds_unsent := unsent\<rparr>)"
  using sync_task_daemon [OF assms] .

theorem sync_task_refines_steps_witness:
  "\<exists>unsent. (daemon_step byte_serde (demo_running\<lparr>run_sync := Some demo_config\<rparr>))\<^sup>*\<^sup>* (daemon_begin demo_running)
     (daemon_begin demo_running\<lparr>ds_server := sync_server (fst (peer_sync_task demo_params demo_transport demo_config [Tick, Shutdown True] demo_sync)),
        ds_unsent := unsent\<rparr>)"
  using sync_task_refines_steps [of demo_params demo_transport demo_config "[Tick, Shutdown True]" demo_sync _ _
      "demo_running\<lparr>run_sync := Some demo_config\<rparr>" "daemon_begin demo_running", OF surjective_pairing]
  by (simp add: demo_params_def demo_running_def daemon_begin_def demo_sync_def sync_server_def)

section \<open>A delete marker that is not applied\<close>

lemma sync_head_current:
  assumes "local_head_of p head (fst yc) = (y, Inr h)" "th_head_id head \<le> h"
  shows "sync_head p peer head limit yc
    = locally (record_peer_sync_success p peer (Some (th_topic head)) (Some (th_origin head)) h (th_head_id head) h) (y, snd yc)"
proof -
  have "sync_log p peer head limit h z = (z, Inr h)" for z using assms(2) by (subst sync_log.simps) (simp add: leD)
  moreover have "locally (local_head_of p head) yc = ((y, snd yc), Inr h)" using assms(1) by (simp add: locally_def)
  ultimately show ?thesis using assms(2) by (simp add: sync_head_def)
qed

text \<open>The log of the peer's delete marker, and a store that fails once, when the marker is applied.\<close>

definition marker_head :: topic_head where
  "marker_head = \<lparr>th_topic = Topic delete_topic, th_origin = demo_node, th_head_id = 1\<rparr>"

definition failing_params :: "(sqlite_db, sqlite_db remote, unit) sync_params" where
  "failing_params = demo_sqlite_params\<lparr>sp_env := (\<lambda>i. if i = 1 then demo_env\<lparr>fault := (\<lambda>_. Some ''disk I/O error'')\<rparr> else demo_env)\<rparr>"

text \<open>The local daemon holds a copy of a message that its peer has deleted, and then the peer's marker too.\<close>

definition copied_sync :: "sqlite_db sync_state" where
  "copied_sync = \<lparr>sy_store = demo_db, sy_published = [], sy_calls = 0\<rparr>"

definition failed_sync :: "sqlite_db sync_state" where
  "failed_sync =
     \<lparr>sy_store =
        \<lparr>heads = [\<lparr>h_topic = ''a'', h_origin_key = ''t/b/d'', h_head_id = 1\<rparr>,
                  \<lparr>h_topic = delete_topic, h_origin_key = ''t/b/d'', h_head_id = 1\<rparr>],
         messages = [\<lparr>m_topic = ''a'', m_origin_key = ''t/b/d'', m_origin_json = [1, 116, 0, 1, 98, 0, 1, 100, 0], m_head_id = 1,
                      m_id = ''m1'', m_payload = [1, 2], m_headers_json = [0], m_created_at_ms = 7, m_deleted = False\<rparr>,
                     \<lparr>m_topic = delete_topic, m_origin_key = ''t/b/d'', m_origin_json = [1, 116, 0, 1, 98, 0, 1, 100, 0], m_head_id = 1,
                      m_id = ''u'', m_payload = [1, 97, 0, 1, 116, 0, 1, 98, 0, 1, 100, 0, 2, 0, 2, 0, 2, 2, 2, 0],
                      m_headers_json = [0], m_created_at_ms = 7, m_deleted = False\<rparr>],
         tombstones = [], fifo_sequences = [], fifo_messages = [], peer_sync_states = []\<rparr>,
      sy_published = [], sy_calls = 2\<rparr>"

text \<open>The deletion marks of the messages, and the number of markers.\<close>

definition deletions :: "sqlite_db \<Rightarrow> (bool list \<times> nat) res" where
  "deletions db =
     and_then (sqlite_fetch_messages demo_sqlite demo_env \<lparr>fq_topic = Topic ''a'', fq_origin = demo_node, fq_from_head_id = 1, fq_limit = 10\<rparr> db) (\<lambda>ms.
     and_then (sqlite_fetch_messages demo_sqlite demo_env \<lparr>fq_topic = Topic delete_topic, fq_origin = demo_node, fq_from_head_id = 1, fq_limit = 10\<rparr> db) (\<lambda>markers.
     Inr (map sm_deleted ms, length markers)))"

text \<open>
  C0. A delete marker whose application fails once is skipped from then on: the marker is stored
  before it is applied, so the pass that fails leaves it in the store, and the next pass finds nothing
  missing in its log and succeeds, while the message that the peer has deleted stays readable here.
  Only the replay at the next start applies the marker.
\<close>

theorem failed_marker_is_skipped:
  "fst (fst (sync_batch failing_params demo_peer marker_head 100 0 (copied_sync, (demo_remote, 0)))) = failed_sync
   \<and> (\<exists>yc. sync_head failing_params demo_peer marker_head 100 (failed_sync, (demo_remote, 0)) = (yc, Inr ())
    \<and> deletions (sy_store (fst yc)) = Inr ([False], 1) \<and> deletions (sv_store (fst (snd yc))) = Inr ([True], 1)
    \<and> map_option (\<lambda>((_, db), _). deletions db) (replay_control_messages byte_serde (sqlite_store demo_sqlite) (\<lambda>_. demo_env) (sy_store (fst yc)))
        = Some (Inr ([True], 1)))"
proof
  show "fst (fst (sync_batch failing_params demo_peer marker_head 100 0 (copied_sync, (demo_remote, 0)))) = failed_sync" by code_simp
next
  define y where "y = fst (local_head_of failing_params marker_head failed_sync)"
  have "snd (local_head_of failing_params marker_head failed_sync) = Inr 1" "th_head_id marker_head \<le> 1" by code_simp+
  then have head: "sync_head failing_params demo_peer marker_head 100 (failed_sync, (demo_remote, 0))
    = locally (record_peer_sync_success failing_params demo_peer (Some (Topic delete_topic)) (Some demo_node) 1 1 1) (y, (demo_remote, 0))"
    using sync_head_current [of failing_params marker_head "(failed_sync, (demo_remote, 0))" y 1]
    by (simp add: y_def prod_eq_iff marker_head_def)
  let ?r = "record_peer_sync_success failing_params demo_peer (Some (Topic delete_topic)) (Some demo_node) 1 1 1 y"
  have "snd ?r = Inr ()" "deletions (sy_store (fst ?r)) = Inr ([False], 1)" "deletions (sv_store demo_remote) = Inr ([True], 1)"
    "map_option (\<lambda>((_, db), _). deletions db) (replay_control_messages byte_serde (sqlite_store demo_sqlite) (\<lambda>_. demo_env) (sy_store (fst ?r)))
      = Some (Inr ([True], 1))"
    unfolding y_def by code_simp+
  then show "\<exists>yc. sync_head failing_params demo_peer marker_head 100 (failed_sync, (demo_remote, 0)) = (yc, Inr ())
    \<and> deletions (sy_store (fst yc)) = Inr ([False], 1) \<and> deletions (sv_store (fst (snd yc))) = Inr ([True], 1)
    \<and> map_option (\<lambda>((_, db), _). deletions db) (replay_control_messages byte_serde (sqlite_store demo_sqlite) (\<lambda>_. demo_env) (sy_store (fst yc)))
        = Some (Inr ([True], 1))"
    unfolding head by (intro exI [of _ "(fst ?r, (demo_remote, 0))"] conjI) (simp_all add: locally_def case_prod_beta prod_eq_iff)
qed

end
