(* ===== verification/Spec2Isabelle.thy ===== *)
theory Spec2Isabelle
  imports Store_Properties System_Properties
begin

text \<open>
  A verification development of \<^emph>\<open>msgbus\<close>, a local-first message bus: a daemon that keeps
  append-only logs of messages and FIFO queues in an embedded database, serves them over gRPC and copies
  logs between daemons.

  \<^bold>\<open>The program and its parts.\<close> A message belongs to the log of its topic and the node that
  published it, and the node's daemon numbers it with the next \<^emph>\<open>head\<close> of that log. Deleting is
  marking: a tombstone covers a range of heads, and a delete marker on the topic \<open>$msgbus.delete\<close>
  carries the tombstone to other daemons. The store trait of \<open>msgbus-core\<close> has two backends, SQLite and redb.
  The gRPC service of \<open>msgbus-server\<close> writes only the logs of its own node, and broadcasts what it
  stored to the subscription tasks. The sync task fetches from the peers what is missing locally. Two
  SDKs, in Rust and in Go, wrap the generated client.

  \<^bold>\<open>Theories and sources\<close> (below \<open>src/\<close>):

  \<^item> \<open>Msgbus_Prelude\<close>: results (\<open>'a res\<close> with \<open>and_then\<close> for the \<open>?\<close> operator), saturating
    arithmetic on \<open>u64\<close> as \<open>64 word\<close>, decimal strings, prefixes and sorted lists.
  \<^item> \<open>Msgbus_Core\<close>: \<open>crates/msgbus-core/src/lib.rs\<close>; the domain types, their validation and the node keys.
    A string is its UTF-8 bytes.
  \<^item> \<open>Store_Interface\<close>: the trait \<open>MsgbusStore\<close> as the record \<open>msgbus_store\<close>, the environment of a call
    (clock, fresh identifier, which interaction with the engine fails) and the abstract store
    \<open>store_view\<close> with one \<open>spec_\<close> operation per method. \<open>Store_Laws\<close> has the well-formedness of the
    abstract store and the contract of a backend, the locale \<open>msgbus_contract\<close>; \<open>Store_Run\<close> has
    sequences of calls, the locale \<open>live_contract\<close> (calls succeed) and the agreement of two backends;
    \<open>Store_History\<close> and \<open>Store_Queues\<close> have what the abstract operations never lose and the queues as lists.
  \<^item> \<open>Sqlite_Store\<close>: \<open>crates/msgbus-store-sqlite/src/lib.rs\<close>; a table is a list of rows, a statement a
    list operation, and a transaction that fails gives the old tables back. \<open>Sqlite_Refine\<close> and
    \<open>Sqlite_Live\<close> interpret the two contracts for it.
  \<^item> \<open>Redb_Table\<close>, \<open>Redb_Store\<close>: \<open>crates/msgbus-store-redb/src/lib.rs\<close> over ordered tables and a key encoding
    with the documented behaviour of their libraries (locales \<open>ordered_table\<close> and \<open>key_encoding\<close>).
    \<open>Redb_Refine\<close> and \<open>Redb_Live\<close> interpret the contracts.
  \<^item> \<open>Serde_Interface\<close>: what the backends rely on of \<open>serde_json\<close> (locale \<open>serde_codec\<close>: decoding
    inverts encoding). \<open>Byte_Codec\<close> is a codec, a table and a key encoding that satisfy these laws, for the examples.
  \<^item> \<open>Server_Proto\<close>: \<open>proto/msgbus/v1/msgbus.proto\<close> and the conversions of
    \<open>crates/msgbus-server/src/lib.rs\<close>. \<open>Server_Service\<close>: every handler of that file and the replay of
    control messages. \<open>Server_Laws\<close> and \<open>Server_Control\<close>: what requests and the replay do to a store
    that keeps the contract. \<open>Subscription\<close>: the task behind \<open>subscribe\<close>, one round at a time, and the
    step relation \<open>sys_step\<close> in which store calls, broadcasts and the task interleave freely.
  \<^item> \<open>Rpc_Client\<close>: the generated client stub as a parameter, and \<open>loopback\<close>, a stub connected to a
    server of this development.
  \<^item> \<open>Peer_Sync\<close>: \<open>crates/msgbus-server/src/sync.rs\<close>. \<open>Sync_Laws\<close>: it never damages the local store,
    whatever a peer sends. \<open>Sync_Converge\<close> and \<open>Sync_Pass\<close>: it catches up (locale \<open>sync_pair\<close>: a local
    store and a peer's store that both are live).
  \<^item> \<open>Sdk\<close>: \<open>crates/msgbus-sdk-rust/src/lib.rs\<close>. \<open>Go_Sdk\<close>: \<open>go-sdk/msgbus/client.go\<close>, and that both
    reconnecting subscriptions behave alike. \<open>Client_Laws\<close>: what a client gets from a server.
  \<^item> \<open>Daemon\<close>: \<open>crates/msgbus-server/src/main.rs\<close>; arguments, configuration and start-up.
  \<^item> \<open>Msgbus_Examples\<close>: closed values for the examples.

  \<^bold>\<open>What is shown.\<close> \<open>Store_Properties\<close>: every run of either backend, with failures of the engine
  at any point, is a run of the abstract store and keeps the representation invariant; calls succeed
  when nothing fails and the arguments fit; the backends are interchangeable. \<open>Store_Guarantees\<close>: history
  is kept, deletions last, pages have no gaps, queues are lists, failure counts saturate, keys are
  ordered and injective. \<open>Server_Properties\<close>: requests stay in the node's own logs and are guarded,
  subscriptions are ordered under every interleaving and complete when requests are serial, and the
  replay of control messages ends. \<open>Sync_Properties\<close>: a pass converges, is safe against any peer, checks
  identities and makes a bounded number of requests. This theory: clients and servers together,
  subscriptions across reconnects, and start-up. Theorems without hypotheses that evaluate a run record
  where the program does something a reader of its documentation would not expect.

  \<^bold>\<open>Loops.\<close> Loops over data are structural recursion. \<open>sync_log\<close> is a function with a termination
  proof: it continues only while the local head rises. \<open>replay_log\<close>, \<open>next_message\<close>, \<open>go_recv\<close> and
  \<open>go_wait_ready\<close> may run forever and are partial functions whose value is \<open>None\<close> then; that the replay
  returns, and that \<open>next_message\<close> returns on a connection that recovers, are theorems. There is no fuel.

  \<^bold>\<open>Parameters.\<close> The SQL engine and redb appear through the tables they keep and a fault at each interaction;
  \<open>serde_json\<close>, base64 keys, prost, tonic and grpc-go through the named hypotheses above. A clock may
  return any value. Broadcast channels have the documented capacity and lag behaviour of tokio; a
  \<open>select\<close> is an event list.

  \<^bold>\<open>Not modelled.\<close> Parsing of the command line, logging, sockets and sleeping, which do not touch
  the state that the theorems speak about; the end of \<open>serve\<close> in \<open>main.rs\<close>, which waits for a signal and at
  most five seconds for the sync task; requests and sync passes of one daemon interleave only in \<open>sys_step\<close>,
  as store calls; the mutex around the SQLite connection beyond its poisoning;
  the code generated from \<open>msgbus.proto\<close>; the examples, which print what the SDK returns; sharing of one
  Go client between goroutines.
\<close>

declare split_paired_All [simp del] split_paired_Ex [simp del]

section \<open>Clients and servers\<close>

text \<open>
  C18. What a client publishes it can fetch: publishing through the SDK on a daemon over redb succeeds
  when nothing fails, the message gets the next head of the node's log, and fetching one message
  from that head returns the very envelope that the publish returned.
\<close>

theorem publish_then_fetch:
  assumes P: "redb_backend P" "redb_inv P (sv_store sv)" and svc: "svc_store svc = redb_store P" "valid_node (svc_node svc)"
    and ws: "\<forall>i. no_fault (ws i) \<and> valid_part (uuid (ws i))"
    and topic: "valid_part topic" "topic \<noteq> delete_topic"
    and cl: "mc_client cl = (sv, n)" "mc_default_origin cl = None \<or> mc_default_origin cl = Some (proto_node (svc_node svc))"
  shows "\<exists>cl' m cl''. publish_with_headers (loopback svc ws) topic payload headers cl = (cl', Inr m)
    \<and> me_topic m = topic \<and> me_payload m = payload \<and> me_headers m = headers
    \<and> me_head_id m = saturating_add (head_of (redb_view P (sv_store sv)) (topic, node_key (svc_node svc))) 1
    \<and> sdk_fetch (loopback svc ws) topic None (me_head_id m) 1 cl' = (cl'', Inr [m])"
proof -
  let ?r = "\<lparr>pr_topic = topic, pr_origin = mc_default_origin cl, pr_payload = payload, pr_headers = headers\<rparr>"
  let ?l = "log_of (Topic topic) (svc_node svc)"
  have log: "?l = (topic, node_key (svc_node svc))" by (simp add: log_of_def)
  note live = redb_contracts(2) [OF P(1)]
  obtain sv' x where x: "srv_publish svc (ws n) ?r sv = (sv', Inr (Some (proto_message x)))" "redb_inv P (sv_store sv')"
    "spec_append (redb_view P (sv_store sv)) (new_message_new (uuid (ws n)) (Topic topic) (svc_node svc) payload headers) (now (ws n) 0)
      = (redb_view P (sv_store sv'), x)"
    using live_contract.publish_total [OF live svc(1) P(2), of "ws n" ?r] ws topic svc(2) cl(2) by auto
  note stored = spec_append_stored [OF x(3), unfolded new_message_new_def new_message.simps]
  define cl' where "cl' = cl\<lparr>mc_client := (sv', Suc n)\<rparr>"
  have publish: "publish_with_headers (loopback svc ws) topic payload headers cl = (cl', Inr (proto_message x))"
    using x(1) cl(1) by (simp add: publish_with_headers_def call_def loopback_def write_call_def required_def cl'_def)
  let ?f = "\<lparr>fr_topic = topic, fr_origin = or_default None cl', fr_from_head_id = sm_head_id x, fr_limit = 1\<rparr>"
  have "v_msg (redb_view P (sv_store sv')) (?l, sm_head_id x) = Some x" by (rule stored(1))
  with redb_inv_wf [OF x(2)] have one: "max (sm_head_id x) 1 = sm_head_id x"
    by (metis wf_view_gapless option.distinct(1) max.absorb1)
  have "srv_fetch svc (ws (Suc n)) ?f sv' = Inr [Some (proto_message x)]"
    using live_contract.fetch_total [OF live svc(1) x(2), of "ws (Suc n)" ?f] ws topic svc(2) cl(2) one
      spec_fetch_one [OF redb_inv_wf [OF x(2)] stored(1)]
    by (simp add: or_default_def cl'_def)
  then have "sdk_fetch (loopback svc ws) topic None (sm_head_id x) 1 cl' = (cl'\<lparr>mc_client := (sv', Suc (Suc n))\<rparr>, Inr [proto_message x])"
    by (simp add: sdk_fetch_def call_def loopback_def read_call_def cl'_def or_default_def List.map_filter_simps)
  with publish stored log show ?thesis by (simp add: proto_message_def)
qed

theorem publish_then_fetch_witness:
  "\<exists>cl' m cl''. publish_with_headers (loopback demo_redb_service (\<lambda>_. demo_env)) ''a'' [1] fmempty
       \<lparr>mc_client = (\<lparr>sv_store = demo_tables, sv_published = []\<rparr>, 0), mc_default_origin = None\<rparr> = (cl', Inr m)
    \<and> me_topic m = ''a'' \<and> me_payload m = [1] \<and> me_headers m = fmempty
    \<and> me_head_id m = saturating_add (head_of (redb_view demo_redb demo_tables) (''a'', node_key demo_node)) 1
    \<and> sdk_fetch (loopback demo_redb_service (\<lambda>_. demo_env)) ''a'' None (me_head_id m) 1 cl' = (cl'', Inr [m])"
proof -
  have "valid_part ''a'' \<and> ''a'' \<noteq> delete_topic \<and> valid_node demo_node \<and> valid_part ''u''" by code_simp
  then show ?thesis
    using publish_then_fetch [OF demo_backends(2), of "\<lparr>sv_store = demo_tables, sv_published = []\<rparr>" demo_redb_service "\<lambda>_. demo_env" "''a''"
        "\<lparr>mc_client = (\<lparr>sv_store = demo_tables, sv_published = []\<rparr>, 0), mc_default_origin = None\<rparr>" 0 "[1]" fmempty]
      demo_tables(1)
    by (simp add: demo_redb_service_def)
qed

section \<open>Subscriptions across reconnects\<close>

text \<open>
  A stub whose first attempt to subscribe is refused and whose streams end after two messages. With
  \<open>ends\<close> it delivers no message with the largest head.
\<close>

definition demo_envelope :: "u64 \<Rightarrow> message_envelope" where
  "demo_envelope h = \<lparr>me_id = ''m'', me_topic = ''a'', me_origin = None, me_head_id = h, me_payload = [], me_headers = fmempty,
     me_created_at_ms = 0, me_deleted = False\<rparr>"

definition demo_stub :: "bool \<Rightarrow> (nat, u64 \<times> nat) rpc_client" where
  "demo_stub ends =
     \<lparr>rc_publish = \<lambda>_ c. (c, Inl (status Unimplemented [])), rc_fetch = \<lambda>_ c. (c, Inl (status Unimplemented [])),
      rc_subscribe = \<lambda>r c. (Suc c, if even c then Inl (status Unavailable []) else Inr (max (sr_from_head_id r) 1, 2)),
      rc_message = \<lambda>(h, k) c. if k = 0 \<or> ends \<and> h = - 1 then ((c, (h, k)), Inr None)
        else ((c, (saturating_add h 1, k - 1)), Inr (Some (Some (demo_envelope h)))),
      rc_get_head = \<lambda>_ c. (c, Inl (status Unimplemented [])), rc_list_heads = \<lambda>c. (c, Inl (status Unimplemented [])),
      rc_list_peer_sync_states = \<lambda>c. (c, Inl (status Unimplemented [])),
      rc_delete_range = \<lambda>_ c. (c, Inl (status Unimplemented [])), rc_enqueue_fifo = \<lambda>_ c. (c, Inl (status Unimplemented [])),
      rc_peek_fifo = \<lambda>_ c. (c, Inl (status Unimplemented [])), rc_ack_fifo = \<lambda>_ c. (c, Inl (status Unimplemented [])),
      rc_reject_fifo = \<lambda>_ c. (c, Inl (status Unimplemented [])), rc_health = \<lambda>c. (c, Inl (status Unimplemented [])),
      rc_ready = \<lambda>c. (c, Inl (status Unimplemented []))\<rparr>"

definition demo_client :: "nat msgbus_client" where
  "demo_client = \<lparr>mc_client = 0, mc_default_origin = None\<rparr>"


lemma demo_stub_stream: "stream_contract (demo_stub ends) fst"
  by (auto simp: stream_contract_def demo_stub_def demo_envelope_def split: if_splits)

definition demo_distance :: "(nat, u64 \<times> nat) resilient_subscription \<Rightarrow> nat" where
  "demo_distance rs =
     (case rsub_stream rs of
        Some (h, k) \<Rightarrow> if k = 0 then 2 else 0
      | None \<Rightarrow> if even (rsub_client rs) then 1 else 0)"

lemma demo_stub_recovers: "recovers (demo_stub False) demo_distance"
  by (auto simp: recovers_def next_attempt_def open_stream_def poll_stream_def demo_stub_def demo_distance_def status_def
      required_def split: attempt.split option.split prod.split)


text \<open>
  C21. The Go and the Rust SDK agree: over the same connection, with the same origin, start and replay
  limit, the iterator of the one and the reconnecting subscription of the other return the same messages,
  through the same failures and reconnects, for any number of requests.
\<close>

theorem sdks_agree:
  assumes "undisturbed G" "below_last_head rc" "limit \<noteq> 0"
    and "gc_conn gc = mc_client cl" "gc_default_origin gc = mc_default_origin cl"
  shows "go_messages G rc n (subscribe_iterator None topic
      \<lparr>go_origin = origin, go_from_head_id = from_head_id, go_replay_limit = limit, go_reconnect_delay = delay'\<rparr> gc)
    = next_messages rc n (subscribe_reconnecting_with_options topic
      \<lparr>so_origin = origin, so_from_head_id = from_head_id, so_replay_limit = limit, so_reconnect_delay_ms = delay\<rparr> cl)"
  by (rule messages_agree [OF assms(1,2) subscribe_same_position [OF assms(4,5,3)]])

definition demo_grpc :: "(unit, nat) go_grpc" where
  "demo_grpc = \<lparr>grpc_insecure = (), grpc_new_client = \<lambda>_ _. Inr 0, grpc_connect = \<lambda>c. c, grpc_get_state = \<lambda>_. ConnReady,
     grpc_wait_for_state_change = \<lambda>_ _ c. (c, True), grpc_close = \<lambda>c. (c, None), go_select_timer = \<lambda>_ _ c. (c, True)\<rparr>"

theorem sdks_agree_witness:
  "go_messages demo_grpc (demo_stub True) 5 (subscribe_iterator None ''a''
      \<lparr>go_origin = None, go_from_head_id = 0, go_replay_limit = 10, go_reconnect_delay = 0\<rparr> \<lparr>gc_conn = 0, gc_default_origin = None\<rparr>)
    = next_messages (demo_stub True) 5 (subscribe_reconnecting_with_options ''a''
      \<lparr>so_origin = None, so_from_head_id = 0, so_replay_limit = 10, so_reconnect_delay_ms = 250\<rparr> demo_client)"
proof (rule sdks_agree)
  show "undisturbed demo_grpc" by (simp add: undisturbed_def demo_grpc_def)
  show "below_last_head (demo_stub True)"
    by (auto simp: below_last_head_def demo_stub_def demo_envelope_def split: if_splits)
qed (simp_all add: demo_client_def)

text \<open>
  C27. The server and the clients agree on what to retry: no error that a request is answered with is one
  the SDK retries on its own, and the error with which a subscription ends when it lagged behind is.
\<close>

theorem handler_errors_are_final:
  shows "(rpc_failure svc w c sv = Some s \<longrightarrow> \<not> retryable_status (status_code s))
    \<and> (Inl s' \<in> set (sub_sent (sub_round lag_text published sub)) \<longrightarrow> Inl s' \<notin> set (sub_sent sub) \<longrightarrow> retryable_status (status_code s'))"
  using handler_code_final [OF rpc_failure_code] sub_round_failure by blast

definition demo_lagging :: subscription where
  "demo_lagging = spawn_subscription \<lparr>ss_topic = Topic ''a'', ss_origin = demo_node, ss_from_head_id = 1, ss_position = 0, ss_replay = []\<rparr>"

theorem handler_errors_are_final_witness:
  "rpc_failure demo_service demo_env (PeekFifoCall ''q'') demo_server = Some (status CNotFound ''fifo queue is empty'')
   \<and> \<not> retryable_status CNotFound
   \<and> (\<exists>s. Inl s \<in> set (sub_sent (sub_round (\<lambda>_. []) (replicate 1025 (stamp demo_message 1 7)) demo_lagging)) \<and> retryable_status (status_code s))"
proof -
  have empty: "rpc_failure demo_service demo_env (PeekFifoCall ''q'') demo_server = Some (status CNotFound ''fifo queue is empty'')"
    by code_simp
  have lag: "Inl (status Unavailable ''subscription lagged: '') \<in> set (sub_sent (sub_round (\<lambda>_. []) (replicate 1025 (stamp demo_message 1 7)) demo_lagging))"
    "Inl (status Unavailable ''subscription lagged: '') \<notin> set (sub_sent demo_lagging)"
    by (simp_all add: sub_round_def demo_lagging_def spawn_subscription_def published_capacity_def tx_send_def)
  from handler_errors_are_final [of demo_service demo_env "PeekFifoCall ''q''" demo_server _ "status Unavailable ''subscription lagged: ''"
      "\<lambda>_. []" "replicate 1025 (stamp demo_message 1 7)" demo_lagging] empty lag
  show ?thesis by (auto simp: status_def)
qed

text \<open>
  The two SDKs differ at the largest head: the Rust subscription stays there, and the iterator's resume
  point wraps around, so that after a reconnect it delivers the log from the start again.
\<close>

lemma go_resume_wraps:
  "map_option (\<lambda>(it, r). (map_err (\<lambda>_. ()) (and_then r (\<lambda>m. Inr (me_head_id m))),
       go_from_head_id (default_subscribe_options (it_client it) (it_options it))))
     (go_recv demo_grpc (demo_stub False) (subscribe_iterator None ''a''
        \<lparr>go_origin = None, go_from_head_id = - 1, go_replay_limit = 10, go_reconnect_delay = 0\<rparr> \<lparr>gc_conn = 0, gc_default_origin = None\<rparr>))
   = Some (Inr (- 1), 1)"
  by code_simp

section \<open>The daemon\<close>

lemma redb_empty_heads: "redb_backend P \<Longrightarrow> v_head (redb_view P (redb_empty P)) = Map.empty"
  by (simp add: redb_view_def redb_empty_def fun_eq_iff redb_backend_def ordered_table.get_empty)

lemma redb_empty_head: "redb_backend P \<Longrightarrow> head_of (redb_view P (redb_empty P)) l = 0"
  by (simp add: head_of_def redb_empty_heads del: redb_view_sel)

definition sqlite_file :: "('b, 'u) daemon_env \<Rightarrow> args \<Rightarrow> sqlite_db" where
  "sqlite_file e a = (case denv_sqlite_file e (arg_data a) of None \<Rightarrow> empty_db | Some db \<Rightarrow> db)"

definition redb_file :: "('b, 'u) daemon_env \<Rightarrow> args \<Rightarrow> ('b, 'u) redb_db" where
  "redb_file e a = (case denv_redb_file e (arg_data a) of None \<Rightarrow> redb_empty (denv_redb e) | Some db \<Rightarrow> db)"

lemma daemon_on_sqlite:
  assumes P: "sqlite_backend (denv_sqlite e)" and inv: "sqlite_inv (denv_sqlite e) (sqlite_file e a)"
    and config: "daemon_config (denv_read e) a = Inr (sync, tls)" and storage: "arg_storage a = Sqlite"
  shows "\<exists>r. daemon_main e a = Some r \<and> (\<forall>x. r \<noteq> Inr (OnRedb x))
    \<and> (\<forall>x. r = Inr (OnSqlite x) \<longrightarrow> started (denv_serde e) (sqlite_store (denv_sqlite e)) (sqlite_inv (denv_sqlite e))
         (sqlite_view (denv_sqlite e)) (sqlite_file e a) x)
    \<and> (fresh_start e a \<longrightarrow> (\<exists>d. r = Inr d))"
proof -
  have room: "head_of (sqlite_view (denv_sqlite e) (sqlite_file e a)) l \<noteq> - 1" for l
    using sqlite_heads_small [OF inv, of l] by (auto simp: unsigned_minus_1_eq_mask mask_eq_exp_minus_1)
  have fresh: "v_head (sqlite_view (denv_sqlite e) (sqlite_file e a)) = Map.empty" if "denv_sqlite_file e (arg_data a) = None"
    using that by (simp add: sqlite_file_def sqlite_view_empty empty_view_def)
  note opened = sqlite_open_cases [of "denv_open e" "denv_sqlite_file e (arg_data a)", folded sqlite_file_def]
  from live_contract.boot_returns [where wrap = OnSqlite and S = "denv_serde e" and ws = "denv_replay e" and refused = "denv_refused e",
      OF sqlite_contracts(2) [OF P] inv room config daemon.inject(2) [THEN iffD1] opened]
  show ?thesis
    using config storage fresh unfolding daemon_main_def fresh_start_def by (auto split: sum.splits)
qed

lemma daemon_on_redb:
  assumes P: "redb_backend (denv_redb e)" and inv: "redb_inv (denv_redb e) (redb_file e a)"
    and room: "\<And>l. head_of (redb_view (denv_redb e) (redb_file e a)) l \<noteq> - 1"
    and config: "daemon_config (denv_read e) a = Inr (sync, tls)" and storage: "arg_storage a = Redb"
  shows "\<exists>r. daemon_main e a = Some r \<and> (\<forall>x. r \<noteq> Inr (OnSqlite x))
    \<and> (\<forall>x. r = Inr (OnRedb x) \<longrightarrow> started (denv_serde e) (redb_store (denv_redb e)) (redb_inv (denv_redb e))
         (redb_view (denv_redb e)) (redb_file e a) x)
    \<and> (fresh_start e a \<longrightarrow> (\<exists>d. r = Inr d))"
proof -
  have fresh: "v_head (redb_view (denv_redb e) (redb_file e a)) = Map.empty" if "denv_redb_file e (arg_data a) = None"
    using that P by (simp add: redb_file_def redb_empty_heads)
  note opened = redb_open_cases [of "denv_redb e" "denv_open e" "denv_redb_file e (arg_data a)", folded redb_file_def]
  from live_contract.boot_returns [where wrap = OnRedb and S = "denv_serde e" and ws = "denv_replay e" and refused = "denv_refused e",
      OF redb_contracts(2) [OF P] inv room config daemon.inject(1) [THEN iffD1] opened]
  show ?thesis
    using config storage fresh unfolding daemon_main_def fresh_start_def by (auto split: sum.splits)
qed

text \<open>
  C20. Starting the daemon always returns, with either backend, whatever the database holds and whichever
  calls fail; a daemon that comes up serves the configured node on a sound database that lost nothing and
  in which every delete marker is in force. On a fresh database, when nothing fails and the
  arguments are accepted, it does come up.
\<close>

theorem daemon_start_returns:
  assumes P: "sqlite_backend (denv_sqlite e)" "redb_backend (denv_redb e)"
    and sqlite: "\<forall>db. denv_sqlite_file e (arg_data a) = Some db \<longrightarrow> sqlite_inv (denv_sqlite e) db"
    and redb: "\<forall>db. denv_redb_file e (arg_data a) = Some db \<longrightarrow>
      redb_inv (denv_redb e) db \<and> (\<forall>l. head_of (redb_view (denv_redb e) db) l \<noteq> - 1)"
  shows "\<exists>r. daemon_main e a = Some r
    \<and> (\<forall>x. r = Inr (OnSqlite x) \<longrightarrow> started (denv_serde e) (sqlite_store (denv_sqlite e)) (sqlite_inv (denv_sqlite e))
         (sqlite_view (denv_sqlite e)) (sqlite_file e a) x)
    \<and> (\<forall>x. r = Inr (OnRedb x) \<longrightarrow> started (denv_serde e) (redb_store (denv_redb e)) (redb_inv (denv_redb e))
         (redb_view (denv_redb e)) (redb_file e a) x)
    \<and> (fresh_start e a \<longrightarrow> (\<exists>d. r = Inr d))"
proof (cases "daemon_config (denv_read e) a")
  case (Inl err)
  then show ?thesis by (simp add: daemon_main_def fresh_start_def)
next
  case (Inr config)
  then obtain sync tls where config: "daemon_config (denv_read e) a = Inr (sync, tls)" by (metis surj_pair)
  show ?thesis
  proof (cases "arg_storage a")
    case Sqlite
    have "sqlite_inv (denv_sqlite e) (sqlite_file e a)"
      using sqlite sqlite_inv_empty by (auto simp: sqlite_file_def split: option.split)
    from daemon_on_sqlite [OF P(1) this config Sqlite] show ?thesis by blast
  next
    case Redb
    have "redb_inv (denv_redb e) (redb_file e a)" "head_of (redb_view (denv_redb e) (redb_file e a)) l \<noteq> - 1" for l
      using redb redb_inv_fresh [OF P(2)] by (auto simp: redb_file_def redb_empty_head [OF P(2)] split: option.split)
    from daemon_on_redb [OF P(2) this config Redb] show ?thesis by blast
  qed
qed

definition demo_daemon :: "((string \<times> bytes) list, (string \<times> u64) list) daemon_env" where
  "demo_daemon = \<lparr>denv_serde = byte_serde, denv_redb = demo_redb, denv_redb_file = \<lambda>_. None, denv_sqlite = demo_sqlite,
     denv_sqlite_file = \<lambda>_. None, denv_open = demo_env, denv_replay = \<lambda>_. demo_env,
     denv_read = \<lambda>file. Inr (map of_char file), denv_refused = \<lambda>_. None\<rparr>"

lemma demo_fresh:
  assumes "case daemon_config (denv_read demo_daemon) a of Inl _ \<Rightarrow> False | Inr (sync, tls) \<Rightarrow> True"
  shows "fresh_start demo_daemon a"
  using assms by (auto simp: fresh_start_def demo_daemon_def split: sum.splits)

theorem daemon_start_returns_witness: "\<exists>d. daemon_main demo_daemon default_args = Some (Inr d)"
proof -
  have "fresh_start demo_daemon default_args" by (rule demo_fresh) code_simp
  then show ?thesis
    using daemon_start_returns [of demo_daemon default_args] demo_backends by (auto simp: demo_daemon_def)
qed

text \<open>
  C28. Transport security is never dropped silently: a daemon that comes up serves with exactly the
  certificate, key and client authority it was given, or without TLS when it was given none of them, and
  its own certificate and key for peers were given together or not at all.
\<close>

theorem tls_is_never_downgraded:
  assumes "daemon_main e a = Some (Inr d)"
  shows "(case (arg_tls_cert a, arg_tls_key a, arg_tls_client_ca a) of
        (None, None, None) \<Rightarrow> daemon_tls d = None
      | (Some cert, Some key, None) \<Rightarrow>
          (\<exists>c k. denv_read e cert = Inr c \<and> denv_read e key = Inr k
             \<and> daemon_tls d = Some \<lparr>srv_tls_identity = (c, k), srv_tls_client_ca = None\<rparr>)
      | (Some cert, Some key, Some ca) \<Rightarrow>
          (\<exists>c k r. denv_read e cert = Inr c \<and> denv_read e key = Inr k \<and> denv_read e ca = Inr r
             \<and> daemon_tls d = Some \<lparr>srv_tls_identity = (c, k), srv_tls_client_ca = Some r\<rparr>)
      | _ \<Rightarrow> False)
    \<and> (arg_peer_tls_cert a = None \<longleftrightarrow> arg_peer_tls_key a = None)"
  using daemon_main_tls [OF assms] unfolding server_tls_config_Inr by blast

definition demo_tls_args :: args where
  "demo_tls_args = default_args\<lparr>arg_tls_cert := Some ''c'', arg_tls_key := Some ''k''\<rparr>"

theorem tls_is_never_downgraded_witness:
  "\<exists>d. daemon_main demo_daemon demo_tls_args = Some (Inr d)
    \<and> daemon_tls d = Some \<lparr>srv_tls_identity = (map of_char ''c'', map of_char ''k''), srv_tls_client_ca = None\<rparr>"
proof -
  have fresh: "fresh_start demo_daemon demo_tls_args" by (rule demo_fresh) code_simp
  obtain sync tls where config: "daemon_config (denv_read demo_daemon) demo_tls_args = Inr (sync, tls)"
    using fresh by (auto simp: fresh_start_def split: sum.splits)
  have fresh_file: "redb_file demo_daemon demo_tls_args = redb_empty demo_redb" "denv_redb demo_daemon = demo_redb"
    by (simp_all add: redb_file_def demo_daemon_def)
  have "\<exists>d. daemon_main demo_daemon demo_tls_args = Some (Inr d)"
    using daemon_on_redb [of demo_daemon demo_tls_args, unfolded fresh_file, OF demo_backends(2) demo_redb_inv _ config]
      redb_empty_head [OF demo_backends(2)] fresh
    by (auto simp: demo_tls_args_def default_args_def)
  then obtain d where d: "daemon_main demo_daemon demo_tls_args = Some (Inr d)" by blast
  from tls_is_never_downgraded [OF d] d show ?thesis
    by (auto simp: demo_tls_args_def default_args_def demo_daemon_def)
qed


section \<open>Durability\<close>

lemma evolved_envelope:
  "evolved m m' \<Longrightarrow> proto_message m' = proto_message m \<or> proto_message m' = (proto_message m)\<lparr>me_deleted := True\<rparr>"
  by (cases "sm_deleted m'") (auto simp: evolved_def proto_message_def)

text \<open>
  C0. An acknowledged message survives: once a publish request on a daemon over redb was answered with an
  envelope, then after any further requests, actions of the sync task with whatever peers, failures
  and signals, and a restart on the same database as the same node, which always returns, fetching from
  the head of the envelope gives that envelope, unchanged or with a deletion mark.
\<close>

theorem acknowledged_publish_survives:
  assumes P: "redb_backend (denv_redb e)" and x: "svc_store (run_service x) = redb_store (denv_redb e)" "valid_node (svc_node (run_service x))"
    and d: "redb_inv (denv_redb e) (sv_store (ds_server d))"
      "\<forall>l. unat (head_of (redb_view (denv_redb e) (sv_store (ds_server d))) l) + n + 2 < 2 ^ 64"
    and publish: "srv_publish (run_service x) w r (ds_server d) = (sv, Inr (Some m))" "valid_part (uuid w)"
    and run: "daemon_steps S x n (d\<lparr>ds_server := sv\<rparr>) d'"
    and restart: "denv_redb_file e (arg_data a) = Some (sv_store (ds_server d'))" "arg_storage a = Redb"
      "daemon_config (denv_read e) a = Inr (sync, tls)" "cfg_local_node sync = svc_node (run_service x)"
    and w': "no_fault w'"
  shows "\<exists>result. daemon_main e a = Some result \<and> (\<forall>x'. result = Inr (OnRedb x') \<longrightarrow>
    (\<exists>m'. srv_fetch (run_service x') w' \<lparr>fr_topic = me_topic m, fr_origin = None, fr_from_head_id = me_head_id m, fr_limit = 1\<rparr> (run_server x')
        = Inr [Some m'] \<and> (m' = m \<or> m' = m\<lparr>me_deleted := True\<rparr>)))"
proof -
  let ?V = "redb_view (denv_redb e)"
  let ?v = "?V (sv_store (ds_server d))"
  note contract = redb_contracts(1) [OF P] and live = redb_contracts(2) [OF P]
  let ?l = "log_of (Topic (me_topic m)) (svc_node (run_service x))"
  have room: "head_of ?v l \<noteq> - 1" for l
    using d(2) [rule_format, of l] by (auto simp: unsigned_minus_1_eq_mask mask_eq_exp_minus_1)
  have "sv = after_rpc (run_service x) w (PublishCall r) (ds_server d)" using publish(1) by simp
  note step = msgbus_contract.rpc_step [OF contract x(1) publish(2) d(1) room this]
  obtain m0 where m0: "m = proto_message m0" "valid_part (me_topic m)" "v_msg (?V (sv_store sv)) (?l, me_head_id m) = Some m0"
    using msgbus_contract.publish_stored [OF contract x(1) d(1) publish(2,1)] by blast
  have room': "unat (head_of (?V (sv_store sv)) l) + n + 1 < 2 ^ 64" for l using step(3) [of l] d(2) [rule_format, of l] by simp
  then have "unat (head_of (?V (sv_store sv)) l) + n < 2 ^ 64" for l by (metis add_lessD1)
  then have run': "redb_inv (denv_redb e) (sv_store (ds_server d'))" "extends (?V (sv_store sv)) (?V (sv_store (ds_server d')))"
    "unat (head_of (?V (sv_store (ds_server d'))) l) \<le> unat (head_of (?V (sv_store sv)) l) + n" for l
    using msgbus_contract.daemon_steps_keep [OF contract run x] step(1) by simp_all
  have "head_of (?V (redb_file e a)) l \<noteq> - 1" for l
    using run'(3) [of l] room' [of l] restart(1) by (auto simp: redb_file_def unsigned_minus_1_eq_mask mask_eq_exp_minus_1)
  from daemon_on_redb [OF P _ this restart(3,2)] run'(1) restart(1) obtain result where result: "daemon_main e a = Some result"
    "\<And>x'. result = Inr (OnRedb x') \<Longrightarrow> started (denv_serde e) (redb_store (denv_redb e)) (redb_inv (denv_redb e)) ?V (sv_store (ds_server d')) x'"
    by (auto simp: redb_file_def)
  have "\<exists>m'. srv_fetch (run_service x') w' \<lparr>fr_topic = me_topic m, fr_origin = None, fr_from_head_id = me_head_id m, fr_limit = 1\<rparr> (run_server x')
        = Inr [Some m'] \<and> (m' = m \<or> m' = m\<lparr>me_deleted := True\<rparr>)" if x': "result = Inr (OnRedb x')" for x'
  proof -
    from result(2) [OF x'] have s: "svc_store (run_service x') = redb_store (denv_redb e)" "redb_inv (denv_redb e) (sv_store (run_server x'))"
      "extends (?V (sv_store (ds_server d'))) (?V (sv_store (run_server x')))" by (simp_all add: started_def Let_def)
    have node: "svc_node (run_service x') = svc_node (run_service x)" using daemon_main_node [OF _ restart(3)] result(1) x' restart(4) by simp
    obtain m1 where m1: "v_msg (?V (sv_store (run_server x'))) (?l, me_head_id m) = Some m1" "evolved m0 m1"
      using extendsD [OF extends_trans [OF run'(2) s(3)] m0(3)] by blast
    from live_contract.fetch_stored [OF live s(1) _ s(2) w' m0(2), unfolded node, OF x(2) m1(1)] evolved_envelope [OF m1(2)] m0(1)
    show ?thesis by simp
  qed
  with result(1) show ?thesis by blast
qed

text \<open>A daemon that was stopped right after it acknowledged a message, and its restart.\<close>

definition demo_post :: publish_request where
  "demo_post = \<lparr>pr_topic = ''a'', pr_origin = None, pr_payload = [1], pr_headers = fmempty\<rparr>"

definition demo_ack :: message_envelope where
  "demo_ack = \<lparr>me_id = ''u'', me_topic = ''a'', me_origin = Some (proto_node demo_node), me_head_id = 1, me_payload = [1], me_headers = fmempty,
     me_created_at_ms = 7, me_deleted = False\<rparr>"

definition demo_stopped :: "demo_tables daemon_state" where
  "demo_stopped = daemon_begin demo_running
     \<lparr>ds_phase := Stopped, ds_server := fst (srv_publish (run_service demo_running) demo_env demo_post (run_server demo_running))\<rparr>"

definition demo_restart :: "((string \<times> bytes) list, (string \<times> u64) list) daemon_env" where
  "demo_restart = demo_daemon\<lparr>denv_redb_file := (\<lambda>_. Some (sv_store (ds_server demo_stopped)))\<rparr>"

definition demo_args :: args where
  "demo_args = default_args\<lparr>arg_tenant_id := ''t'', arg_bl_name := ''b'', arg_device_id := ''d''\<rparr>"

theorem acknowledged_publish_survives_witness:
  "\<exists>result. daemon_main demo_restart demo_args = Some result \<and> (\<forall>x'. result = Inr (OnRedb x') \<longrightarrow>
    (\<exists>m'. srv_fetch (run_service x') demo_env \<lparr>fr_topic = ''a'', fr_origin = None, fr_from_head_id = 1, fr_limit = 1\<rparr> (run_server x') = Inr [Some m']
        \<and> (m' = demo_ack \<or> m' = demo_ack\<lparr>me_deleted := True\<rparr>)))"
proof -
  let ?sv = "fst (srv_publish (run_service demo_running) demo_env demo_post (run_server demo_running))"
  have "snd (srv_publish (run_service demo_running) demo_env demo_post (run_server demo_running)) = Inr (Some demo_ack)" by code_simp
  then have ack: "srv_publish (run_service demo_running) demo_env demo_post (ds_server (daemon_begin demo_running)) = (?sv, Inr (Some demo_ack))"
    by (simp add: prod_eq_iff daemon_begin_def)
  have stop: "daemon_steps S demo_running 1 (daemon_begin demo_running\<lparr>ds_server := ?sv\<rparr>) demo_stopped" for S
    using daemon_step.stop [of "daemon_begin demo_running\<lparr>ds_server := ?sv\<rparr>" S demo_running] by (simp add: daemon_begin_def demo_stopped_def eq_OO)
  have "case daemon_config (denv_read demo_restart) demo_args of Inl _ \<Rightarrow> False | Inr (sync, tls) \<Rightarrow> cfg_local_node sync = demo_node" by code_simp
  then obtain sync tls where config: "daemon_config (denv_read demo_restart) demo_args = Inr (sync, tls)" "cfg_local_node sync = demo_node"
    by (auto split: sum.splits)
  have valid: "valid_node demo_node" "valid_part ''u''" by code_simp+
  have redb: "denv_redb demo_restart = demo_redb" by (simp add: demo_restart_def demo_daemon_def)
  show ?thesis
    using acknowledged_publish_survives [of demo_restart demo_running "daemon_begin demo_running" 1, unfolded redb, OF demo_backends(2) _ _ _ _ ack _ stop _ _ config(1), of demo_env]
      valid config(2) demo_redb_inv redb_empty_head [OF demo_backends(2)]
    by (simp add: demo_running_def daemon_begin_def demo_restart_def demo_args_def default_args_def demo_ack_def)
qed

end
